(* ===== verification/Tip_Prelude.thy ===== *)
theory Tip_Prelude
  imports Main "HOL-Library.List_Lexorder" "HOL-Library.Char_ord" "HOL-Library.Multiset"
    "HOL-Library.Word" "HOL-Library.AList"
begin

text \<open>
  What every component shares: the rule collections of the development, the type synonyms of
  the model, and lemmas on lists, options and multisets that more than one component uses.
  A Go string is a sequence of bytes, as a HOL \<^typ>\<open>string\<close> is a list of 8-bit characters.
  \<^theory_text>\<open>List_Lexorder\<close> and \<^theory_text>\<open>Char_ord\<close> give Go's bytewise string order, the one
  \<^verbatim>\<open>slices.Sort\<close> uses.
\<close>

named_theorems tip_defs \<open>the operations of a component, unfolded together\<close>
named_theorems inv_intros \<open>preservation lemmas of the component invariants\<close>

type_synonym u32 = "32 word"
type_synonym u64 = "64 word"

text \<open>A call that can return an error: \<open>Inl\<close> the error, \<open>Inr\<close> the value.\<close>

type_synonym ('e, 'a) result = "'e + 'a"

definition is_err :: "('e, 'a) result \<Rightarrow> bool" where
  "is_err r = (case r of Inl _ \<Rightarrow> True | Inr _ \<Rightarrow> False)"

lemma is_err_simps [simp]: "is_err (Inl e)" "\<not> is_err (Inr a)"
  by (simp_all add: is_err_def)

lemma filter_length_le_1:
  "distinct (map f xs) \<Longrightarrow> x \<in> set xs \<Longrightarrow> filter (\<lambda>y. f y = f x) xs = [x]"
proof (induction xs)
  case (Cons y ys)
  then show ?case
    by (cases "x = y") (auto simp: filter_empty_conv dest: sym)
qed simp

lemma map_of_filter_neq: "map_of (filter (\<lambda>(k, _). k \<noteq> a) xs) = (map_of xs)(a := None)"
  by (induction xs) (auto simp: fun_eq_iff)

lemma map_of_filter_notin:
  "map_of (filter (\<lambda>(k, _). P k) xs) k = (if P k then map_of xs k else None)"
  by (induction xs) auto

lemma map_of_permute:
  assumes "mset xs = mset ys" "distinct (map fst xs)"
  shows "map_of xs = map_of ys"
proof -
  have "mset (map fst xs) = mset (map fst ys)" using assms(1) by simp
  then have "distinct (map fst ys)" using assms(2) mset_eq_imp_distinct_iff by blast
  then show ?thesis
    using map_of_inject_set [OF assms(2)] mset_eq_setD [OF assms(1)] by blast
qed

lemma distinct_map_fst_filter: "distinct (map fst xs) \<Longrightarrow> distinct (map fst (filter P xs))"
  by (induction xs) auto

lemma map_of_filter_restrict:
  assumes d: "distinct (map fst xs)"
  shows "map_of (filter P xs) = map_of xs |` (- fst ` set (filter (\<lambda>x. \<not> P x) xs))"
proof
  fix k
  have df: "distinct (map fst (filter P xs))" using d by (rule distinct_map_fst_filter)
  have "map_of (filter P xs) k = Some v \<longleftrightarrow> (map_of xs |` (- fst ` set (filter (\<lambda>x. \<not> P x) xs))) k = Some v" for v
  proof -
    have "P (k, v) \<longleftrightarrow> k \<notin> fst ` set (filter (\<lambda>x. \<not> P x) xs)" if kv: "(k, v) \<in> set xs"
    proof -
      have "w = v" if "(k, w) \<in> set xs" for w by (rule eq_key_imp_eq_value [OF d that kv])
      moreover have "k \<in> fst ` set (filter (\<lambda>x. \<not> P x) xs) \<longleftrightarrow> (\<exists>w. (k, w) \<in> set xs \<and> \<not> P (k, w))"
        by force
      ultimately show ?thesis using kv by blast
    qed
    then show ?thesis using d df by (simp add: restrict_map_def) blast
  qed
  then show "map_of (filter P xs) k = (map_of xs |` (- fst ` set (filter (\<lambda>x. \<not> P x) xs))) k"
    by (metis not_None_eq)
qed

lemma filter_fst_length:
  "distinct (map fst xs) \<Longrightarrow> a \<in> set (map fst xs) \<Longrightarrow>
     Suc (length (filter (\<lambda>(k, _). k \<noteq> a) xs)) = length xs"
proof (induction xs)
  case (Cons x xs)
  show ?case
  proof (cases "fst x = a")
    case True
    with Cons.prems have "a \<notin> set (map fst xs)" by auto
    then have "filter (\<lambda>(k, _). k \<noteq> a) xs = xs"
      by (intro filter_True) (auto simp: image_iff)
    with True show ?thesis by (cases x) simp
  next
    case False
    with Cons show ?thesis by (cases x) auto
  qed
qed simp

lemma update_append_new: "k \<notin> fst ` set xs \<Longrightarrow> AList.update k v xs = xs @ [(k, v)]"
  by (induction xs) auto

text \<open>A fold whose steps commute gives the same result on every permutation of the list.\<close>

lemma fold_permute:
  assumes "\<And>x y. x \<in> set xs \<Longrightarrow> y \<in> set xs \<Longrightarrow> f x \<circ> f y = f y \<circ> f x"
    and "mset xs = mset ys"
  shows "fold f xs = fold f ys"
  using assms by (intro fold_multiset_equiv) auto

end
