(* ===== verification/Tip_Strings.thy ===== *)
theory Tip_Strings
  imports Tip_Prelude
begin

text \<open>
  The Go standard library's string functions that the program uses, on byte strings:
  \<^verbatim>\<open>strings\<close> (ToLower, TrimSpace, Split, Join, Cut, HasPrefix, HasSuffix, Contains),
  \<^verbatim>\<open>strconv\<close> (Itoa, ParseUint, ParseBool) and \<^verbatim>\<open>net\<close> (SplitHostPort, JoinHostPort).
  Case mapping is the ASCII one and white space the ASCII white space: for strings of ASCII
  bytes these are Go's functions exactly, and bytes from 128 on are left unchanged (Go maps the
  letters of other scripts too).
\<close>

section \<open>Characters\<close>

definition lower_char :: "char \<Rightarrow> char" where
  "lower_char c = (let n = of_char c :: nat in if 65 \<le> n \<and> n \<le> 90 then char_of (n + 32) else c)"

definition upper_char :: "char \<Rightarrow> char" where
  "upper_char c = (let n = of_char c :: nat in if 97 \<le> n \<and> n \<le> 122 then char_of (n - 32) else c)"

definition is_digit :: "char \<Rightarrow> bool" where
  "is_digit c = (let n = of_char c :: nat in 48 \<le> n \<and> n \<le> 57)"

definition is_alpha :: "char \<Rightarrow> bool" where
  "is_alpha c = (let n = of_char c :: nat in 65 \<le> n \<and> n \<le> 90 \<or> 97 \<le> n \<and> n \<le> 122)"

definition to_lower :: "string \<Rightarrow> string" where
  "to_lower s = map lower_char s"

definition to_upper :: "string \<Rightarrow> string" where
  "to_upper s = map upper_char s"

text \<open>\<^verbatim>\<open>strings.EqualFold\<close> on ASCII strings.\<close>

definition equal_fold :: "string \<Rightarrow> string \<Rightarrow> bool" where
  "equal_fold a b = (to_lower a = to_lower b)"

lemma of_char_lower_char:
  "(of_char (lower_char c) :: nat) =
     (if 65 \<le> (of_char c :: nat) \<and> (of_char c :: nat) \<le> 90 then of_char c + 32 else of_char c)"
  by (simp add: lower_char_def Let_def of_char_of)

lemma of_char_upper_char:
  "(of_char (upper_char c) :: nat) =
     (if 97 \<le> (of_char c :: nat) \<and> (of_char c :: nat) \<le> 122 then of_char c - 32 else of_char c)"
  by (auto simp: upper_char_def Let_def of_char_of)

lemma char_eqI: "(of_char c :: nat) = of_char d \<Longrightarrow> c = d"
  by simp

lemma lower_upper_char [simp]:
  "lower_char (upper_char c) = lower_char c" "upper_char (lower_char c) = upper_char c"
  by (rule char_eqI; auto simp: of_char_lower_char of_char_upper_char)+

lemma lower_char_id: "\<not> is_alpha c \<Longrightarrow> lower_char c = c"
  by (auto simp: is_alpha_def lower_char_def Let_def)

lemma upper_char_id: "\<not> is_alpha c \<Longrightarrow> upper_char c = c"
  by (auto simp: is_alpha_def upper_char_def Let_def)

lemma is_alpha_case [simp]:
  "is_alpha (lower_char c) = is_alpha c" "is_alpha (upper_char c) = is_alpha c"
  by (auto simp: is_alpha_def Let_def of_char_lower_char of_char_upper_char)

lemma lower_char_idem [simp]: "lower_char (lower_char c) = lower_char c"
  using of_char_lower_char [of c] by (subst lower_char_def) (auto simp: Let_def split: if_splits)

lemma upper_char_idem [simp]: "upper_char (upper_char c) = upper_char c"
  by (rule char_eqI) (auto simp: of_char_upper_char)

lemma to_lower_idem [simp]: "to_lower (to_lower s) = to_lower s"
  by (simp add: to_lower_def comp_def)

lemma to_lower_simps [simp]:
  "to_lower [] = []"
  "to_lower (c # s) = lower_char c # to_lower s"
  "to_lower (s @ t) = to_lower s @ to_lower t"
  "length (to_lower s) = length s"
  by (simp_all add: to_lower_def)

lemma to_lower_eq_Nil [simp]: "to_lower s = [] \<longleftrightarrow> s = []"
  by (simp add: to_lower_def)

section \<open>White space\<close>

text \<open>\<^verbatim>\<open>unicode.IsSpace\<close> on ASCII: tab, newline, vertical tab, form feed, return, space.\<close>

definition is_space :: "char \<Rightarrow> bool" where
  "is_space c = (let n = of_char c :: nat in 9 \<le> n \<and> n \<le> 13 \<or> n = 32)"

text \<open>\<^verbatim>\<open>textproto.isASCIISpace\<close>, without vertical tab and form feed.\<close>

definition is_ascii_space :: "char \<Rightarrow> bool" where
  "is_ascii_space c = (let n = of_char c :: nat in n = 32 \<or> n = 9 \<or> n = 10 \<or> n = 13)"

definition trim_by :: "(char \<Rightarrow> bool) \<Rightarrow> string \<Rightarrow> string" where
  "trim_by p s = rev (dropWhile p (rev (dropWhile p s)))"

definition trim_space :: "string \<Rightarrow> string" where
  "trim_space = trim_by is_space"

definition trim_string :: "string \<Rightarrow> string" where
  "trim_string = trim_by is_ascii_space"

lemma trim_by_Nil [simp]: "trim_by p [] = []"
  by (simp add: trim_by_def)

lemma set_trim_by: "set (trim_by p s) \<subseteq> set s"
proof -
  have "set (dropWhile p t) \<subseteq> set t" for t by (auto dest: set_dropWhileD)
  from this [of "rev (dropWhile p s)"] this [of s] show ?thesis
    unfolding trim_by_def by auto
qed

lemma trim_by_hd: "trim_by p s \<noteq> [] \<Longrightarrow> \<not> p (hd (trim_by p s))"
proof -
  let ?t = "dropWhile p s"
  assume ne: "trim_by p s \<noteq> []"
  then have t: "?t \<noteq> []" unfolding trim_by_def by (metis dropWhile.simps(1) rev.simps(1))
  then have hd: "\<not> p (hd ?t)" by (rule hd_dropWhile)
  from t obtain a u where au: "?t = a # u" by (cases ?t) auto
  with hd have na: "\<not> p a" by simp
  then have "dropWhile p (rev u @ [a]) = dropWhile p (rev u) @ [a]"
    by (simp add: dropWhile_append3)
  then show ?thesis using au na by (simp add: trim_by_def)
qed

lemma trim_by_last: "trim_by p s \<noteq> [] \<Longrightarrow> \<not> p (last (trim_by p s))"
  unfolding trim_by_def
  by (metis hd_dropWhile last_rev rev_is_Nil_conv)

lemma trim_by_id: "s = [] \<or> \<not> p (hd s) \<and> \<not> p (last s) \<Longrightarrow> trim_by p s = s"
proof (cases s)
  case (Cons a t)
  assume "s = [] \<or> \<not> p (hd s) \<and> \<not> p (last s)"
  with Cons have a: "\<not> p a" "\<not> p (last s)" by auto
  then have "dropWhile p s = s" using Cons by simp
  moreover have "dropWhile p (rev s) = rev s"
    using a Cons by (cases "rev s") (auto simp: hd_rev [symmetric])
  ultimately show ?thesis by (simp add: trim_by_def)
qed simp

lemma trim_by_idem [simp]: "trim_by p (trim_by p s) = trim_by p s"
  by (rule trim_by_id) (metis trim_by_hd trim_by_last)

section \<open>Prefixes, suffixes, substrings\<close>

definition has_prefix :: "string \<Rightarrow> string \<Rightarrow> bool" where
  "has_prefix p s = (take (length p) s = p)"

definition has_suffix :: "string \<Rightarrow> string \<Rightarrow> bool" where
  "has_suffix p s = (length p \<le> length s \<and> drop (length s - length p) s = p)"

fun contains :: "string \<Rightarrow> string \<Rightarrow> bool" where
  "contains sub [] = (sub = [])"
| "contains sub (c # s) = (has_prefix sub (c # s) \<or> contains sub s)"

lemma has_prefix_iff: "has_prefix p s \<longleftrightarrow> (\<exists>t. s = p @ t)"
  by (auto simp: has_prefix_def) (metis append_take_drop_id)

lemma has_prefix_append [simp]: "has_prefix p (p @ t)"
  by (simp add: has_prefix_def)

lemma has_suffix_iff: "has_suffix p s \<longleftrightarrow> (\<exists>t. s = t @ p)"
proof
  assume "has_suffix p s"
  then show "\<exists>t. s = t @ p"
    unfolding has_suffix_def by (metis append_take_drop_id)
qed (auto simp: has_suffix_def)

lemma contains_iff: "contains sub s \<longleftrightarrow> (\<exists>a b. s = a @ sub @ b)"
proof (induction s)
  case Nil
  then show ?case by simp
next
  case (Cons c s)
  show ?case
  proof
    assume "contains sub (c # s)"
    then consider "has_prefix sub (c # s)" | "contains sub s" by auto
    then show "\<exists>a b. c # s = a @ sub @ b"
    proof cases
      case 1
      then obtain t where "c # s = [] @ sub @ t" by (auto simp: has_prefix_iff)
      then show ?thesis by blast
    next
      case 2
      then obtain a b where "s = a @ sub @ b" using Cons.IH by auto
      then have "c # s = (c # a) @ sub @ b" by simp
      then show ?thesis by blast
    qed
  next
    assume "\<exists>a b. c # s = a @ sub @ b"
    then obtain a b where ab: "c # s = a @ sub @ b" by blast
    show "contains sub (c # s)"
    proof (cases a)
      case Nil
      with ab have "has_prefix sub (c # s)" by simp
      then show ?thesis by simp
    next
      case (Cons d a')
      with ab have "s = a' @ sub @ b" by simp
      then have "contains sub s" using Cons.IH by blast
      then show ?thesis by simp
    qed
  qed
qed

text \<open>\<^verbatim>\<open>strings.CutPrefix\<close>: the rest after the prefix, if it is there.\<close>

definition cut_prefix :: "string \<Rightarrow> string \<Rightarrow> string option" where
  "cut_prefix p s = (if has_prefix p s then Some (drop (length p) s) else None)"

definition trim_prefix :: "string \<Rightarrow> string \<Rightarrow> string" where
  "trim_prefix p s = (case cut_prefix p s of Some t \<Rightarrow> t | None \<Rightarrow> s)"

text \<open>\<^verbatim>\<open>strings.Cut\<close> at a one-byte separator: before, after, found.\<close>

fun cut :: "char \<Rightarrow> string \<Rightarrow> string \<times> string \<times> bool" where
  "cut c [] = ([], [], False)"
| "cut c (x # s) =
     (if x = c then ([], s, True)
      else (case cut c s of (a, b, f) \<Rightarrow> (x # a, b, f)))"

lemma cut_found: "cut c s = (a, b, True) \<longleftrightarrow> c \<notin> set a \<and> s = a @ c # b"
proof (induction s arbitrary: a)
  case (Cons x s)
  obtain a' b' f where eq: "cut c s = (a', b', f)" by (cases "cut c s") auto
  with Cons.IH [of "tl a"] show ?case
    by (cases a) auto
qed simp

lemma cut_not_found: "cut c s = (a, b, False) \<longleftrightarrow> c \<notin> set s \<and> a = s \<and> b = []"
proof (induction s arbitrary: a)
  case (Cons x s)
  obtain a' b' f where eq: "cut c s = (a', b', f)" by (cases "cut c s") auto
  with Cons.IH [of "tl a"] show ?case
    by (cases a) auto
qed auto

lemma cut_fst: "c \<notin> set (fst (cut c s))" "set (fst (cut c s)) \<subseteq> set s"
  by (induction s) (auto split: prod.splits)

section \<open>Split and join\<close>

text \<open>\<^verbatim>\<open>strings.Split\<close> at a one-byte separator: never empty.\<close>

fun split_on :: "char \<Rightarrow> string \<Rightarrow> string list" where
  "split_on c [] = [[]]"
| "split_on c (x # s) =
     (if x = c then [] # split_on c s
      else (case split_on c s of [] \<Rightarrow> [[x]] | y # ys \<Rightarrow> (x # y) # ys))"

fun join :: "string \<Rightarrow> string list \<Rightarrow> string" where
  "join sep [] = []"
| "join sep [s] = s"
| "join sep (s # t # ts) = s @ sep @ join sep (t # ts)"

lemma split_on_not_Nil [simp]: "split_on c s \<noteq> []"
  by (cases s) (auto split: list.splits)

lemma join_Cons: "ts \<noteq> [] \<Longrightarrow> join sep (s # ts) = s @ sep @ join sep ts"
  by (cases ts) auto

lemma join_Cons_Cons: "join sep ((x # y) # ys) = x # join sep (y # ys)"
  by (cases ys) simp_all

lemma join_split_on: "join [c] (split_on c s) = s"
proof (induction s)
  case (Cons x s)
  then show ?case
  proof (cases "split_on c s")
    case (Cons y ys)
    with Cons.IH show ?thesis by (auto simp: join_Cons_Cons)
  qed simp
qed simp

lemma split_on_no_sep: "t \<in> set (split_on c s) \<Longrightarrow> c \<notin> set t"
  by (induction s arbitrary: t) (auto split: list.splits if_splits)

lemma split_on_append_sep: "split_on c (a @ c # b) = split_on c a @ split_on c b"
  by (induction a) (auto split: list.splits simp: append_eq_Cons_conv)

lemma split_on_id: "c \<notin> set s \<Longrightarrow> split_on c s = [s]"
  by (induction s) auto

lemma split_on_join:
  "ts \<noteq> [] \<Longrightarrow> (\<And>t. t \<in> set ts \<Longrightarrow> c \<notin> set t) \<Longrightarrow> split_on c (join [c] ts) = ts"
proof (induction ts)
  case (Cons t ts)
  then show ?case
    by (cases "ts = []") (auto simp: join_Cons split_on_append_sep split_on_id)
qed simp

section \<open>Numbers\<close>

definition digit_char :: "nat \<Rightarrow> char" where
  "digit_char d = char_of (48 + d)"

definition digit_val :: "char \<Rightarrow> nat" where
  "digit_val c = of_char c - 48"

text \<open>\<^verbatim>\<open>strconv.Itoa\<close> for a number that is not negative.\<close>

fun itoa :: "nat \<Rightarrow> string" where
  "itoa n = (if n < 10 then [digit_char n] else itoa (n div 10) @ [digit_char (n mod 10)])"

declare itoa.simps [simp del]

definition digits_val :: "string \<Rightarrow> nat" where
  "digits_val s = foldl (\<lambda>v c. 10 * v + digit_val c) 0 s"

text \<open>\<^verbatim>\<open>strconv.ParseUint(s, 10, w)\<close>: only digits, at least one, and the value fits \<open>w\<close> bits.\<close>

definition parse_uint :: "nat \<Rightarrow> string \<Rightarrow> nat option" where
  "parse_uint w s =
     (if s = [] \<or> \<not> list_all is_digit s then None
      else let n = digits_val s in if n < 2 ^ w then Some n else None)"

text \<open>\<^verbatim>\<open>strconv.ParseBool\<close>.\<close>

definition parse_bool :: "string \<Rightarrow> bool option" where
  "parse_bool s =
     (if s \<in> {''1'', ''t'', ''T'', ''true'', ''TRUE'', ''True''} then Some True
      else if s \<in> {''0'', ''f'', ''F'', ''false'', ''FALSE'', ''False''} then Some False
      else None)"

lemma digit_char_props:
  "d < 10 \<Longrightarrow> is_digit (digit_char d)" "d < 10 \<Longrightarrow> digit_val (digit_char d) = d"
  by (simp_all add: is_digit_def digit_char_def digit_val_def of_char_of)

lemma itoa_not_Nil [simp]: "itoa n \<noteq> []"
  by (subst itoa.simps) simp

lemma itoa_digits: "c \<in> set (itoa n) \<Longrightarrow> is_digit c"
  by (induction n rule: itoa.induct)
    (subst (asm) (2) itoa.simps, auto simp: digit_char_props split: if_splits)

lemma digits_val_snoc [simp]: "digits_val (s @ [c]) = 10 * digits_val s + digit_val c"
  by (simp add: digits_val_def)

lemma digits_val_itoa [simp]: "digits_val (itoa n) = n"
proof (induction n rule: itoa.induct)
  case (1 n)
  show ?case
  proof (cases "n < 10")
    case True
    then show ?thesis by (subst itoa.simps) (simp add: digits_val_def digit_char_props)
  next
    case False
    then have "digits_val (itoa n) = 10 * (n div 10) + n mod 10"
      using "1" by (subst itoa.simps) (simp add: digit_char_props)
    then show ?thesis by simp
  qed
qed

lemma parse_uint_itoa: "n < 2 ^ w \<Longrightarrow> parse_uint w (itoa n) = Some n"
  by (auto simp: parse_uint_def list_all_iff itoa_digits Let_def)

lemma itoa_inject [simp]: "itoa m = itoa n \<longleftrightarrow> m = n"
  by (metis digits_val_itoa)

lemma parse_uint_bound: "parse_uint w s = Some n \<Longrightarrow> n < 2 ^ w"
  by (auto simp: parse_uint_def Let_def split: if_splits)

section \<open>Host and port\<close>

fun last_index :: "char \<Rightarrow> string \<Rightarrow> nat option" where
  "last_index c [] = None"
| "last_index c (x # s) =
     (case last_index c s of Some i \<Rightarrow> Some (Suc i) | None \<Rightarrow> if x = c then Some 0 else None)"

fun index :: "char \<Rightarrow> string \<Rightarrow> nat option" where
  "index c [] = None"
| "index c (x # s) = (if x = c then Some 0 else map_option Suc (index c s))"

lemma last_index_append: "c \<notin> set b \<Longrightarrow> last_index c (a @ c # b) = Some (length a)"
proof -
  have "c \<notin> set b \<Longrightarrow> last_index c b = None" for b by (induction b) auto
  then show "c \<notin> set b \<Longrightarrow> ?thesis" by (induction a) auto
qed

lemma last_index_None: "last_index c s = None \<longleftrightarrow> c \<notin> set s"
  by (induction s) (auto split: option.splits)

lemma index_append: "c \<notin> set a \<Longrightarrow> index c (a @ c # b) = Some (length a)"
  by (induction a) auto

lemma index_None: "index c s = None \<longleftrightarrow> c \<notin> set s"
  by (induction s) auto

text \<open>\<^verbatim>\<open>net.SplitHostPort\<close>: \<open>None\<close> is its address error.\<close>

definition split_host_port :: "string \<Rightarrow> (string \<times> string) option" where
  "split_host_port hp =
     (case last_index CHR '':'' hp of
        None \<Rightarrow> None
      | Some i \<Rightarrow>
          if take 1 hp = ''['' then
            (case index CHR '']'' hp of
               None \<Rightarrow> None
             | Some e \<Rightarrow>
                 if e + 1 \<noteq> i \<or> CHR ''['' \<in> set (drop 1 hp) \<or> CHR '']'' \<in> set (drop (e + 1) hp)
                 then None
                 else Some (take (e - 1) (drop 1 hp), drop (i + 1) hp))
          else if CHR '':'' \<in> set (take i hp) \<or> CHR ''['' \<in> set hp \<or> CHR '']'' \<in> set hp then None
          else Some (take i hp, drop (i + 1) hp))"

definition join_host_port :: "string \<Rightarrow> string \<Rightarrow> string" where
  "join_host_port h p =
     (if CHR '':'' \<in> set h then ''['' @ h @ '']:'' @ p else h @ '':'' @ p)"

lemma split_join_host_port:
  assumes "CHR ''['' \<notin> set h" "CHR '']'' \<notin> set h"
    and "CHR '':'' \<notin> set p" "CHR ''['' \<notin> set p" "CHR '']'' \<notin> set p"
  shows "split_host_port (join_host_port h p) = Some (h, p)"
proof (cases "CHR '':'' \<in> set h")
  case True
  let ?hp = "''['' @ h @ '']:'' @ p"
  have "last_index CHR '':'' ((''['' @ h @ '']'') @ CHR '':'' # p) = Some (length (''['' @ h @ '']''))"
    using assms by (intro last_index_append)
  then have l: "last_index CHR '':'' ?hp = Some (length h + 2)" by simp
  have "index CHR '']'' ((''['' @ h) @ CHR '']'' # '':'' @ p) = Some (length (''['' @ h))"
    using assms by (intro index_append) auto
  then have e: "index CHR '']'' ?hp = Some (length h + 1)" by simp
  show ?thesis using True assms l e
    by (simp add: join_host_port_def split_host_port_def)
next
  case False
  have "last_index CHR '':'' (h @ CHR '':'' # p) = Some (length h)"
    using assms by (intro last_index_append)
  moreover have "take 1 (h @ '':'' @ p) \<noteq> ''[''" using assms by (cases h) auto
  ultimately show ?thesis using False assms
    by (simp add: join_host_port_def split_host_port_def)
qed

end
