(* ===== verification/Tip_Unknown.thy ===== *)
theory Tip_Unknown
  imports Tip_Strings
begin

text \<open>
  Keys the configuration does not know (\<^verbatim>\<open>internal/config/unknown.go\<close>): the document as the YAML library
  decodes it, the Go types as far as the search looks at them, and the search itself against the
  relation that says where a document has an unknown key.
\<close>

section \<open>Documents and types\<close>

text \<open>
  A mapping with string keys is a list of entries in the order Go happens to visit them; \<open>YOther\<close> is any
  val of another Go type.
\<close>

datatype yaml =
    YMap "(string \<times> yaml) list"
  | YList "yaml list"
  | YStr string
  | YInt int
  | YBool bool
  | YNull
  | YOther string

datatype gotype = TStruct "(string \<times> gotype) list" | TSlice gotype | TScalar

section \<open>The search\<close>

text \<open>
  \<open>unknown_entries\<close> is the loop over the entries, \<open>unknown_items\<close> the one over the items of a list. The
  fields of a type are the list of its tags.
\<close>

function (sequential) unknown_keys :: "(string \<times> yaml) list \<Rightarrow> (string \<times> gotype) list \<Rightarrow> string \<Rightarrow> string list"
  and unknown_entries :: "(string \<times> yaml) list \<Rightarrow> (string \<times> gotype) list \<Rightarrow> string \<Rightarrow> string list"
  and unknown_items :: "yaml list \<Rightarrow> (string \<times> gotype) list \<Rightarrow> string \<Rightarrow> nat \<Rightarrow> string list" where
  "unknown_keys doc fs prefix = sort (unknown_entries doc fs prefix)"
| "unknown_entries [] fs prefix = []"
| "unknown_entries ((key, val) # doc) fs prefix =
     (case map_of fs key of
        None \<Rightarrow> [prefix @ key]
      | Some (TStruct fs') \<Rightarrow>
          (case val of YMap nested \<Rightarrow> unknown_keys nested fs' (prefix @ key @ ''.'') | _ \<Rightarrow> [])
      | Some (TSlice (TStruct fs')) \<Rightarrow>
          (case val of YList items \<Rightarrow> unknown_items items fs' (prefix @ key) 0 | _ \<Rightarrow> [])
      | Some _ \<Rightarrow> []) @ unknown_entries doc fs prefix"
| "unknown_items [] fs prefix i = []"
| "unknown_items (item # items) fs prefix i =
     (case item of YMap nested \<Rightarrow> unknown_keys nested fs (prefix @ ''['' @ itoa i @ ''].'') | _ \<Rightarrow> []) @
     unknown_items items fs prefix (Suc i)"
  by pat_completeness auto
termination
  by (relation "measure (\<lambda>x. case x of
        Inl (doc, fs, prefix) \<Rightarrow> Suc (2 * size_list (size_prod (\<lambda>_. 0) size) doc)
      | Inr (Inl (doc, fs, prefix)) \<Rightarrow> 2 * size_list (size_prod (\<lambda>_. 0) size) doc
      | Inr (Inr (items, fs, prefix, i)) \<Rightarrow> 2 * size_list size items)") auto

section \<open>Where a document has an unknown key\<close>

inductive unknown_at :: "(string \<times> yaml) list \<Rightarrow> (string \<times> gotype) list \<Rightarrow> string \<Rightarrow> string \<Rightarrow> bool" where
  here: "(key, val) \<in> set doc \<Longrightarrow> map_of fs key = None \<Longrightarrow> unknown_at doc fs prefix (prefix @ key)"
| field: "(key, YMap nested) \<in> set doc \<Longrightarrow> map_of fs key = Some (TStruct fs') \<Longrightarrow>
     unknown_at nested fs' (prefix @ key @ ''.'') path \<Longrightarrow> unknown_at doc fs prefix path"
| item: "(key, YList items) \<in> set doc \<Longrightarrow> map_of fs key = Some (TSlice (TStruct fs')) \<Longrightarrow>
     i < length items \<Longrightarrow> items ! i = YMap nested \<Longrightarrow>
     unknown_at nested fs' (prefix @ key @ ''['' @ itoa i @ ''].'') path \<Longrightarrow> unknown_at doc fs prefix path"

text \<open>A path is unknown because of one entry of the document.\<close>

definition entry_unknown :: "(string \<times> gotype) list \<Rightarrow> string \<Rightarrow> string \<Rightarrow> string \<times> yaml \<Rightarrow> bool" where
  "entry_unknown fs prefix path e =
     (case map_of fs (fst e) of
        None \<Rightarrow> path = prefix @ fst e
      | Some (TStruct fs') \<Rightarrow> \<exists>nested. snd e = YMap nested \<and> unknown_at nested fs' (prefix @ fst e @ ''.'') path
      | Some (TSlice (TStruct fs')) \<Rightarrow>
          \<exists>items i nested. snd e = YList items \<and> i < length items \<and> items ! i = YMap nested \<and>
            unknown_at nested fs' (prefix @ fst e @ ''['' @ itoa i @ ''].'') path
      | Some _ \<Rightarrow> False)"

lemma unknown_at_entry: "unknown_at doc fs prefix path \<longleftrightarrow> (\<exists>e \<in> set doc. entry_unknown fs prefix path e)"
proof
  show "unknown_at doc fs prefix path \<Longrightarrow> \<exists>e \<in> set doc. entry_unknown fs prefix path e"
    by (erule unknown_at.cases) (force simp: entry_unknown_def)+
  assume "\<exists>e \<in> set doc. entry_unknown fs prefix path e"
  then obtain key val where e: "(key, val) \<in> set doc" "entry_unknown fs prefix path (key, val)" by auto
  then show "unknown_at doc fs prefix path"
    by (auto simp: entry_unknown_def split: option.splits gotype.splits intro: unknown_at.intros)
qed

lemma unknown_keys_set:
  "set (unknown_keys doc fs prefix) = {path. unknown_at doc fs prefix path}"
  "set (unknown_entries doc fs prefix) = {path. unknown_at doc fs prefix path}"
  "set (unknown_items items fs prefix i) =
     {path. \<exists>j nested. j < length items \<and> items ! j = YMap nested \<and>
        unknown_at nested fs (prefix @ ''['' @ itoa (i + j) @ ''].'') path}"
proof (induction doc fs prefix and doc fs prefix and items fs prefix i
    rule: unknown_keys_unknown_entries_unknown_items.induct)
  case (3 key val doc fs prefix)
  have "unknown_at ((key, val) # doc) fs prefix path \<longleftrightarrow>
      entry_unknown fs prefix path (key, val) \<or> unknown_at doc fs prefix path" for path
    unfolding unknown_at_entry by simp
  moreover have "set (case map_of fs key of
        None \<Rightarrow> [prefix @ key]
      | Some (TStruct fs') \<Rightarrow>
          (case val of YMap nested \<Rightarrow> unknown_keys nested fs' (prefix @ key @ ''.'') | _ \<Rightarrow> [])
      | Some (TSlice (TStruct fs')) \<Rightarrow>
          (case val of YList items \<Rightarrow> unknown_items items fs' (prefix @ key) 0 | _ \<Rightarrow> [])
      | Some _ \<Rightarrow> []) = {path. entry_unknown fs prefix path (key, val)}"
  proof (cases "map_of fs key")
    case None
    then show ?thesis by (simp add: entry_unknown_def)
  next
    case (Some t)
    show ?thesis
    proof (cases t)
      case (TStruct fs')
      with Some 3(1) show ?thesis by (cases val) (simp_all add: entry_unknown_def)
    next
      case (TSlice t')
      with Some 3(2) show ?thesis by (cases t'; cases val) (auto simp: entry_unknown_def)
    qed (simp add: Some entry_unknown_def)
  qed
  ultimately show ?case using 3(3) by (simp only: unknown_entries.simps set_append) blast
next
  case (5 item items fs prefix i)
  have "(\<exists>j nested. j < length (item # items) \<and> (item # items) ! j = YMap nested \<and>
        unknown_at nested fs (prefix @ ''['' @ itoa (i + j) @ ''].'') path) \<longleftrightarrow>
      (\<exists>nested. item = YMap nested \<and> unknown_at nested fs (prefix @ ''['' @ itoa i @ ''].'') path) \<or>
      (\<exists>j nested. j < length items \<and> items ! j = YMap nested \<and>
        unknown_at nested fs (prefix @ ''['' @ itoa (Suc i + j) @ ''].'') path)" for path
    by (auto simp: less_Suc_eq_0_disj)
  moreover have "set (case item of YMap nested \<Rightarrow> unknown_keys nested fs (prefix @ ''['' @ itoa i @ ''].'') | _ \<Rightarrow> []) =
      {path. \<exists>nested. item = YMap nested \<and> unknown_at nested fs (prefix @ ''['' @ itoa i @ ''].'') path}"
    using 5(1) by (cases item) simp_all
  ultimately show ?case using 5(2) by (simp only: unknown_items.simps set_append) blast
qed (simp_all add: unknown_at_entry)

lemma unknown_entries_append: "unknown_entries (xs @ ys) fs prefix = unknown_entries xs fs prefix @ unknown_entries ys fs prefix"
  by (induction xs) auto

lemma unknown_entries_concat: "unknown_entries doc fs prefix = concat (map (\<lambda>e. unknown_entries [e] fs prefix) doc)"
proof (induction doc)
  case (Cons e doc)
  then show ?case using unknown_entries_append [of "[e]" doc] by simp
qed simp

text \<open>
  C36. The search for unknown keys finds exactly the places where the document has a key its type does not
  know: at the top, inside a nested structure, or inside an item of a list of structures, each named
  by its path. The report is in order, and the same in whatever order Go visits the map.
\<close>

theorem unknown_keys_exact:
  "set (unknown_keys doc fs prefix) = {path. unknown_at doc fs prefix path} \<and>
   sorted (unknown_keys doc fs prefix) \<and>
   (mset doc = mset doc' \<longrightarrow> unknown_keys doc fs prefix = unknown_keys doc' fs prefix)"
proof (intro conjI impI)
  show "set (unknown_keys doc fs prefix) = {path. unknown_at doc fs prefix path}" by (rule unknown_keys_set(1))
  show "sorted (unknown_keys doc fs prefix)" by simp
  assume "mset doc = mset doc'"
  then have "mset (map (\<lambda>e. unknown_entries [e] fs prefix) doc) = mset (map (\<lambda>e. unknown_entries [e] fs prefix) doc')"
    by simp
  moreover have "mset (concat xss) = sum_mset (image_mset mset (mset xss))" for xss :: "string list list"
    by (induction xss) simp_all
  ultimately have "mset (unknown_entries doc fs prefix) = mset (unknown_entries doc' fs prefix)"
    unfolding unknown_entries_concat [of doc] unknown_entries_concat [of doc'] by simp
  then show "unknown_keys doc fs prefix = unknown_keys doc' fs prefix"
    by (simp add: properties_for_sort)
qed

theorem unknown_keys_exact_witness:
  "unknown_keys [(''tls'', YMap [(''cert'', YNull)]), (''a'', YInt 1)] [(''tls'', TStruct [(''ca_cert'', TScalar)])] [] =
   unknown_keys [(''a'', YInt 1), (''tls'', YMap [(''cert'', YNull)])] [(''tls'', TStruct [(''ca_cert'', TScalar)])] []"
proof -
  let ?a = "(''tls'', YMap [(''cert'', YNull)])" and ?b = "(''a'', YInt 1)"
  have "mset [?a, ?b] = mset [?b, ?a]" by simp
  with unknown_keys_exact [of "[?a, ?b]" _ _ "[?b, ?a]"] show ?thesis by blast
qed

end
