(* ===== verification/Tip_Url.thy ===== *)
theory Tip_Url
  imports Tip_Strings
begin

text \<open>
  \<^verbatim>\<open>net/url\<close> as the program sees it. The parser itself (\<^verbatim>\<open>url.Parse\<close>) is an argument
  \<open>url_parse\<close> of the definitions that call it, so what is proved holds for every parser; the
  accessors \<^verbatim>\<open>Hostname\<close> and \<^verbatim>\<open>Port\<close> are defined as the library defines them.
\<close>

record url =
  u_scheme :: string
  u_user :: "(string \<times> string option) option"
  u_host :: string
  u_path :: string

type_synonym url_parser = "string \<Rightarrow> url option"

definition valid_optional_port :: "string \<Rightarrow> bool" where
  "valid_optional_port p =
     (case p of [] \<Rightarrow> True | c # ds \<Rightarrow> c = CHR '':'' \<and> list_all is_digit ds)"

definition url_split_host_port :: "string \<Rightarrow> string \<times> string" where
  "url_split_host_port hp =
     (let (host, port) =
        (case last_index CHR '':'' hp of
           None \<Rightarrow> (hp, [])
         | Some i \<Rightarrow>
             if valid_optional_port (drop i hp) then (take i hp, drop (Suc i) hp) else (hp, []))
      in (if has_prefix ''['' host \<and> has_suffix '']'' host \<and> 2 \<le> length host
          then (take (length host - 2) (drop 1 host), port) else (host, port)))"

definition url_hostname :: "url \<Rightarrow> string" where
  "url_hostname u = fst (url_split_host_port (u_host u))"

definition url_port :: "url \<Rightarrow> string" where
  "url_port u = snd (url_split_host_port (u_host u))"

lemma url_port_digits: "list_all is_digit (url_port u)"
proof -
  have "list_all is_digit (drop (Suc i) s)" if "valid_optional_port (drop i s)" for i s
    using that by (cases "drop i s") (auto simp: valid_optional_port_def drop_Suc tl_drop [symmetric])
  then show ?thesis
    by (auto simp: url_port_def url_split_host_port_def Let_def split: option.splits)
qed

lemma url_split_plain:
  assumes "CHR '':'' \<notin> set h" "take 1 h \<noteq> ''[''"
  shows "url_split_host_port h = (h, [])"
    and "list_all is_digit p \<Longrightarrow> url_split_host_port (h @ '':'' @ p) = (h, p)"
proof -
  have np: "\<not> has_prefix ''['' h" using assms(2) by (simp add: has_prefix_def)
  have "last_index CHR '':'' h = None" using assms(1) by (simp add: last_index_None)
  with np show "url_split_host_port h = (h, [])"
    by (simp add: url_split_host_port_def)
  assume p: "list_all is_digit p"
  then have "CHR '':'' \<notin> set p" by (auto simp: list_all_iff is_digit_def)
  then have "last_index CHR '':'' (h @ CHR '':'' # p) = Some (length h)"
    by (rule last_index_append)
  with np p show "url_split_host_port (h @ '':'' @ p) = (h, p)"
    by (simp add: url_split_host_port_def valid_optional_port_def)
qed

end
