(* ===== verification/Tip_Duration.thy ===== *)
theory Tip_Duration
  imports Tip_Strings
begin

text \<open>
  \<^verbatim>\<open>time.ParseDuration\<close>, which reads the durations of the directives and of the configuration: a
  sign, then numbers with units. A duration is an \<open>int64\<close> of nanoseconds, and the overflow checks are
  those of the library, on \<open>uint64\<close> values. The fraction of a number goes through a
  \<open>float64\<close> product; \<open>frac f unit scale\<close> stands for it.
\<close>

definition two63 :: nat where
  "two63 = 9223372036854775808"

definition duration_units :: "(string \<times> nat) list" where
  "duration_units =
     [(''ns'', 1), (''us'', 1000), ([CHR 0xC2, CHR 0xB5, CHR ''s''], 1000),
      ([CHR 0xCE, CHR 0xBC, CHR ''s''], 1000), (''ms'', 1000000), (''s'', 1000000000),
      (''m'', 60000000000), (''h'', 3600000000000)]"

fun leading_int :: "string \<Rightarrow> nat \<Rightarrow> (nat \<times> string) option" where
  "leading_int [] x = Some (x, [])"
| "leading_int (c # s) x =
     (if \<not> is_digit c then Some (x, c # s)
      else if two63 div 10 < x then None
      else (let y = x * 10 + digit_val c in if two63 < y then None else leading_int s y))"

fun leading_fraction :: "string \<Rightarrow> nat \<Rightarrow> nat \<Rightarrow> bool \<Rightarrow> nat \<times> nat \<times> string" where
  "leading_fraction [] x scale overflow = (x, scale, [])"
| "leading_fraction (c # s) x scale overflow =
     (if \<not> is_digit c then (x, scale, c # s)
      else if overflow \<or> (two63 - 1) div 10 < x then leading_fraction s x scale True
      else (let y = x * 10 + digit_val c in
            if two63 < y then leading_fraction s x scale True else leading_fraction s y (scale * 10) False))"

definition fraction_part :: "string \<Rightarrow> nat \<times> nat \<times> string \<times> bool" where
  "fraction_part s =
     (case s of
        c # t \<Rightarrow>
          if c = CHR ''.''
          then (case leading_fraction t 0 1 False of (f, scale, r) \<Rightarrow> (f, scale, r, length r \<noteq> length t))
          else (0, 1, s, False)
      | [] \<Rightarrow> (0, 1, s, False))"

text \<open>One number with its unit: its nanoseconds, and the rest of the text.\<close>

definition unit_end :: "char \<Rightarrow> bool" where
  "unit_end c = (c = CHR ''.'' \<or> is_digit c)"

definition one_duration :: "(nat \<Rightarrow> nat \<Rightarrow> nat \<Rightarrow> nat) \<Rightarrow> string \<Rightarrow> (nat \<times> string) option" where
  "one_duration frac s =
     (if s = [] \<or> \<not> unit_end (hd s) then None
      else (case leading_int s 0 of
              None \<Rightarrow> None
            | Some (v, s1) \<Rightarrow>
                let pre = (length s1 \<noteq> length s);
                    (f, scale, s2, post) = fraction_part s1;
                    u = takeWhile (\<lambda>c. \<not> unit_end c) s2; rest = dropWhile (\<lambda>c. \<not> unit_end c) s2
                in if \<not> pre \<and> \<not> post \<or> u = [] then None
                   else (case map_of duration_units u of
                           None \<Rightarrow> None
                         | Some k \<Rightarrow>
                             if two63 div k < v then None
                             else (let w = v * k + (if 0 < f then frac f k scale else 0)
                                   in if two63 < w then None else Some (w, rest)))))"

lemma leading_int_length: "leading_int s x = Some (v, r) \<Longrightarrow> length r \<le> length s"
  by (induction s x rule: leading_int.induct) (auto simp: Let_def split: if_splits)

lemma leading_fraction_length: "leading_fraction s x k b = (f, scale, r) \<Longrightarrow> length r \<le> length s"
  by (induction s x k b rule: leading_fraction.induct) (auto simp: Let_def le_SucI split: if_splits)

lemma fraction_part_length: "fraction_part s = (f, scale, r, post) \<Longrightarrow> length r \<le> length s"
  by (auto simp: fraction_part_def le_SucI dest: leading_fraction_length split: list.splits if_splits prod.splits)

lemma dropWhile_shorter: "takeWhile P s \<noteq> [] \<Longrightarrow> length (dropWhile P s) < length s"
  by (cases s) (auto simp: le_imp_less_Suc length_dropWhile_le split: if_splits)

lemma one_duration_shorter: "one_duration frac s = Some (w, rest) \<Longrightarrow> length rest < length s"
proof -
  assume one: "one_duration frac s = Some (w, rest)"
  then obtain v s1 where i: "leading_int s 0 = Some (v, s1)"
    by (auto simp: one_duration_def split: if_splits option.splits)
  have l1: "length s1 \<le> length s" by (rule leading_int_length [OF i])
  obtain f scale s2 post where f: "fraction_part s1 = (f, scale, s2, post)" by (rule prod_cases4)
  have l2: "length s2 \<le> length s1" using fraction_part_length [OF f] .
  from one i f have "takeWhile (\<lambda>c. \<not> unit_end c) s2 \<noteq> []" "rest = dropWhile (\<lambda>c. \<not> unit_end c) s2"
    by (auto simp: one_duration_def Let_def split: if_splits option.splits)
  with l1 l2 dropWhile_shorter show ?thesis by fastforce
qed

lemma one_duration_bound: "one_duration frac s = Some (w, rest) \<Longrightarrow> w \<le> two63"
  by (auto simp: one_duration_def Let_def split: if_splits option.splits list.splits prod.splits)

text \<open>The sum is a \<open>uint64\<close>, as in the library.\<close>

function duration_loop :: "(nat \<Rightarrow> nat \<Rightarrow> nat \<Rightarrow> nat) \<Rightarrow> string \<Rightarrow> nat \<Rightarrow> nat option" where
  "duration_loop frac s d =
     (if s = [] then Some d
      else (case one_duration frac s of
              None \<Rightarrow> None
            | Some (w, rest) \<Rightarrow>
                let d' = (d + w) mod 2 ^ 64 in
                if two63 < d' then None else duration_loop frac rest d'))"
  by pat_completeness auto
termination
  by (relation "measure (\<lambda>(frac, s, d). length s)") (auto dest: one_duration_shorter)

declare duration_loop.simps [simp del]

definition parse_duration :: "(nat \<Rightarrow> nat \<Rightarrow> nat \<Rightarrow> nat) \<Rightarrow> string \<Rightarrow> int option" where
  "parse_duration frac s =
     (let (neg, t) =
        (case s of
           c # r \<Rightarrow> if c = CHR ''-'' \<or> c = CHR ''+'' then (c = CHR ''-'', r) else (False, s)
         | [] \<Rightarrow> (False, []))
      in if t = ''0'' then Some 0
         else if t = [] then None
         else (case duration_loop frac t 0 of
                 None \<Rightarrow> None
               | Some d \<Rightarrow>
                   if neg then Some (- int d)
                   else if two63 - 1 < d then None
                   else Some (int d)))"

section \<open>What is read\<close>

lemma duration_loop_bound: "duration_loop frac s d = Some e \<Longrightarrow> d \<le> two63 \<Longrightarrow> e \<le> two63"
proof (induction frac s d rule: duration_loop.induct)
  case (1 frac s d)
  show ?case
  proof (cases "s = []")
    case True
    with 1 show ?thesis by (simp add: duration_loop.simps)
  next
    case False
    with "1.prems"(1) obtain w rest where o: "one_duration frac s = Some (w, rest)"
      by (subst (asm) duration_loop.simps) (auto split: option.splits)
    with False "1.prems"(1) have "\<not> two63 < (d + w) mod 2 ^ 64" "duration_loop frac rest ((d + w) mod 2 ^ 64) = Some e"
      by (subst (asm) (1) duration_loop.simps; auto simp: Let_def split: if_splits)+
    with "1.IH" [OF False o refl refl] show ?thesis by simp
  qed
qed

lemma parse_duration_bounds:
  "parse_duration frac s = Some d \<Longrightarrow> - (2 ^ 63) \<le> d \<and> d < 2 ^ 63"
  using duration_loop_bound [of frac _ 0]
  by (fastforce simp: parse_duration_def two63_def split: if_splits option.splits list.splits prod.splits)

lemma foldl_digits_mono: "y \<le> foldl (\<lambda>v c. 10 * v + digit_val c) y ds"
proof (induction ds arbitrary: y)
  case (Cons c ds)
  from Cons [of "10 * y + digit_val c"] show ?case by simp
qed simp

lemma leading_int_digits:
  "list_all is_digit ds \<Longrightarrow> r = [] \<or> \<not> is_digit (hd r) \<Longrightarrow>
     foldl (\<lambda>v c. 10 * v + digit_val c) x ds \<le> two63 \<Longrightarrow>
     leading_int (ds @ r) x = Some (foldl (\<lambda>v c. 10 * v + digit_val c) x ds, r)"
proof (induction ds arbitrary: x)
  case Nil
  then show ?case by (cases r) auto
next
  case (Cons c ds)
  have "10 * x + digit_val c \<le> two63"
    using foldl_digits_mono [of "10 * x + digit_val c" ds] Cons.prems(3) by simp
  then have "\<not> two63 div 10 < x" by (simp add: two63_def)
  with Cons \<open>10 * x + digit_val c \<le> two63\<close> show ?case by (simp add: Let_def mult.commute)
qed

lemma unit_texts:
  "(u, k) \<in> set duration_units \<Longrightarrow>
     map_of duration_units u = Some k \<and> u \<noteq> [] \<and> list_all (\<lambda>c. \<not> unit_end c) u \<and> 0 < k"
proof -
  assume u: "(u, k) \<in> set duration_units"
  have "distinct (map fst duration_units)" by (simp add: duration_units_def)
  then have "map_of duration_units u = Some k" using u by simp
  moreover have "list_all (\<lambda>c. \<not> unit_end c)
      [CHR ''n'', CHR ''u'', CHR ''s'', CHR ''m'', CHR ''h'', CHR 0xC2, CHR 0xB5, CHR 0xCE, CHR 0xBC]" by code_simp
  then have "u \<noteq> [] \<and> list_all (\<lambda>c. \<not> unit_end c) u \<and> 0 < k"
    using u by (auto simp: duration_units_def)
  ultimately show ?thesis by blast
qed

lemma duration_whole:
  assumes u: "(u, k) \<in> set duration_units" and n: "n * k < 2 ^ 63"
  shows "parse_duration frac (itoa n @ u) = Some (int (n * k)) \<and>
    parse_duration frac (CHR ''-'' # itoa n @ u) = Some (- int (n * k))"
proof -
  note t = unit_texts [OF u]
  have le: "n * k \<le> two63" using n by (simp add: two63_def)
  then have nk: "\<not> two63 div k < n" using t by (simp add: less_eq_div_iff_mult_less_eq not_less)
  from t n have nn: "n \<le> two63" by (cases k) (auto simp: two63_def)
  have digits: "list_all is_digit (itoa n)" by (auto simp: list_all_iff dest: itoa_digits)
  obtain c u' where cu: "u = c # u'" "\<not> unit_end c" using t by (cases u) auto
  have li: "leading_int (itoa n @ u) 0 = Some (n, u)"
    using leading_int_digits [OF digits, of u 0] cu nn by (simp add: digits_val_def [symmetric] unit_end_def)
  have fp: "fraction_part u = (0, 1, u, False)" using cu by (auto simp: fraction_part_def unit_end_def)
  obtain d ds where ds: "itoa n = d # ds" using itoa_not_Nil [of n] by (cases "itoa n") auto
  then have d: "is_digit d" using digits by simp
  have all: "takeWhile (\<lambda>c. \<not> unit_end c) u = u" "dropWhile (\<lambda>c. \<not> unit_end c) u = []"
    using t by (simp_all add: takeWhile_eq_all_conv list_all_iff)
  have one: "one_duration frac (itoa n @ u) = Some (n * k, [])"
  proof -
    have "itoa n @ u \<noteq> []" "unit_end (hd (itoa n @ u))" "length u \<noteq> length (itoa n @ u)"
      using ds d by (simp_all add: unit_end_def)
    then show ?thesis using li fp t nk le by (simp add: one_duration_def Let_def all)
  qed
  have "(n * k) mod 2 ^ 64 = n * k" using n by simp
  then have loop: "duration_loop frac (itoa n @ u) 0 = Some (n * k)"
    using one le ds by (subst duration_loop.simps) (simp add: Let_def duration_loop.simps)
  have "itoa n @ u \<noteq> ''0''" "u \<noteq> []" using cu ds itoa_not_Nil [of n] by (cases ds; simp)+
  moreover have "d \<noteq> CHR ''-''" "d \<noteq> CHR ''+''" using d by (auto simp: is_digit_def)
  moreover have "\<not> two63 - 1 < n * k" using n by (simp add: two63_def)
  ultimately show ?thesis
    using loop ds by (simp add: parse_duration_def)
qed

text \<open>
  A duration that is read fits an \<^verbatim>\<open>int64\<close>, whatever the text; and a whole number with one of the
  units reads as that many of it, with a minus sign as its negation.
\<close>

theorem duration_reads:
  assumes u: "(u, k) \<in> set duration_units" and n: "n * k < 2 ^ 63"
  shows "parse_duration frac (itoa n @ u) = Some (int (n * k)) \<and>
    parse_duration frac (CHR ''-'' # itoa n @ u) = Some (- int (n * k)) \<and>
    (\<forall>s d. parse_duration frac s = Some d \<longrightarrow> - (2 ^ 63) \<le> d \<and> d < 2 ^ 63)"
  using duration_whole [OF u n] parse_duration_bounds [of frac] by blast

theorem duration_reads_witness: "parse_duration (\<lambda>_ _ _. 0) ''-15s'' = Some (-15000000000)"
proof -
  have "itoa 15 = ''15''" by code_simp
  with duration_reads [of "''s''" 1000000000 15 "\<lambda>_ _ _. 0"] show ?thesis
    by (simp add: duration_units_def)
qed

end
