(* ===== verification/Tip_Schema.thy ===== *)
theory Tip_Schema
  imports Tip_Url Tip_Duration "HOL-Library.AList"
begin

text \<open>
  The vocabulary of the directives (\<^verbatim>\<open>internal/directive/schema.go\<close>): the enumerations, the
  names and how they are registered, and the checks and coercions the schema attaches to each
  field. The validation library (zog) that runs the schema is not part of the repository;
  what it does with these checks is an argument of \<^theory_text>\<open>Tip_Parse\<close>.
\<close>

section \<open>Enumerations\<close>

record enum =
  e_official :: "string list"
  e_lower :: "string list"

definition new_enum :: "string list \<Rightarrow> enum" where
  "new_enum official = \<lparr>e_official = official, e_lower = map to_lower official\<rparr>"

definition enum_message :: "enum \<Rightarrow> string" where
  "enum_message e = ''must be one of '' @ join '', '' (e_official e)"

definition lowercase :: "string \<Rightarrow> string" where
  "lowercase s = to_lower (trim_space s)"

text \<open>The transform and the test of \<^verbatim>\<open>enum.schema\<close>: the stored value, and whether it is accepted.\<close>

definition enum_value :: "enum \<Rightarrow> string \<Rightarrow> string option" where
  "enum_value e s = (if lowercase s \<in> set (e_lower e) then Some (lowercase s) else None)"

definition browsers :: enum where
  "browsers = new_enum [''Chrome'', ''Firefox'', ''Edge'', ''Random'']"

definition oses :: enum where
  "oses = new_enum [''Windows'', ''MacOS'', ''Linux'', ''Android'', ''IOS'', ''Random'']"

definition concrete_os :: "string list" where
  "concrete_os = take 5 (e_lower oses)"

definition ja_presets :: enum where
  "ja_presets = new_enum
     [''Android'', ''Chrome'', ''Chrome58'', ''Chrome62'', ''Chrome70'', ''Chrome72'', ''Chrome83'',
      ''Chrome87'', ''Chrome96'', ''Chrome100'', ''Chrome102'', ''Chrome106'', ''Chrome120'',
      ''Chrome120PQ'', ''Chrome152'', ''Edge'', ''Edge85'', ''Edge106'', ''Firefox'', ''Firefox55'',
      ''Firefox56'', ''Firefox63'', ''Firefox65'', ''Firefox99'', ''Firefox102'', ''Firefox105'',
      ''Firefox120'', ''Firefox148'', ''IOS'', ''IOS11'', ''IOS12'', ''IOS13'', ''IOS14'',
      ''Randomized'', ''RandomizedALPN'', ''RandomizedNoALPN'', ''Safari'']"

definition dot_providers :: enum where
  "dot_providers = new_enum
     [''AdGuard'', ''Google'', ''Cloudflare'', ''Quad9'', ''Switch'', ''CIRAShield'', ''Ali'',
      ''Quad101'', ''SB'', ''Forge'', ''LibreDNS'']"

definition proxy_schemes :: "string list" where
  "proxy_schemes = [''http'', ''https'', ''socks4'', ''socks4a'', ''socks5'', ''socks5h'']"

definition scheme_enum :: enum where
  "scheme_enum = new_enum [''https'']"

section \<open>Field checks\<close>

text \<open>The pattern \<^verbatim>\<open>^[0-9a-f]{12}$\<close>.\<close>

definition is_hex_lower :: "char \<Rightarrow> bool" where
  "is_hex_lower c = (is_digit c \<or> c \<in> set ''abcdef'')"

definition profile_id :: "string \<Rightarrow> bool" where
  "profile_id s = (length s = 12 \<and> list_all is_hex_lower s)"

text \<open>
  A directive's raw value, as \<^verbatim>\<open>shapeValue\<close> makes it: a string, a list, or key-value pairs
  with the order they were written in. The coercers assert a string and get \<^verbatim>\<open>""\<close> otherwise.
\<close>

datatype val =
    VStr string
  | VList "string list"
  | VPairs "(string \<times> string) list" "string list"

fun val_string :: "val \<Rightarrow> string" where
  "val_string (VStr s) = s"
| "val_string _ = []"

definition uint32s :: "val \<Rightarrow> (string, u32) result" where
  "uint32s v =
     (case parse_uint 32 (trim_space (val_string v)) of
        None \<Rightarrow> Inl ''must be an unsigned 32-bit integer''
      | Some n \<Rightarrow> Inr (word_of_nat n))"

definition uint64s :: "val \<Rightarrow> (string, u64) result" where
  "uint64s v =
     (case parse_uint 64 (trim_space (val_string v)) of
        None \<Rightarrow> Inl ''must be an unsigned 64-bit integer''
      | Some n \<Rightarrow> Inr (word_of_nat n))"

definition boolean :: "val \<Rightarrow> (string, bool) result" where
  "boolean v =
     (case parse_bool (trim_space (val_string v)) of
        None \<Rightarrow> Inl ''must be true or false''
      | Some b \<Rightarrow> Inr b)"

text \<open>\<open>frac\<close> is the floating-point product of \<^theory_text>\<open>Tip_Duration\<close>.\<close>

definition duration :: "(nat \<Rightarrow> nat \<Rightarrow> nat \<Rightarrow> nat) \<Rightarrow> val \<Rightarrow> (string, int) result" where
  "duration frac v =
     (case parse_duration frac (trim_space (val_string v)) of
        None \<Rightarrow> Inl ''must be a duration such as 15s or 500ms''
      | Some d \<Rightarrow> Inr d)"

definition host_port :: "string \<Rightarrow> bool" where
  "host_port s = (split_host_port s \<noteq> None)"

definition proxy_url :: "url_parser \<Rightarrow> string \<Rightarrow> bool" where
  "proxy_url url_parse s =
     (case url_parse s of
        None \<Rightarrow> False
      | Some u \<Rightarrow> u_host u \<noteq> [] \<and> to_lower (u_scheme u) \<in> set proxy_schemes)"

text \<open>The transform after the test; \<open>url_string\<close> is \<^verbatim>\<open>URL.String\<close>.\<close>

definition proxy_url_value :: "url_parser \<Rightarrow> (url \<Rightarrow> string) \<Rightarrow> string \<Rightarrow> string" where
  "proxy_url_value url_parse url_string s =
     (case url_parse s of
        None \<Rightarrow> s
      | Some u \<Rightarrow> url_string (u\<lparr>u_scheme := to_lower (u_scheme u), u_host := to_lower (u_host u)\<rparr>))"

definition dns_over_tls_ok :: "string \<Rightarrow> bool" where
  "dns_over_tls_ok s =
     (case cut CHR ''@'' s of
        (name, addrs, custom) \<Rightarrow>
          if \<not> custom then to_lower name \<in> set (e_lower dot_providers)
          else if name = [] then False
          else list_all (\<lambda>addr. split_host_port (trim_space addr) \<noteq> None) (split_on CHR '','' addrs))"

lemma uint32s_Inr: "uint32s (VStr s) = Inr w \<Longrightarrow> parse_uint 32 (trim_space s) = Some (unat w)"
  by (auto simp: uint32s_def unat_of_nat dest: parse_uint_bound split: option.splits)

lemma uint64s_Inr: "uint64s (VStr s) = Inr w \<Longrightarrow> parse_uint 64 (trim_space s) = Some (unat w)"
  by (auto simp: uint64s_def unat_of_nat dest: parse_uint_bound split: option.splits)

section \<open>Names\<close>

text \<open>\<^verbatim>\<open>register\<close> adds the names to the table of official spellings and returns the set of keys.\<close>

fun register :: "string list \<Rightarrow> (string \<times> string) list \<Rightarrow> string list \<times> (string \<times> string) list" where
  "register [] off = ([], off)"
| "register (name # names) off =
     (let key = to_lower name; (rest, off') = register names (AList.update key name off)
      in (key # rest, off'))"

definition directive_names :: "string list" where
  "directive_names =
     [''Browser'', ''Os'', ''Ja'', ''Http2Settings'', ''Http3Settings'', ''ForceHttp'', ''Proxy'',
      ''Timeout'', ''Dns'', ''DnsOverTls'', ''InterfaceAddr'', ''SecureTls'', ''DisableKeepAlive'',
      ''H2c'', ''Scheme'', ''Keep'', ''Match'', ''Profile'']"

definition http2_names :: "string list" where
  "http2_names =
     [''HeaderTableSize'', ''EnablePush'', ''MaxConcurrentStreams'', ''InitialWindowSize'',
      ''MaxFrameSize'', ''MaxHeaderListSize'', ''NoRFC7540Priorities'', ''ConnectionFlow'',
      ''InitialStreamID'']"

definition http3_names :: "string list" where
  "http3_names =
     [''QpackMaxTableCapacity'', ''MaxFieldSectionSize'', ''QpackBlockedStreams'',
      ''EnableConnectProtocol'', ''SettingsH3Datagram'', ''H3Datagram'', ''EnableWebtransport'',
      ''Grease'']"

text \<open>The package's \<^verbatim>\<open>init\<close>: the known directives, the keys of the two settings, the spellings.\<close>

definition registered ::
  "string list \<times> string list \<times> string list \<times> (string \<times> string) list" where
  "registered =
     (let (known, off1) = register directive_names [];
          (kv2, off2) = register http2_names off1;
          (kv3, off3) = register http3_names off2
      in (known, kv2, kv3, off3))"

definition known :: "string list" where
  "known = fst registered"

definition kv_keys :: "string \<Rightarrow> string list" where
  "kv_keys key =
     (if key = ''http2settings'' then fst (snd registered)
      else if key = ''http3settings'' then fst (snd (snd registered)) else [])"

definition official :: "(string \<times> string) list" where
  "official = snd (snd (snd registered))"

definition is_known :: "string \<Rightarrow> bool" where
  "is_known key = (key \<in> set known)"

definition official_name :: "string \<Rightarrow> string" where
  "official_name key = (case map_of official key of Some name \<Rightarrow> name | None \<Rightarrow> key)"

definition names :: "string list" where
  "names = sort (map (\<lambda>key. the (map_of official key)) known)"

lemma register_keys: "fst (register ns off) = map to_lower ns"
  by (induction ns arbitrary: off) (auto simp: Let_def split: prod.splits, metis fst_conv)

lemma register_official:
  "map_of (snd (register ns off)) =
     map_of off ++ map_of (rev (map (\<lambda>n. (to_lower n, n)) ns))"
proof (induction ns arbitrary: off)
  case (Cons n ns)
  show ?case
    by (simp add: Let_def Cons.IH split_beta update_conv' map_add_def fun_eq_iff
        split: option.splits)
qed simp

lemma known_eq: "known = map to_lower directive_names"
  by (simp add: known_def registered_def Let_def split_beta register_keys)

lemma kv_keys_eq:
  "kv_keys ''http2settings'' = map to_lower http2_names"
  "kv_keys ''http3settings'' = map to_lower http3_names"
  by (simp_all add: kv_keys_def registered_def Let_def split_beta register_keys)

section \<open>Shapes\<close>

text \<open>
  The schemas the code attaches to the fields, by name. A string schema trims and then tests; \<open>DList\<close> tests
  every element; \<open>DStruct\<close> is a pointer to a nested shape, absent when the input has no such key.
\<close>

datatype dfield =
    DUint32 | DUint64 | DBool | DPositive | DStrings
  | DEnum enum
  | DOneOf "string list"
  | DProxyUrl | DHostPort | DDnsOverTls | DNonEmpty | DProfile | DHeaderName
  | DList dfield
  | DStruct "(string \<times> dfield) list"

definition h2_shape :: "(string \<times> dfield) list" where
  "h2_shape =
     [(''headerTableSize'', DUint32), (''enablePush'', DUint32), (''maxConcurrentStreams'', DUint32),
      (''initialWindowSize'', DUint32), (''maxFrameSize'', DUint32), (''maxHeaderListSize'', DUint32),
      (''noRFC7540Priorities'', DUint32), (''connectionFlow'', DUint32), (''initialStreamID'', DUint32)]"

definition h3_shape :: "(string \<times> dfield) list" where
  "h3_shape =
     [(''qpackMaxTableCapacity'', DUint64), (''maxFieldSectionSize'', DUint64), (''qpackBlockedStreams'', DUint64),
      (''enableConnectProtocol'', DUint64), (''settingsH3Datagram'', DUint64), (''h3Datagram'', DUint64),
      (''enableWebtransport'', DUint64), (''grease'', DBool), (''order'', DStrings)]"

definition shape :: "(string \<times> dfield) list" where
  "shape =
     [(''browser'', DList (DEnum browsers)), (''os'', DList (DEnum oses)), (''ja'', DEnum ja_presets),
      (''http2Settings'', DStruct h2_shape), (''http3Settings'', DStruct h3_shape),
      (''forceHttp'', DOneOf [''1'', ''2'', ''3'']), (''proxy'', DProxyUrl), (''timeout'', DPositive),
      (''dns'', DHostPort), (''dnsOverTls'', DDnsOverTls), (''interfaceAddr'', DNonEmpty), (''secureTls'', DBool),
      (''disableKeepAlive'', DBool), (''h2c'', DBool), (''scheme'', DEnum scheme_enum),
      (''keep'', DList DHeaderName), (''match'', DBool), (''profile'', DProfile)]"

text \<open>What a field's schema accepts of a shaped value.\<close>

fun leaf_ok :: "(nat \<Rightarrow> nat \<Rightarrow> nat \<Rightarrow> nat) \<Rightarrow> url_parser \<Rightarrow> dfield \<Rightarrow> string \<Rightarrow> bool" where
  "leaf_ok frac up DUint32 s = (\<not> is_err (uint32s (VStr s)))"
| "leaf_ok frac up DUint64 s = (\<not> is_err (uint64s (VStr s)))"
| "leaf_ok frac up DBool s = (\<not> is_err (boolean (VStr s)))"
| "leaf_ok frac up DPositive s = (case duration frac (VStr s) of Inl e \<Rightarrow> False | Inr d \<Rightarrow> 0 < d)"
| "leaf_ok frac up (DEnum e) s = (enum_value e s \<noteq> None)"
| "leaf_ok frac up (DOneOf xs) s = (trim_space s \<in> set xs)"
| "leaf_ok frac up DProxyUrl s = proxy_url up (trim_space s)"
| "leaf_ok frac up DHostPort s = host_port (trim_space s)"
| "leaf_ok frac up DDnsOverTls s = dns_over_tls_ok (trim_space s)"
| "leaf_ok frac up DNonEmpty s = (trim_space s \<noteq> [])"
| "leaf_ok frac up DProfile s = profile_id (lowercase s)"
| "leaf_ok frac up DHeaderName s = (lowercase s \<noteq> [])"
| "leaf_ok frac up _ s = True"

fun field_ok :: "(nat \<Rightarrow> nat \<Rightarrow> nat \<Rightarrow> nat) \<Rightarrow> url_parser \<Rightarrow> dfield \<Rightarrow> val \<Rightarrow> bool" where
  "field_ok frac up (DList f) v = (case v of VList xs \<Rightarrow> list_all (leaf_ok frac up f) xs | _ \<Rightarrow> False)"
| "field_ok frac up (DStruct fs) v =
     (case v of
        VPairs kvs order \<Rightarrow>
          list_all (\<lambda>(name, f). case map_of kvs (to_lower name) of None \<Rightarrow> True | Some s \<Rightarrow> leaf_ok frac up f s) fs
      | _ \<Rightarrow> False)"
| "field_ok frac up f v = (case v of VStr s \<Rightarrow> leaf_ok frac up f s | _ \<Rightarrow> False)"

definition field_of :: "string \<Rightarrow> dfield option" where
  "field_of key = map_of (map (\<lambda>(name, f). (to_lower name, f)) shape) key"

lemma lower_names_distinct:
  "distinct (map to_lower (directive_names @ http2_names @ http3_names))"
  "distinct (map to_lower directive_names)"
proof -
  have "map to_lower directive_names =
      [''browser'', ''os'', ''ja'', ''http2settings'', ''http3settings'', ''forcehttp'', ''proxy'', ''timeout'',
       ''dns'', ''dnsovertls'', ''interfaceaddr'', ''securetls'', ''disablekeepalive'', ''h2c'', ''scheme'',
       ''keep'', ''match'', ''profile'']"
    "map to_lower http2_names =
      [''headertablesize'', ''enablepush'', ''maxconcurrentstreams'', ''initialwindowsize'', ''maxframesize'',
       ''maxheaderlistsize'', ''norfc7540priorities'', ''connectionflow'', ''initialstreamid'']"
    "map to_lower http3_names =
      [''qpackmaxtablecapacity'', ''maxfieldsectionsize'', ''qpackblockedstreams'', ''enableconnectprotocol'',
       ''settingsh3datagram'', ''h3datagram'', ''enablewebtransport'', ''grease'']"
    by code_simp+
  then show "distinct (map to_lower (directive_names @ http2_names @ http3_names))"
    "distinct (map to_lower directive_names)" by simp_all
qed

lemma shape_names:
  "map fst shape =
     [''browser'', ''os'', ''ja'', ''http2Settings'', ''http3Settings'', ''forceHttp'', ''proxy'', ''timeout'', ''dns'',
      ''dnsOverTls'', ''interfaceAddr'', ''secureTls'', ''disableKeepAlive'', ''h2c'', ''scheme'', ''keep'', ''match'',
      ''profile'']"
  by (simp add: shape_def)

lemma official_names_ok:
  assumes "name \<in> set (directive_names @ http2_names @ http3_names)"
  shows "official_name (to_lower name) = name"
proof -
  let ?ns = "directive_names @ http2_names @ http3_names"
  have "map_of official = map_of (rev (map (\<lambda>n. (to_lower n, n)) ?ns))"
    by (simp only: official_def registered_def Let_def split_beta fst_conv snd_conv register_official
        map_append rev_append map_of_append map_of.simps(1) empty_map_add map_add_assoc append_assoc)
  moreover have "distinct (map fst (rev (map (\<lambda>n. (to_lower n, n)) ?ns)))"
    using lower_names_distinct(1) by (simp only: rev_map [symmetric] distinct_rev map_map comp_def fst_conv)
  moreover have "(to_lower name, name) \<in> set (rev (map (\<lambda>n. (to_lower n, n)) ?ns))"
    unfolding set_rev set_map by (rule image_eqI [OF refl assms])
  ultimately have "map_of official (to_lower name) = Some name" by (simp only: map_of_is_SomeI)
  then show ?thesis by (simp add: official_name_def)
qed

lemma schema_keys: "map (to_lower \<circ> fst) shape = map to_lower directive_names"
proof -
  have "map to_lower (map fst shape) = map to_lower directive_names" unfolding shape_names by code_simp
  then show ?thesis by simp
qed

text \<open>
  The schema and the names it is registered under agree: the known directives are exactly the fields of
  the schema, the keys of the two settings are exactly the fields of their shapes (the order of the
  HTTP/3 settings, which parsing adds, apart), and every official spelling is found under its key.
\<close>

theorem schema_covers_names:
  "set known = (to_lower \<circ> fst) ` set shape \<and> distinct known \<and>
   set (kv_keys ''http2settings'') = (to_lower \<circ> fst) ` set h2_shape \<and>
   insert ''order'' (set (kv_keys ''http3settings'')) = (to_lower \<circ> fst) ` set h3_shape \<and>
   list_all (\<lambda>name. official_name (to_lower name) = name) (directive_names @ http2_names @ http3_names)"
proof -
  note schema_keys [THEN arg_cong [where f = set]]
  moreover have "map to_lower http2_names = map (to_lower \<circ> fst) h2_shape"
    "map to_lower http3_names @ [''order''] = map (to_lower \<circ> fst) h3_shape" by code_simp+
  note this [THEN arg_cong [where f = set]]
  ultimately show ?thesis
    using lower_names_distinct official_names_ok by (simp add: known_eq kv_keys_eq list_all_iff)
qed

end
