(* ===== verification/Tip_Routes.thy ===== *)
theory Tip_Routes
  imports Tip_Schema
begin

text \<open>
  The matcher that names a route for a host and a path (\<^verbatim>\<open>internal/metrics/routes.go\<close>): how configured
  routes compile, which one a request fits, and what its parameters bind.
\<close>

section \<open>Routes\<close>

record route =
  ro_name :: string
  ro_host :: string
  ro_path :: string
  ro_capture :: "string list"

record compiled =
  cm_name :: string
  cm_host :: string
  cm_segments :: "string list"
  cm_capture :: "string set"

record matcher =
  ma_routes :: "compiled list"
  ma_captures :: "string list"

datatype route_error = StarNotLast string | NotAParameter string string string

definition segments_of :: "string \<Rightarrow> string list" where
  "segments_of path = split_on CHR ''/'' (trim_prefix ''/'' path)"

text \<open>The parameters of a route, or \<open>None\<close> for a star that is not the last segment.\<close>

fun route_params :: "string list \<Rightarrow> string list \<Rightarrow> string list option" where
  "route_params [] params = Some params"
| "route_params (s # ss) params =
     (if s = ''*'' \<and> ss \<noteq> [] then None
      else (case cut CHR '':'' s of
              (_, name, found) \<Rightarrow> route_params ss (if found then name # params else params)))"

fun add_captures ::
  "string list \<Rightarrow> string list \<Rightarrow> string set \<times> string list \<Rightarrow> (string, string set \<times> string list) result" where
  "add_captures params [] acc = Inr acc"
| "add_captures params (name # ns) (capture, seen) =
     (if name \<notin> set params then Inl name
      else add_captures params ns
        (insert name capture, if name \<in> set seen then seen else seen @ [name]))"

fun compile_routes :: "route list \<Rightarrow> matcher \<Rightarrow> (route_error, matcher) result" where
  "compile_routes [] m = Inr (m\<lparr>ma_captures := sort (ma_captures m)\<rparr>)"
| "compile_routes (r # rs) m =
     (let ss = segments_of (ro_path r) in
      case route_params ss [] of
        None \<Rightarrow> Inl (StarNotLast (ro_name r))
      | Some params \<Rightarrow>
          (case add_captures params (ro_capture r) ({}, ma_captures m) of
             Inl name \<Rightarrow> Inl (NotAParameter (ro_name r) name (ro_path r))
           | Inr (capture, seen) \<Rightarrow>
               compile_routes rs
                 (m\<lparr>ma_captures := seen,
                    ma_routes := ma_routes m @
                      [\<lparr>cm_name = ro_name r, cm_host = to_lower (ro_host r), cm_segments = ss,
                        cm_capture = capture\<rparr>]\<rparr>)))"

definition new_matcher :: "route list \<Rightarrow> (route_error, matcher) result" where
  "new_matcher rs = compile_routes rs \<lparr>ma_routes = [], ma_captures = []\<rparr>"

definition match_host :: "string \<Rightarrow> string \<Rightarrow> bool" where
  "match_host pattern host =
     (case cut_prefix ''*.'' pattern of
        Some dom_name \<Rightarrow> has_suffix (CHR ''.'' # dom_name) host
      | None \<Rightarrow> pattern = host)"

type_synonym labels = "string \<rightharpoonup> string"

fun match_path :: "string set \<Rightarrow> string list \<Rightarrow> string list \<Rightarrow> labels \<Rightarrow> labels option" where
  "match_path capture [] segs found = (if segs = [] then Some found else None)"
| "match_path capture (p # ps) segs found =
     (if p = ''*'' then Some found
      else (case segs of
              [] \<Rightarrow> None
            | s # ss \<Rightarrow>
                if s = [] then None
                else (case cut CHR '':'' p of
                        (pre, name, True) \<Rightarrow>
                          (case cut_prefix pre s of
                             None \<Rightarrow> None
                           | Some v \<Rightarrow>
                               if v = [] then None
                               else match_path capture ps ss
                                      (if name \<in> capture then found(name \<mapsto> v) else found))
                      | (_, _, False) \<Rightarrow>
                          if p \<noteq> s then None else match_path capture ps ss found)))"

fun match_routes :: "compiled list \<Rightarrow> string \<Rightarrow> string list \<Rightarrow> string \<times> labels" where
  "match_routes [] host segs = ([], Map.empty)"
| "match_routes (r # rs) host segs =
     (if \<not> match_host (cm_host r) host then match_routes rs host segs
      else (case match_path (cm_capture r) (cm_segments r) segs Map.empty of
              Some found \<Rightarrow> (cm_name r, found)
            | None \<Rightarrow> match_routes rs host segs))"

definition match_route :: "matcher \<Rightarrow> string \<Rightarrow> string \<Rightarrow> string \<times> labels" where
  "match_route m host path = match_routes (ma_routes m) (to_lower host) (segments_of path)"

section \<open>What a route matches\<close>

text \<open>
  A pattern segment and a path segment: a parameter is a prefix with a value after it. \<open>bound\<close> is
  what it binds.
\<close>

definition fits :: "string \<Rightarrow> string \<Rightarrow> bool" where
  "fits p s =
     (s \<noteq> [] \<and>
      (case cut CHR '':'' p of
         (pre, name, True) \<Rightarrow> (\<exists>v. v \<noteq> [] \<and> s = pre @ v)
       | (_, _, False) \<Rightarrow> p = s))"

definition bind_segment :: "string set \<Rightarrow> string \<times> string \<Rightarrow> labels \<Rightarrow> labels" where
  "bind_segment capture ps found =
     (case cut CHR '':'' (fst ps) of
        (pre, name, True) \<Rightarrow>
          if name \<in> capture then found(name \<mapsto> drop (length pre) (snd ps)) else found
      | (_, _, False) \<Rightarrow> found)"

definition path_fits :: "string list \<Rightarrow> string list \<Rightarrow> bool" where
  "path_fits ps segs =
     (let fixed = takeWhile (\<lambda>p. p \<noteq> ''*'') ps in
      list_all2 fits fixed (take (length fixed) segs) \<and>
      (''*'' \<in> set ps \<or> length segs = length fixed))"

lemma cut_prefix_some: "cut_prefix pre s = Some v \<longleftrightarrow> s = pre @ v"
  by (auto simp: cut_prefix_def has_prefix_iff)

lemma path_fits_simps:
  "path_fits [] segs \<longleftrightarrow> segs = []" "path_fits (''*'' # ps) segs"
  "p \<noteq> ''*'' \<Longrightarrow> \<not> path_fits (p # ps) []"
  "p \<noteq> ''*'' \<Longrightarrow> path_fits (p # ps) (s # ss) \<longleftrightarrow> fits p s \<and> path_fits ps ss"
  by (auto simp: path_fits_def Let_def)

definition bound_labels :: "string set \<Rightarrow> string list \<Rightarrow> string list \<Rightarrow> labels \<Rightarrow> labels" where
  "bound_labels capture ps segs found =
     fold (bind_segment capture) (zip (takeWhile (\<lambda>p. p \<noteq> ''*'') ps) segs) found"

lemma match_path_spec:
  "match_path capture ps segs found =
     (if path_fits ps segs then Some (bound_labels capture ps segs found) else None)"
proof (induction capture ps segs found rule: match_path.induct)
  case (1 capture segs found)
  then show ?case by (simp add: path_fits_simps bound_labels_def)
next
  case (2 capture p ps segs found)
  show ?case
  proof (cases "p = ''*''")
    case True
    then show ?thesis by (simp add: path_fits_simps(2) bound_labels_def)
  next
    case star: False
    show ?thesis
    proof (cases segs)
      case Nil
      with star show ?thesis by (simp add: path_fits_simps(3))
    next
      case (Cons s ss)
      obtain pre name param where c: "cut CHR '':'' p = (pre, name, param)" using prod_cases3 by blast
      show ?thesis
      proof (cases param)
        case False
        with c star Cons show ?thesis
          using "2.IH"(2) [OF star Cons _ c [symmetric]]
          by (auto simp: path_fits_simps(4) fits_def bound_labels_def bind_segment_def)
      next
        case True
        note IH = "2.IH"(1) [OF star Cons _ c [symmetric]]
        show ?thesis
        proof (cases "cut_prefix pre s")
          case None
          with True c star Cons show ?thesis
            using cut_prefix_some [of pre s] by (auto simp: path_fits_simps(4) fits_def)
        next
          case (Some v)
          then have s: "s = pre @ v" by (simp add: cut_prefix_some)
          with Some True c star Cons IH show ?thesis
            by (auto simp: path_fits_simps(4) fits_def bound_labels_def bind_segment_def)
        qed
      qed
    qed
  qed
qed

lemma match_routes_first:
  "match_routes rs host segs =
     (case find (\<lambda>r. match_host (cm_host r) host \<and> path_fits (cm_segments r) segs) rs of
        None \<Rightarrow> ([], Map.empty)
      | Some r \<Rightarrow> (cm_name r, bound_labels (cm_capture r) (cm_segments r) segs Map.empty))"
  by (induction rs) (auto simp: match_path_spec split: option.splits)

lemma match_host_forms:
  "match_host pattern host \<longleftrightarrow>
     (if \<exists>d. pattern = ''*.'' @ d then \<exists>sub. host = sub @ tl pattern else host = pattern)"
proof (cases "cut_prefix ''*.'' pattern")
  case None
  then have "\<nexists>d. pattern = ''*.'' @ d" by (metis cut_prefix_some option.distinct(1))
  with None show ?thesis by (auto simp: match_host_def)
next
  case (Some d)
  then have "pattern = ''*.'' @ d" by (simp add: cut_prefix_some)
  with Some show ?thesis by (auto simp: match_host_def has_suffix_iff)
qed

text \<open>What a configured route becomes, and when a list of routes compiles.\<close>

definition compile_route :: "route \<Rightarrow> compiled" where
  "compile_route r =
     \<lparr>cm_name = ro_name r, cm_host = to_lower (ro_host r), cm_segments = segments_of (ro_path r),
      cm_capture = set (ro_capture r)\<rparr>"

definition params_of :: "string list \<Rightarrow> string set" where
  "params_of ss = {name. \<exists>s \<in> set ss. \<exists>pre. cut CHR '':'' s = (pre, name, True)}"

definition route_ok :: "route \<Rightarrow> bool" where
  "route_ok r =
     (''*'' \<notin> set (butlast (segments_of (ro_path r))) \<and>
      set (ro_capture r) \<subseteq> params_of (segments_of (ro_path r)))"

lemma route_params_spec:
  "route_params ss params =
     (if ''*'' \<in> set (butlast ss) then None
      else Some (rev [name. (pre, name, found) \<leftarrow> map (cut CHR '':'') ss, found] @ params))"
  by (induction ss params rule: route_params.induct) (auto split: prod.splits)

lemma route_params_Some:
  assumes "route_params ss [] = Some ps"
  shows "set ps = params_of ss"
proof -
  have "set [name. (pre, name, found) \<leftarrow> map f ss, found] =
      {name. \<exists>s \<in> set ss. \<exists>pre. f s = (pre, name, True)}" for f :: "string \<Rightarrow> string \<times> string \<times> bool"
    by (induction ss) (auto split: prod.splits, metis)
  moreover from assms have "ps = rev [name. (pre, name, found) \<leftarrow> map (cut CHR '':'') ss, found]"
    by (simp add: route_params_spec split: if_splits)
  ultimately show ?thesis unfolding params_of_def by (simp only: set_rev)
qed

lemma add_captures_spec:
  "add_captures params ns (cap, seen) = Inr (cap', seen') \<Longrightarrow>
     set ns \<subseteq> set params \<and> cap' = cap \<union> set ns \<and> set seen' = set seen \<union> set ns \<and>
     (distinct seen \<longrightarrow> distinct seen')"
proof (induction ns arbitrary: cap seen)
  case (Cons n ns)
  then have n: "n \<in> set params"
    and rest: "add_captures params ns (insert n cap, if n \<in> set seen then seen else seen @ [n]) = Inr (cap', seen')"
    by (auto split: if_splits)
  from Cons.IH [OF rest] n show ?case by (auto split: if_splits)
qed auto

lemma add_captures_total: "(\<exists>acc'. add_captures params ns acc = Inr acc') \<longleftrightarrow> set ns \<subseteq> set params"
proof (induction ns arbitrary: acc)
  case (Cons n ns)
  show ?case using Cons.IH by (cases acc) (cases "n \<in> set params"; simp)
qed simp

lemma compile_routes_spec:
  assumes "compile_routes rs m0 = Inr m"
  shows "list_all route_ok rs \<and> ma_routes m = ma_routes m0 @ map compile_route rs \<and>
    sorted (ma_captures m) \<and> set (ma_captures m) = set (ma_captures m0) \<union> \<Union> (set ` ro_capture ` set rs) \<and>
    (distinct (ma_captures m0) \<longrightarrow> distinct (ma_captures m))"
  using assms
proof (induction rs arbitrary: m0)
  case (Cons r rs)
  from Cons.prems obtain ps cap seen where
    ps: "route_params (segments_of (ro_path r)) [] = Some ps"
    and c: "add_captures ps (ro_capture r) ({}, ma_captures m0) = Inr (cap, seen)"
    and rest: "compile_routes rs (m0\<lparr>ma_captures := seen, ma_routes := ma_routes m0 @
        [\<lparr>cm_name = ro_name r, cm_host = to_lower (ro_host r), cm_segments = segments_of (ro_path r),
          cm_capture = cap\<rparr>]\<rparr>) = Inr m"
    by (auto simp: Let_def split: option.splits sum.splits)
  from ps have "''*'' \<notin> set (butlast (segments_of (ro_path r)))"
    by (auto simp: route_params_spec split: if_splits)
  moreover have "compile_route r =
      \<lparr>cm_name = ro_name r, cm_host = to_lower (ro_host r), cm_segments = segments_of (ro_path r), cm_capture = cap\<rparr>"
    using add_captures_spec [OF c] by (simp add: compile_route_def)
  ultimately show ?case
    using Cons.IH [OF rest] add_captures_spec [OF c] route_params_Some [OF ps]
    by (auto simp: route_ok_def)
qed auto

lemma compile_routes_total: "(\<exists>m. compile_routes rs m0 = Inr m) \<longleftrightarrow> list_all route_ok rs"
proof (induction rs arbitrary: m0)
  case (Cons r rs)
  show ?case
  proof (cases "route_params (segments_of (ro_path r)) []")
    case None
    then show ?thesis by (auto simp: Let_def route_params_spec route_ok_def split: if_splits)
  next
    case (Some ps)
    then have star: "''*'' \<notin> set (butlast (segments_of (ro_path r)))"
      by (auto simp: route_params_spec split: if_splits)
    show ?thesis
      using Cons.IH add_captures_total [of ps "ro_capture r" "({}, ma_captures m0)"] Some star
        route_params_Some [OF Some]
      by (auto simp: Let_def route_ok_def split: sum.splits)
  qed
qed simp

lemma new_matcher_total: "(\<exists>m. new_matcher rs = Inr m) \<longleftrightarrow> list_all route_ok rs"
  by (simp add: new_matcher_def compile_routes_total)

lemma find_compiled: "find P (map f xs) = map_option f (find (\<lambda>x. P (f x)) xs)"
  by (induction xs) auto

text \<open>
  C33. The route of a request is the first configured one whose host pattern and path pattern it fits: a
  host equal but for case, or below the domain after a leading star, and segments that fit one by one, as
  many as the pattern has, or at least as many as stand before a star. The labels are the captured
  parameters of that route alone; the label names of all routes are distinct and in order.
\<close>

theorem match_route_first_fit:
  assumes "new_matcher rs = Inr m"
  shows "match_route m host path =
     (case find (\<lambda>r.
          (if \<exists>d. to_lower (ro_host r) = ''*.'' @ d
           then \<exists>sub. to_lower host = sub @ tl (to_lower (ro_host r))
           else to_lower host = to_lower (ro_host r)) \<and>
          path_fits (segments_of (ro_path r)) (segments_of path)) rs of
        None \<Rightarrow> ([], Map.empty)
      | Some r \<Rightarrow>
          (ro_name r,
           bound_labels (set (ro_capture r)) (segments_of (ro_path r)) (segments_of path) Map.empty)) \<and>
    sorted (ma_captures m) \<and> distinct (ma_captures m) \<and>
    set (ma_captures m) = \<Union> (set ` ro_capture ` set rs)"
proof -
  from assms have m: "ma_routes m = map compile_route rs" "sorted (ma_captures m)" "distinct (ma_captures m)"
    "set (ma_captures m) = \<Union> (set ` ro_capture ` set rs)"
    using compile_routes_spec [of rs _ m] by (auto simp: new_matcher_def)
  show ?thesis
    unfolding match_route_def match_routes_first match_host_forms m(1) find_compiled
    by (simp add: m(2,3,4) compile_route_def split: option.split)
qed

definition demo_routes :: "route list" where
  "demo_routes =
     [\<lparr>ro_name = ''user'', ro_host = ''*.Example.com'', ro_path = ''/users/id-:id'', ro_capture = [''id'']\<rparr>,
      \<lparr>ro_name = ''rest'', ro_host = ''api.example.com'', ro_path = ''/users/*'', ro_capture = []\<rparr>]"

lemma demo_matcher: "new_matcher demo_routes = Inr \<lparr>ma_routes = map compile_route demo_routes, ma_captures = [''id'']\<rparr>"
  by code_simp

theorem match_route_first_fit_witness:
  "match_route \<lparr>ma_routes = map compile_route demo_routes, ma_captures = [''id'']\<rparr> ''API.example.com'' ''/users/x''
     = (''rest'', Map.empty)"
proof -
  have hosts: "lower_char CHR ''a'' = CHR ''a''" "lower_char CHR ''p'' = CHR ''p''" "lower_char CHR ''P'' = CHR ''p''"
    "lower_char CHR ''i'' = CHR ''i''" "lower_char CHR ''I'' = CHR ''i''" "lower_char CHR ''A'' = CHR ''a''"
    "to_lower ''*.Example.com'' = ''*.example.com''" by code_simp+
  have segs: "segments_of ''/users/x'' = [''users'', ''x'']" "segments_of ''/users/id-:id'' = [''users'', ''id-:id'']"
    "segments_of ''/users/*'' = [''users'', ''*'']" "cut CHR '':'' ''id-:id'' = (''id-'', ''id'', True)"
    "cut CHR '':'' ''users'' = (''users'', [], False)" by code_simp+
  show ?thesis
    unfolding match_route_first_fit [OF demo_matcher, THEN conjunct1]
    by (simp add: demo_routes_def hosts segs path_fits_simps fits_def bound_labels_def bind_segment_def)
qed

text \<open>A route for the root path compiles and fits no path at all.\<close>

lemma root_route_fits_nothing: "\<not> path_fits (segments_of ''/'') segs"
proof -
  have "segments_of ''/'' = [[]]" by code_simp
  then show ?thesis by (cases segs) (auto simp: path_fits_def fits_def)
qed

end
