(* ===== verification/Tip_Headers.thy ===== *)
theory Tip_Headers
  imports Tip_Strings "HOL-Library.AList"
begin

text \<open>
  \<^verbatim>\<open>http.Header\<close>: a Go map from names to value lists. The model is an association list
  whose order is the order a \<^verbatim>\<open>range\<close> over the map visits it, which Go leaves open: a
  claim about a loop over a header holds for every order. \<open>canonical_key\<close> is
  \<^verbatim>\<open>textproto.CanonicalMIMEHeaderKey\<close>, and Get, Values, Set, Add and Del go through it.
\<close>

type_synonym header = "(string \<times> string list) list"

definition token_char :: "char \<Rightarrow> bool" where
  "token_char c = (is_alpha c \<or> is_digit c \<or> c \<in> set ''!#$%&*+-.^_`|~'' \<or> of_char c = (39 :: nat))"

definition is_token :: "string \<Rightarrow> bool" where
  "is_token s = (s \<noteq> [] \<and> list_all token_char s)"

fun canon :: "bool \<Rightarrow> string \<Rightarrow> string" where
  "canon up [] = []"
| "canon up (c # s) =
     (let d = (if up then upper_char c else lower_char c) in d # canon (d = CHR ''-'') s)"

definition canonical_key :: "string \<Rightarrow> string" where
  "canonical_key s = (if list_all token_char s then canon True s else s)"

definition header_wf :: "header \<Rightarrow> bool" where
  "header_wf h = distinct (map fst h)"

definition raw_values :: "header \<Rightarrow> string \<Rightarrow> string list" where
  "raw_values h k = (case map_of h k of None \<Rightarrow> [] | Some vs \<Rightarrow> vs)"

definition h_values :: "header \<Rightarrow> string \<Rightarrow> string list" where
  "h_values h k = raw_values h (canonical_key k)"

definition h_get :: "header \<Rightarrow> string \<Rightarrow> string" where
  "h_get h k = (case h_values h k of [] \<Rightarrow> [] | v # _ \<Rightarrow> v)"

definition h_set :: "string \<Rightarrow> string \<Rightarrow> header \<Rightarrow> header" where
  "h_set k v h = AList.update (canonical_key k) [v] h"

definition h_add :: "string \<Rightarrow> string \<Rightarrow> header \<Rightarrow> header" where
  "h_add k v h = AList.update (canonical_key k) (h_values h k @ [v]) h"

definition h_del :: "string \<Rightarrow> header \<Rightarrow> header" where
  "h_del k h = AList.delete (canonical_key k) h"

lemmas header_defs = h_values_def h_set_def h_add_def h_del_def raw_values_def

section \<open>Canonical names\<close>

lemma token_char_case [simp]:
  "token_char (lower_char c) = token_char c" "token_char (upper_char c) = token_char c"
  by (cases "is_alpha c"; simp add: token_char_def lower_char_id upper_char_id)+

lemma canon_lower: "to_lower (canon up s) = to_lower s"
  by (induction s arbitrary: up) (auto simp: Let_def)

lemma canon_token: "list_all token_char (canon up s) = list_all token_char s"
  by (induction s arbitrary: up) (auto simp: Let_def)

lemma canon_idem: "canon up (canon up s) = canon up s"
  by (induction s arbitrary: up) (auto simp: Let_def)

lemma canonical_key_idem [simp]: "canonical_key (canonical_key s) = canonical_key s"
  by (simp add: canonical_key_def canon_token canon_idem)

lemma to_lower_canonical_key [simp]: "to_lower (canonical_key s) = to_lower s"
  by (simp add: canonical_key_def canon_lower)

lemma canon_of_lower: "canon up (to_lower s) = canon up s"
  by (induction s arbitrary: up) (auto simp: Let_def)

lemma to_lower_token: "list_all token_char (to_lower s) = list_all token_char s"
  by (induction s) auto

lemma canonical_key_of_lower:
  "list_all token_char s \<Longrightarrow> canonical_key (to_lower s) = canonical_key s"
  by (simp add: canonical_key_def to_lower_token canon_of_lower)

text \<open>On names a server accepts, canonical names differ only when they differ beyond case.\<close>

lemma canonical_key_eq_iff:
  assumes "list_all token_char s" "list_all token_char t"
  shows "canonical_key s = canonical_key t \<longleftrightarrow> to_lower s = to_lower t"
  by (metis assms canonical_key_of_lower to_lower_canonical_key)

section \<open>Laws of the operations\<close>

lemma header_wf_ops [simp]:
  assumes "header_wf h"
  shows "header_wf (h_set k v h)" "header_wf (h_add k v h)" "header_wf (h_del k h)"
  using assms
  by (simp_all add: header_wf_def header_defs distinct_update AList.distinct_delete)

lemma raw_values_set:
  "raw_values (h_set k v h) n = (if n = canonical_key k then [v] else raw_values h n)"
  by (simp add: header_defs update_conv')

lemma raw_values_add:
  "raw_values (h_add k v h) n =
     (if n = canonical_key k then raw_values h n @ [v] else raw_values h n)"
  by (simp add: header_defs update_conv')

lemma raw_values_del:
  "raw_values (h_del k h) n = (if n = canonical_key k then [] else raw_values h n)"
  by (simp add: header_defs AList.delete_conv')

text \<open>
  The interface the header-rewriting code relies on: reading after adding, setting and deleting,
  up to a notion of equal names. What every client needs is derived once, in the locale.
\<close>

locale header_store =
  fixes key :: "string \<Rightarrow> string"
    and vals :: "'h \<Rightarrow> string \<Rightarrow> string list"
    and add :: "string \<Rightarrow> string \<Rightarrow> 'h \<Rightarrow> 'h"
    and del :: "string \<Rightarrow> 'h \<Rightarrow> 'h"
  assumes vals_add: "vals (add k v h) n = (if n = key k then vals h n @ [v] else vals h n)"
    and vals_del: "vals (del k h) n = (if n = key k then [] else vals h n)"
begin

lemma vals_add_all: "vals (fold (add k) vs h) n = (if n = key k then vals h n @ vs else vals h n)"
  by (induction vs arbitrary: h) (auto simp: vals_add)

text \<open>Replacing the values of one name after another by those of a fixed source.\<close>

lemma vals_restore:
  "vals (fold (\<lambda>k h. fold (add k) (src (key k)) (del k h)) ks h) n =
     (if n \<in> key ` set ks then src n else vals h n)"
proof (induction ks arbitrary: h)
  case (Cons k ks)
  show ?case by (simp add: Cons.IH vals_add_all vals_del)
qed simp

end

interpretation hdr: header_store canonical_key raw_values h_add h_del
  by unfold_locales (simp_all add: raw_values_add raw_values_del)

lemma h_values_set: "h_values (h_set k v h) n =
    (if canonical_key n = canonical_key k then [v] else h_values h n)"
  by (simp add: h_values_def raw_values_set)

lemma h_get_set_same [simp]: "h_get (h_set k v h) k = v"
  by (simp add: h_get_def h_values_set)

lemma h_get_set_other:
  "canonical_key n \<noteq> canonical_key k \<Longrightarrow> h_get (h_set k v h) n = h_get h n"
  by (simp add: h_get_def h_values_set)

end
