(* ===== verification/Tip_Utf8.thy ===== *)
theory Tip_Utf8
  imports Tip_Strings
begin

text \<open>
  Go reads a string as runes: \<^verbatim>\<open>for _, r := range s\<close> and \<^verbatim>\<open>encoding/json\<close> decode UTF-8
  and see each byte that starts no valid encoding as the replacement rune, one byte wide.
  \<open>runes\<close> cuts a byte string the same way, keeping the bytes of every piece.
\<close>

definition byte :: "char \<Rightarrow> nat" where
  "byte c = of_char c"

definition byte_in :: "nat \<Rightarrow> nat \<Rightarrow> char \<Rightarrow> bool" where
  "byte_in lo hi c = (lo \<le> byte c \<and> byte c \<le> hi)"

text \<open>
  The first byte of an encoding fixes its width (0 when no encoding starts with it) and the
  range of its second byte; the bytes after that are continuation bytes.
\<close>

definition first_info :: "char \<Rightarrow> nat \<times> nat \<times> nat" where
  "first_info c =
     (if byte c < 128 then (1, 0, 0)
      else if byte_in 194 223 c then (2, 128, 191)
      else if byte_in 224 239 c then
        (3, if byte c = 224 then 160 else 128, if byte c = 237 then 159 else 191)
      else if byte_in 240 244 c then
        (4, if byte c = 240 then 144 else 128, if byte c = 244 then 143 else 191)
      else (0, 0, 0))"

definition tail_ok :: "nat \<Rightarrow> nat \<Rightarrow> nat \<Rightarrow> string \<Rightarrow> bool" where
  "tail_ok w lo hi s =
     (w = 1 \<or>
      (case s of
         [] \<Rightarrow> False
       | a # r \<Rightarrow> length s = w - 1 \<and> byte_in lo hi a \<and> list_all (byte_in 128 191) r))"

text \<open>The width of the rune a string starts with, 0 when its first byte starts none.\<close>

fun rune_len :: "string \<Rightarrow> nat" where
  "rune_len [] = 0"
| "rune_len (c # s) =
     (case first_info c of (w, lo, hi) \<Rightarrow> if tail_ok w lo hi (take (w - 1) s) then w else 0)"

datatype rune = Rune string | BadByte char

fun rune_bytes :: "rune \<Rightarrow> string" where
  "rune_bytes (Rune s) = s"
| "rune_bytes (BadByte c) = [c]"

function runes :: "string \<Rightarrow> rune list" where
  "runes [] = []"
| "runes (c # s) =
     (case rune_len (c # s) of
        0 \<Rightarrow> BadByte c # runes s
      | Suc k \<Rightarrow> Rune (c # take k s) # runes (drop k s))"
  by pat_completeness auto
termination
  by (relation "measure length") auto

definition valid_utf8 :: "string \<Rightarrow> bool" where
  "valid_utf8 s = (\<forall>r \<in> set (runes s). case r of Rune _ \<Rightarrow> True | BadByte _ \<Rightarrow> False)"

text \<open>\<^verbatim>\<open>strings.ToValidUTF8(s, "")\<close>: the invalid bytes dropped.\<close>

definition to_valid_utf8 :: "string \<Rightarrow> string" where
  "to_valid_utf8 s = concat [t. Rune t \<leftarrow> runes s]"

lemma tail_ok_length: "tail_ok w lo hi s \<Longrightarrow> w = 1 \<or> length s = w - 1 \<and> 1 < w"
  by (cases s) (auto simp: tail_ok_def)

lemma rune_len_le: "rune_len s \<le> length s"
proof (cases s)
  case (Cons c t)
  obtain w lo hi where i: "first_info c = (w, lo, hi)" by (cases "first_info c") auto
  then show ?thesis
    using Cons tail_ok_length [of w lo hi "take (w - 1) t"] by auto
qed simp

lemma concat_runes: "concat (map rune_bytes (runes s)) = s"
  by (induction s rule: runes.induct) (auto simp del: rune_len.simps split: nat.splits)

text \<open>A piece that is a rune encodes exactly that rune, whatever follows it.\<close>

definition is_rune :: "string \<Rightarrow> bool" where
  "is_rune t = (t \<noteq> [] \<and> rune_len t = length t)"

lemma is_rune_Cons:
  "is_rune (c # u) \<longleftrightarrow>
     (case first_info c of (w, lo, hi) \<Rightarrow> w = Suc (length u) \<and> tail_ok w lo hi u)"
  by (auto simp: is_rune_def split: prod.splits)

lemma rune_len_append: "is_rune t \<Longrightarrow> rune_len (t @ x) = length t"
proof (cases t)
  case (Cons c u)
  assume "is_rune t"
  with Cons show ?thesis by (auto simp: is_rune_Cons split: prod.splits)
qed (simp add: is_rune_def)

lemma is_rune_take: "rune_len (c # s) = Suc k \<Longrightarrow> is_rune (c # take k s)"
  by (auto simp: is_rune_Cons split: prod.splits if_splits dest: tail_ok_length)

lemma runes_is_rune: "Rune t \<in> set (runes s) \<Longrightarrow> is_rune t"
proof (induction s rule: runes.induct)
  case (2 c s)
  then show ?case
    by (auto dest: is_rune_take simp del: rune_len.simps split: nat.splits)
qed simp

lemma is_rune_prefix_unique:
  assumes "is_rune t" "is_rune u" "t @ x = u @ y"
  shows "t = u \<and> x = y"
  using rune_len_append [OF assms(1), of x] rune_len_append [OF assms(2), of y] assms(3)
  by (simp add: append_eq_append_conv)

lemma is_rune_ascii: "byte c < 128 \<Longrightarrow> is_rune (c # t) \<longleftrightarrow> t = []"
  by (simp add: is_rune_Cons first_info_def tail_ok_def)

lemma is_rune_nonascii: "is_rune (c # t) \<Longrightarrow> \<not> byte c < 128 \<Longrightarrow> 194 \<le> byte c"
  by (auto simp: is_rune_Cons first_info_def byte_in_def tail_ok_def split: if_splits list.splits)

lemma runes_append_rune: "is_rune t \<Longrightarrow> runes (t @ x) = Rune t # runes x"
proof -
  assume t: "is_rune t"
  then obtain c u where cu: "t = c # u" by (cases t) (auto simp: is_rune_def)
  have "rune_len (c # u @ x) = Suc (length u)"
    using rune_len_append [OF t, of x] cu by simp
  then show ?thesis using cu by (simp del: rune_len.simps)
qed

lemma valid_utf8_Nil [simp]: "valid_utf8 []"
  by (simp add: valid_utf8_def)

lemma runes_ascii: "list_all (\<lambda>c. byte c < 128) s \<Longrightarrow> runes s = map (\<lambda>c. Rune [c]) s"
  by (induction s) (auto simp: first_info_def tail_ok_def)

lemma valid_utf8_ascii: "list_all (\<lambda>c. byte c < 128) s \<Longrightarrow> valid_utf8 s"
  by (auto simp: valid_utf8_def runes_ascii)

lemma valid_utf8_runes_eq:
  assumes "valid_utf8 s" "valid_utf8 t" "runes s = runes t"
  shows "s = t"
  by (metis assms(3) concat_runes)

lemma to_valid_utf8_length: "length (to_valid_utf8 s) \<le> length s"
proof (induction s rule: runes.induct)
  case (2 c s)
  then show ?case
    by (auto simp: to_valid_utf8_def simp del: rune_len.simps split: nat.splits)
qed (simp add: to_valid_utf8_def)

lemma set_to_valid_utf8: "set (to_valid_utf8 s) \<subseteq> set s"
proof -
  have "set (to_valid_utf8 s) \<subseteq> set (concat (map rune_bytes (runes s)))"
    by (auto simp: to_valid_utf8_def split: rune.splits)
  then show ?thesis by (simp only: concat_runes)
qed

lemma runes_concat: "\<forall>t \<in> set ts. is_rune t \<Longrightarrow> runes (concat ts) = map Rune ts"
  by (induction ts) (simp_all add: runes_append_rune)

lemma valid_to_valid_utf8: "valid_utf8 (to_valid_utf8 s)"
proof -
  have "\<forall>t \<in> set [t. Rune t \<leftarrow> runes s]. is_rune t"
    by (auto dest: runes_is_rune split: rune.splits)
  from runes_concat [OF this] show ?thesis by (auto simp: to_valid_utf8_def valid_utf8_def)
qed

section \<open>Valid text in pieces\<close>

lemma valid_utf8_pieces:
  assumes "valid_utf8 s"
  obtains ts where "s = concat ts" "\<forall>t \<in> set ts. is_rune t"
proof
  have r: "r = Rune (rune_bytes r)" if "r \<in> set (runes s)" for r
    using assms that by (cases r) (auto simp: valid_utf8_def)
  show "s = concat (map rune_bytes (runes s))" by (simp add: concat_runes)
  show "\<forall>t \<in> set (map rune_bytes (runes s)). is_rune t"
    using r runes_is_rune [of _ s] by fastforce
qed

lemma valid_utf8_append: "valid_utf8 s \<Longrightarrow> valid_utf8 (s @ t) = valid_utf8 t"
proof (elim valid_utf8_pieces)
  fix ts assume "s = concat ts" "\<forall>u \<in> set ts. is_rune u"
  then show "valid_utf8 (s @ t) = valid_utf8 t"
    by (induction ts arbitrary: s) (auto simp: runes_append_rune valid_utf8_def)
qed

lemma is_rune_tail: "is_rune (x # u) \<Longrightarrow> c \<in> set u \<Longrightarrow> 128 \<le> byte c"
  by (auto simp: is_rune_Cons tail_ok_def first_info_def byte_in_def list_all_iff split: if_splits list.splits)

lemma valid_utf8_split_ascii:
  assumes "valid_utf8 (a @ c # b)" "byte c < 128"
  shows "valid_utf8 a \<and> valid_utf8 b"
  using assms(1)
proof (induction "length a" arbitrary: a rule: less_induct)
  case less
  show ?case
  proof (cases a)
    case Nil
    from valid_utf8_append [of "[c]" b] assms(2) less.prems Nil show ?thesis
      by (simp add: valid_utf8_ascii)
  next
    case (Cons x a')
    from less.prems obtain ts where ts: "a @ c # b = concat ts" "\<forall>t \<in> set ts. is_rune t"
      by (elim valid_utf8_pieces)
    then obtain t ts' where t: "ts = t # ts'" "is_rune t" by (cases ts) auto
    then obtain y u where yu: "t = y # u" by (cases t) (auto simp: is_rune_def)
    have vt: "valid_utf8 t" using runes_append_rune [OF t(2), of "[]"] by (simp add: valid_utf8_def)
    from ts(1) t(1) have eq: "a @ c # b = t @ concat ts'" by simp
    then obtain d where "a = t @ d \<and> d @ c # b = concat ts' \<or> a @ d = t \<and> c # b = d @ concat ts'"
      unfolding append_eq_append_conv2 by blast
    then consider "a = t @ d" "d @ c # b = concat ts'" | "d = []" "a = t" "c # b = concat ts'"
      | "a @ d = t" "d \<noteq> []" "c # b = d @ concat ts'" by fastforce
    then show ?thesis
    proof cases
      assume d: "a = t @ d" "d @ c # b = concat ts'"
      have "valid_utf8 (d @ c # b)" using less.prems vt d(1) by (simp add: valid_utf8_append)
      with less.hyps [of d] d(1) yu have "valid_utf8 d \<and> valid_utf8 b" by simp
      with vt show ?thesis unfolding d(1) by (simp only: valid_utf8_append)
    next
      assume "a = t" "c # b = concat ts'"
      with less.prems vt valid_utf8_append [of "[c]" b] assms(2) show ?thesis
        by (simp add: valid_utf8_append valid_utf8_ascii)
    next
      assume d: "a @ d = t" "d \<noteq> []" "c # b = d @ concat ts'"
      then have "c \<in> set u" using Cons yu by (cases d) auto
      with is_rune_tail t(2) yu assms(2) show ?thesis by fastforce
    qed
  qed
qed

lemma valid_utf8_split_on:
  assumes "byte c < 128" "valid_utf8 s" "t \<in> set (split_on c s)"
  shows "valid_utf8 t"
proof -
  have "valid_utf8 (join [c] ts) \<Longrightarrow> \<forall>t \<in> set ts. valid_utf8 t" for ts
  proof (induction ts)
    case (Cons t ts)
    then show ?case using valid_utf8_split_ascii [OF _ assms(1), of t "join [c] ts"]
      by (cases ts) auto
  qed simp
  from this [of "split_on c s"] assms(2,3) show ?thesis by (simp add: join_split_on)
qed

end
