(* ===== verification/Tip_Error.thy ===== *)
theory Tip_Error
  imports Tip_Headers Tip_Utf8
begin

text \<open>
  Errors as the program looks at them. A Go error is a tree under \<^verbatim>\<open>Unwrap\<close>; what
  \<^verbatim>\<open>errors.Is\<close> and \<^verbatim>\<open>errors.As\<close> find are the nodes in pre-order. A node of another package
  is its text with what it can be recognised as; the CONNECT hop's own error is a constructor of
  its own (\<^verbatim>\<open>connect.Error\<close>, with \<^verbatim>\<open>connect.Verdict\<close> and the hop phases).
\<close>

datatype phase = PhaseNone | PhaseDial | PhaseTLS | PhaseConnect

fun phase_text :: "phase \<Rightarrow> string" where
  "phase_text PhaseNone = []"
| "phase_text PhaseDial = ''proxy-dial''"
| "phase_text PhaseTLS = ''proxy-tls''"
| "phase_text PhaseConnect = ''proxy-connect''"

text \<open>The order in which a dial goes through the phases, with the tunnel up at the end.\<close>

instantiation phase :: linorder
begin

fun phase_rank :: "phase \<Rightarrow> nat" where
  "phase_rank PhaseDial = 0"
| "phase_rank PhaseTLS = 1"
| "phase_rank PhaseConnect = 2"
| "phase_rank PhaseNone = 3"

definition less_eq_phase :: "phase \<Rightarrow> phase \<Rightarrow> bool" where
  "less_eq_phase p q = (phase_rank p \<le> phase_rank q)"

definition less_phase :: "phase \<Rightarrow> phase \<Rightarrow> bool" where
  "less_phase p q = (phase_rank p < phase_rank q)"

instance
proof
  fix p q :: phase
  show "p \<le> q \<Longrightarrow> q \<le> p \<Longrightarrow> p = q" by (cases p; cases q) (simp_all add: less_eq_phase_def)
qed (auto simp: less_eq_phase_def less_phase_def)

end

record verdict =
  vd_status :: int
  vd_header :: header
  vd_body :: string

datatype tag =
    IsCanceled | IsDeadline | NetError bool | OpError string | IsDns
  | IsRefused | IsHostUnreach | IsNetUnreach | IsCertVerification | IsAlert | IsUnexpectedEof

datatype gerror =
    GErr string "tag list" "gerror list"
  | Hop phase "verdict option" "gerror option"

text \<open>\<^verbatim>\<open>http.StatusText\<close>.\<close>

definition status_texts :: "(int \<times> string) list" where
  "status_texts =
     [(100, ''Continue''), (101, ''Switching Protocols''), (102, ''Processing''),
      (103, ''Early Hints''), (200, ''OK''), (201, ''Created''), (202, ''Accepted''),
      (203, ''Non-Authoritative Information''), (204, ''No Content''), (205, ''Reset Content''),
      (206, ''Partial Content''), (207, ''Multi-Status''), (208, ''Already Reported''),
      (226, ''IM Used''), (300, ''Multiple Choices''), (301, ''Moved Permanently''),
      (302, ''Found''), (303, ''See Other''), (304, ''Not Modified''), (305, ''Use Proxy''),
      (307, ''Temporary Redirect''), (308, ''Permanent Redirect''), (400, ''Bad Request''),
      (401, ''Unauthorized''), (402, ''Payment Required''), (403, ''Forbidden''),
      (404, ''Not Found''), (405, ''Method Not Allowed''), (406, ''Not Acceptable''),
      (407, ''Proxy Authentication Required''), (408, ''Request Timeout''), (409, ''Conflict''),
      (410, ''Gone''), (411, ''Length Required''), (412, ''Precondition Failed''),
      (413, ''Request Entity Too Large''), (414, ''Request URI Too Long''),
      (415, ''Unsupported Media Type''), (416, ''Requested Range Not Satisfiable''),
      (417, ''Expectation Failed''), (418, ''I'' @ [char_of (39 :: nat)] @ ''m a teapot''),
      (421, ''Misdirected Request''), (422, ''Unprocessable Entity''), (423, ''Locked''),
      (424, ''Failed Dependency''), (425, ''Too Early''), (426, ''Upgrade Required''),
      (428, ''Precondition Required''), (429, ''Too Many Requests''),
      (431, ''Request Header Fields Too Large''), (451, ''Unavailable For Legal Reasons''),
      (500, ''Internal Server Error''), (501, ''Not Implemented''), (502, ''Bad Gateway''),
      (503, ''Service Unavailable''), (504, ''Gateway Timeout''),
      (505, ''HTTP Version Not Supported''), (506, ''Variant Also Negotiates''),
      (507, ''Insufficient Storage''), (508, ''Loop Detected''), (510, ''Not Extended''),
      (511, ''Network Authentication Required'')]"

definition status_text :: "int \<Rightarrow> string" where
  "status_text code = (case map_of status_texts code of Some t \<Rightarrow> t | None \<Rightarrow> [])"

definition int_text :: "int \<Rightarrow> string" where
  "int_text n = (if n < 0 then CHR ''-'' # itoa (nat (- n)) else itoa (nat n))"

text \<open>\<^verbatim>\<open>Error()\<close>. A hop error has a verdict or a cause; without both its text would panic.\<close>

fun error_text :: "gerror \<Rightarrow> string option" where
  "error_text (GErr t tags inner) = Some t"
| "error_text (Hop p (Some v) e) =
     Some (''CONNECT '' @ int_text (vd_status v) @ '' '' @ status_text (vd_status v))"
| "error_text (Hop p None (Some e)) = map_option (\<lambda>t. phase_text p @ '': '' @ t) (error_text e)"
| "error_text (Hop p None None) = None"

text \<open>The nodes in the order \<^verbatim>\<open>errors.Is\<close> and \<^verbatim>\<open>errors.As\<close> visit them.\<close>

fun nodes :: "gerror \<Rightarrow> gerror list" where
  "nodes (GErr t tags inner) = GErr t tags inner # concat (map nodes inner)"
| "nodes (Hop p v e) = Hop p v e # (case e of None \<Rightarrow> [] | Some e' \<Rightarrow> nodes e')"

fun node_tags :: "gerror \<Rightarrow> tag list" where
  "node_tags (GErr t tags inner) = tags"
| "node_tags (Hop p v e) = []"

definition error_is :: "tag \<Rightarrow> gerror option \<Rightarrow> bool" where
  "error_is t e = (case e of None \<Rightarrow> False | Some x \<Rightarrow> list_ex (\<lambda>n. t \<in> set (node_tags n)) (nodes x))"

text \<open>\<^verbatim>\<open>errors.As(err, &netErr) && netErr.Timeout()\<close>: the first node that is a \<^verbatim>\<open>net.Error\<close> counts.\<close>

definition net_timeouts :: "gerror \<Rightarrow> bool list" where
  "net_timeouts e = concat (map (\<lambda>n. [b. NetError b \<leftarrow> node_tags n]) (nodes e))"

definition is_net_timeout :: "gerror option \<Rightarrow> bool" where
  "is_net_timeout e =
     (case e of None \<Rightarrow> False
      | Some x \<Rightarrow> (case net_timeouts x of [] \<Rightarrow> False | b # _ \<Rightarrow> b))"

text \<open>\<^verbatim>\<open>errors.As(err, &opErr) && opErr.Op == op\<close>.\<close>

definition first_op :: "gerror \<Rightarrow> string option" where
  "first_op e =
     (case concat (map (\<lambda>n. [b. OpError b \<leftarrow> node_tags n]) (nodes e)) of
        [] \<Rightarrow> None | op # _ \<Rightarrow> Some op)"

text \<open>\<^verbatim>\<open>errors.As(err, &hop)\<close>: the first hop error, as phase, verdict and cause.\<close>

definition find_hop :: "gerror \<Rightarrow> (phase \<times> verdict option \<times> gerror option) option" where
  "find_hop e =
     (case concat (map (\<lambda>n. case n of Hop p v c \<Rightarrow> [(p, v, c)] | GErr _ _ _ \<Rightarrow> []) (nodes e)) of
        [] \<Rightarrow> None | h # _ \<Rightarrow> Some h)"

definition hop_formed :: "gerror \<Rightarrow> bool" where
  "hop_formed e =
     (\<forall>n \<in> set (nodes e). case n of Hop p v c \<Rightarrow> v \<noteq> None \<or> c \<noteq> None | GErr _ _ _ \<Rightarrow> True)"

lemma nodes_self [simp]: "e \<in> set (nodes e)"
  by (cases e) simp_all

lemma find_hop_Hop [simp]: "find_hop (Hop p v c) = Some (p, v, c)"
  by (simp add: find_hop_def)

lemma error_text_formed: "hop_formed e \<Longrightarrow> error_text e \<noteq> None"
proof (induction e rule: error_text.induct)
  case (3 p e)
  then have "hop_formed e" by (auto simp: hop_formed_def)
  with 3 show ?case by auto
qed (auto simp: hop_formed_def)

lemma find_hop_node: "find_hop e = Some (p, v, c) \<Longrightarrow> Hop p v c \<in> set (nodes e)"
proof -
  let ?hs = "concat (map (\<lambda>n. case n of Hop p v c \<Rightarrow> [(p, v, c)] | GErr _ _ _ \<Rightarrow> []) (nodes e))"
  assume "find_hop e = Some (p, v, c)"
  then have "(p, v, c) \<in> set ?hs" by (cases ?hs) (simp_all add: find_hop_def)
  then show ?thesis by (auto split: gerror.splits)
qed

lemma hop_cause_nodes: "Hop p v (Some e) \<in> set (nodes x) \<Longrightarrow> set (nodes e) \<subseteq> set (nodes x)"
proof (induction x rule: nodes.induct)
  case (1 t tags inner)
  then show ?case by auto
next
  case (2 q w c)
  then show ?case by (cases c) auto
qed

end
