(* ===== verification/Tip_Connect.thy ===== *)
theory Tip_Connect
  imports Tip_Error Tip_Url
begin

text \<open>
  Dialing through an HTTP CONNECT proxy (\<^verbatim>\<open>internal/connect/connect.go\<close>). The network is a
  \<open>world\<close>: what the dial, the handshake, the write, the read and the context give. A dial returns
  its result, the memo as it leaves it, and the input and output it did, in order.
\<close>

section \<open>The hop's answer\<close>

definition max_body :: nat where
  "max_body = 4096"

definition max_line :: nat where
  "max_line = 200"

definition newline :: char where
  "newline = char_of (10 :: nat)"

definition verdict_line :: "verdict \<Rightarrow> string" where
  "verdict_line v =
     (let line = trim_space (fst (cut newline (trim_space (vd_body v)))) in
      if max_line < length line then to_valid_utf8 (take max_line line) else line)"

section \<open>The memo\<close>

record memo =
  mm_phase :: phase
  mm_verdict :: "verdict option"

definition new_memo :: memo where
  "new_memo = \<lparr>mm_phase = PhaseNone, mm_verdict = None\<rparr>"

text \<open>\<open>None\<close> is the nil memo of a context that carries none.\<close>

definition memo_phase :: "memo option \<Rightarrow> phase" where
  "memo_phase m = (case m of None \<Rightarrow> PhaseNone | Some x \<Rightarrow> mm_phase x)"

definition memo_verdict :: "memo option \<Rightarrow> verdict option" where
  "memo_verdict m = (case m of None \<Rightarrow> None | Some x \<Rightarrow> mm_verdict x)"

definition memo_set :: "phase \<Rightarrow> verdict option \<Rightarrow> memo option \<Rightarrow> memo option" where
  "memo_set p v m =
     map_option (\<lambda>x. x\<lparr>mm_phase := p, mm_verdict := (if v \<noteq> None then v else mm_verdict x)\<rparr>) m"

section \<open>The dialer\<close>

text \<open>\<^verbatim>\<open>base64.StdEncoding\<close>.\<close>

definition b64_char :: "nat \<Rightarrow> char" where
  "b64_char n =
     (if n < 26 then char_of (65 + n) else if n < 52 then char_of (71 + n)
      else if n < 62 then char_of (n - 4) else if n = 62 then CHR ''+'' else CHR ''/'')"

fun base64 :: "string \<Rightarrow> string" where
  "base64 [] = []"
| "base64 [a] =
     (let n = of_char a * 16 in [b64_char (n div 64), b64_char (n mod 64), CHR ''='', CHR ''=''])"
| "base64 [a, b] =
     (let n = (of_char a * 256 + of_char b) * 4 in
      [b64_char (n div 4096), b64_char (n div 64 mod 64), b64_char (n mod 64), CHR ''=''])"
| "base64 (a # b # c # s) =
     (let n = (of_char a * 256 + of_char b) * 256 + of_char c in
      [b64_char (n div 262144), b64_char (n div 4096 mod 64), b64_char (n div 64 mod 64),
       b64_char (n mod 64)] @ base64 s)"

record tls_config =
  tc_insecure :: bool
  tc_server_name :: string
  tc_next_protos :: "string list"

definition no_tls_config :: tls_config where
  "no_tls_config = \<lparr>tc_insecure = False, tc_server_name = [], tc_next_protos = []\<rparr>"

record dialer =
  dl_host :: string
  dl_auth :: string
  dl_tls :: "tls_config option"

datatype dialer_error = NotHttpProxy string | NoProxyHost

definition hop_port :: "url \<Rightarrow> string" where
  "hop_port u =
     (if url_port u \<noteq> [] then url_port u
      else if u_scheme u = ''http'' then ''80'' else if u_scheme u = ''https'' then ''443'' else [])"

definition hop_auth :: "url \<Rightarrow> string" where
  "hop_auth u =
     (case u_user u of
        None \<Rightarrow> []
      | Some (name, password) \<Rightarrow>
          ''Basic '' @ base64 (name @ '':'' @ (case password of Some p \<Rightarrow> p | None \<Rightarrow> [])))"

definition hop_tls :: "url \<Rightarrow> tls_config option \<Rightarrow> tls_config option" where
  "hop_tls u cfg =
     (if u_scheme u = ''https'' then
        (let c = (case cfg of Some c \<Rightarrow> c | None \<Rightarrow> no_tls_config);
             c' = (if tc_server_name c = [] then c\<lparr>tc_server_name := url_hostname u\<rparr> else c)
         in Some (c'\<lparr>tc_next_protos := [''http/1.1'']\<rparr>))
      else None)"

definition new_dialer :: "url \<Rightarrow> tls_config option \<Rightarrow> (dialer_error, dialer) result" where
  "new_dialer u cfg =
     (if u_scheme u \<noteq> ''http'' \<and> u_scheme u \<noteq> ''https'' then Inl (NotHttpProxy (u_scheme u))
      else if url_hostname u = [] then Inl NoProxyHost
      else Inr \<lparr>dl_host = join_host_port (url_hostname u) (hop_port u), dl_auth = hop_auth u,
                dl_tls = hop_tls u cfg\<rparr>)"

section \<open>Dialing\<close>

record connect_request =
  cr_target :: string
  cr_auth :: string

record hop_response =
  hr_status :: int
  hr_header :: header
  hr_body :: string

text \<open>
  What the network and the context do: an error or success of each operation, the bytes the
  response reader took past the status line, whether the deadline callback was stopped in time,
  and the context's error.
\<close>

record world =
  w_dial :: "gerror option"
  w_handshake :: "gerror option"
  w_write :: "gerror option"
  w_read :: "(gerror, hop_response) result"
  w_buffered :: string
  w_stopped :: bool
  w_ctx :: "gerror option"

datatype io =
    IoDial string | IoHandshake tls_config | IoWrite connect_request | IoRead | IoReadBody nat
  | IoClearDeadline | IoClose

datatype tunnel = Direct | Buffered string

text \<open>\<^verbatim>\<open>cause\<close>: the context's error takes the place of the one it brought about.\<close>

definition cause :: "world \<Rightarrow> gerror \<Rightarrow> gerror" where
  "cause w e = (case w_ctx w of Some c \<Rightarrow> c | None \<Rightarrow> e)"

definition connect_hop :: "dialer \<Rightarrow> world \<Rightarrow> string \<Rightarrow> (gerror, tunnel) result \<times> io list" where
  "connect_hop d w addr =
     (let request = \<lparr>cr_target = addr, cr_auth = dl_auth d\<rparr> in
      case w_write w of
        Some e \<Rightarrow> (Inl (Hop PhaseConnect None (Some (cause w e))), [IoWrite request])
      | None \<Rightarrow>
          (case w_read w of
             Inl e \<Rightarrow> (Inl (Hop PhaseConnect None (Some (cause w e))), [IoWrite request, IoRead])
           | Inr resp \<Rightarrow>
               if hr_status resp div 100 \<noteq> 2 then
                 (Inl (Hop PhaseConnect
                    (Some \<lparr>vd_status = hr_status resp, vd_header = hr_header resp,
                           vd_body = take max_body (hr_body resp)\<rparr>) None),
                  [IoWrite request, IoRead, IoReadBody max_body])
               else if \<not> w_stopped w then
                 (Inl (Hop PhaseConnect None (w_ctx w)), [IoWrite request, IoRead])
               else if w_buffered w \<noteq> [] then
                 (Inr (Buffered (w_buffered w)), [IoWrite request, IoRead, IoClearDeadline])
               else (Inr Direct, [IoWrite request, IoRead, IoClearDeadline])))"

fun error_verdict :: "gerror \<Rightarrow> verdict option" where
  "error_verdict (Hop p v c) = v"
| "error_verdict (GErr t tags inner) = None"

definition dial_context ::
  "dialer \<Rightarrow> memo option \<Rightarrow> world \<Rightarrow> string \<Rightarrow> (gerror, tunnel) result \<times> memo option \<times> io list" where
  "dial_context d m w addr =
     (case memo_verdict m of
        Some v \<Rightarrow> (Inl (Hop PhaseConnect (Some v) None), m, [])
      | None \<Rightarrow>
          let m1 = memo_set PhaseDial None m in
          case w_dial w of
            Some e \<Rightarrow> (Inl (Hop PhaseDial None (Some e)), m1, [IoDial (dl_host d)])
          | None \<Rightarrow>
              let m2 = (if dl_tls d \<noteq> None then memo_set PhaseTLS None m1 else m1);
                  io2 = IoDial (dl_host d) #
                        (case dl_tls d of Some c \<Rightarrow> [IoHandshake c] | None \<Rightarrow> [])
              in case (if dl_tls d \<noteq> None then w_handshake w else None) of
                   Some e \<Rightarrow> (Inl (Hop PhaseTLS None (Some e)), m2, io2 @ [IoClose])
                 | None \<Rightarrow>
                     let m3 = memo_set PhaseConnect None m2 in
                     case connect_hop d w addr of
                       (Inl e, io) \<Rightarrow>
                         (Inl e, memo_set PhaseConnect (error_verdict e) m3, io2 @ io @ [IoClose])
                     | (Inr t, io) \<Rightarrow> (Inr t, memo_set PhaseNone None m3, io2 @ io))"

text \<open>What reading from the tunnel yields when the socket holds \<open>rest\<close>.\<close>

fun tunnel_stream :: "tunnel \<Rightarrow> string \<Rightarrow> string" where
  "tunnel_stream Direct rest = rest"
| "tunnel_stream (Buffered b) rest = b @ rest"

section \<open>What a dial guarantees\<close>

lemma memo_set_simps [simp]:
  "memo_phase (memo_set p v (Some m)) = p"
  "memo_verdict (memo_set p v (Some m)) = (if v \<noteq> None then v else mm_verdict m)"
  "memo_set p v (Some m) = Some (m\<lparr>mm_phase := p, mm_verdict := (if v \<noteq> None then v else mm_verdict m)\<rparr>)"
  "memo_verdict (Some m) = mm_verdict m" "memo_phase (Some m) = mm_phase m"
  by (simp_all add: memo_set_def memo_phase_def memo_verdict_def)

lemma connect_hop_cases:
  assumes "w_stopped w \<or> w_ctx w \<noteq> None"
  obtains (Failed) v c io where "connect_hop d w addr = (Inl (Hop PhaseConnect v c), io)"
      "v \<noteq> None \<or> c \<noteq> None" "IoClose \<notin> set io" "io \<noteq> []"
    | (Up) t io resp where "connect_hop d w addr = (Inr t, io)" "IoClose \<notin> set io" "io \<noteq> []"
      "last io = IoClearDeadline" "\<forall>rest. tunnel_stream t rest = w_buffered w @ rest"
      "w_read w = Inr resp" "hr_status resp div 100 = 2"
proof (cases "w_write w")
  case (Some e)
  then show thesis by (intro Failed) (auto simp: connect_hop_def)
next
  case None
  note wr = None
  show thesis
  proof (cases "w_read w")
    case (Inl e)
    with wr show thesis by (intro Failed) (auto simp: connect_hop_def)
  next
    case (Inr resp)
    consider "hr_status resp div 100 \<noteq> 2" | "hr_status resp div 100 = 2" "\<not> w_stopped w"
      | "hr_status resp div 100 = 2" "w_stopped w" by blast
    then show thesis
    proof cases
      case 1
      with wr Inr show thesis by (intro Failed) (auto simp: connect_hop_def)
    next
      case 2
      with wr Inr assms show thesis by (intro Failed) (auto simp: connect_hop_def)
    next
      case 3
      with wr Inr show thesis
        by (intro Up [where t = "if w_buffered w = [] then Direct else Buffered (w_buffered w)"])
          (auto simp: connect_hop_def)
    qed
  qed
qed


definition demo_dialer :: dialer where
  "demo_dialer = \<lparr>dl_host = ''p:1'', dl_auth = [], dl_tls = None\<rparr>"

definition refusing :: world where
  "refusing = \<lparr>w_dial = None, w_handshake = None, w_write = None,
     w_read = Inr \<lparr>hr_status = 407, hr_header = [], hr_body = ''no''\<rparr>, w_buffered = [],
     w_stopped = True, w_ctx = None\<rparr>"

lemma refusing_dial:
  "dial_context demo_dialer (Some new_memo) refusing addr =
     (Inl (Hop PhaseConnect (Some \<lparr>vd_status = 407, vd_header = [], vd_body = ''no''\<rparr>) None),
      Some \<lparr>mm_phase = PhaseConnect, mm_verdict = Some \<lparr>vd_status = 407, vd_header = [], vd_body = ''no''\<rparr>\<rparr>,
      [IoDial ''p:1'', IoWrite \<lparr>cr_target = addr, cr_auth = []\<rparr>, IoRead, IoReadBody max_body, IoClose])"
  by (simp add: dial_context_def demo_dialer_def new_memo_def refusing_def connect_hop_def Let_def)
    (simp add: max_body_def)


text \<open>A verdict of the hop is remembered.\<close>

lemma dial_verdict_kept:
  assumes "w_stopped w \<or> w_ctx w \<noteq> None" and "mm_verdict mm = None"
    and "dial_context d (Some mm) w addr = (Inl (Hop p (Some v) c), m', io)"
  shows "memo_verdict m' = Some v"
  using assms(1)
proof (cases rule: connect_hop_cases [of w d addr])
  case (Failed v' c' io')
  with assms(2,3) show ?thesis by (auto simp: dial_context_def Let_def split: option.splits if_splits)
next
  case (Up t io' resp)
  with assms(2,3) show ?thesis by (auto simp: dial_context_def Let_def split: option.splits if_splits)
qed

text \<open>
  A hop that refused is asked once per request: after a dial that returned its verdict, every
  further dial with the same memo, to whatever address and whatever the network would do, returns
  that verdict again without any input or output.
\<close>

lemma refusal_remembered:
  assumes "w_stopped w \<or> w_ctx w \<noteq> None"
    and "dial_context d (Some mm) w addr = (Inl (Hop p (Some v) c), m', io)"
  shows "dial_context d' m' w' addr' = (Inl (Hop PhaseConnect (Some v) None), m', [])"
proof -
  have "memo_verdict m' = Some v"
  proof (cases "mm_verdict mm")
    case None
    from dial_verdict_kept [OF assms(1) None assms(2)] show ?thesis .
  next
    case (Some v')
    with assms(2) show ?thesis by (auto simp: dial_context_def)
  qed
  then show ?thesis by (simp add: dial_context_def)
qed

theorem refusal_remembered_witness:
  "snd (snd (dial_context demo_dialer (fst (snd (dial_context demo_dialer (Some new_memo) refusing ''h:443'')))
     refusing ''h:80'')) = []"
proof -
  have "w_stopped refusing \<or> w_ctx refusing \<noteq> None" by (simp add: refusing_def)
  from refusal_remembered [OF this refusing_dial [of "''h:443''"], of demo_dialer refusing "''h:80''"]
  show ?thesis by (simp add: refusing_dial)
qed

text \<open>
  The line quoted from a hop's body is a single line of at most 200 bytes, made of bytes of the
  body: the first line without surrounding white space, or, when that is longer, the part of its
  first 200 bytes that is valid UTF-8.
\<close>

theorem verdict_line_bounds:
  "length (verdict_line v) \<le> max_line \<and> newline \<notin> set (verdict_line v) \<and>
   set (verdict_line v) \<subseteq> set (vd_body v) \<and>
   (trim_space (verdict_line v) = verdict_line v \<or> valid_utf8 (verdict_line v))"
proof -
  let ?first = "fst (cut newline (trim_space (vd_body v)))"
  let ?line = "trim_space ?first"
  have first: "newline \<notin> set ?first" "set ?first \<subseteq> set (trim_space (vd_body v))"
    by (rule cut_fst)+
  have trim: "set (trim_space t) \<subseteq> set t" for t unfolding trim_space_def by (rule set_trim_by)
  have line: "newline \<notin> set ?line" "set ?line \<subseteq> set (vd_body v)"
    using first trim [of ?first] trim [of "vd_body v"] by blast+
  show ?thesis
  proof (cases "max_line < length ?line")
    case False
    with line show ?thesis by (simp add: verdict_line_def Let_def) (simp add: trim_space_def)
  next
    case True
    have "set (take max_line ?line) \<subseteq> set ?line" by (rule set_take_subset)
    with True line set_to_valid_utf8 [of "take max_line ?line"] to_valid_utf8_length [of "take max_line ?line"]
    show ?thesis by (auto simp: verdict_line_def Let_def valid_to_valid_utf8)
  qed
qed

section \<open>Building a dialer\<close>

text \<open>What a hop makes of the credentials: the inverse of \<open>base64\<close>.\<close>

definition b64_val :: "char \<Rightarrow> nat" where
  "b64_val c =
     (let n = of_char c in
      if 65 \<le> n \<and> n \<le> 90 then n - 65 else if 97 \<le> n \<and> n \<le> 122 then n - 71
      else if 48 \<le> n \<and> n \<le> 57 then n + 4 else if n = 43 then 62 else 63)"

fun base64_decode :: "string \<Rightarrow> string" where
  "base64_decode (a # b # c # d # s) =
     (let n = ((b64_val a * 64 + b64_val b) * 64 + b64_val c) * 64 + b64_val d in
      if c = CHR ''='' then [char_of ((b64_val a * 64 + b64_val b) div 16)]
      else if d = CHR ''='' then
        [char_of (((b64_val a * 64 + b64_val b) * 64 + b64_val c) div 1024),
         char_of (((b64_val a * 64 + b64_val b) * 64 + b64_val c) div 4)]
      else [char_of (n div 65536), char_of (n div 256), char_of n] @ base64_decode s)"
| "base64_decode _ = []"

lemma b64_val_char: "n < 64 \<Longrightarrow> b64_val (b64_char n) = n"
  by (auto simp: b64_char_def b64_val_def Let_def of_char_of)

lemma b64_char_pad: "n < 64 \<Longrightarrow> b64_char n \<noteq> CHR ''=''"
proof
  assume n: "n < 64" and eq: "b64_char n = CHR ''=''"
  then have "of_char (b64_char n) = (61 :: nat)" by simp
  with n show False by (auto simp: b64_char_def of_char_of split: if_splits)
qed

lemma byte_lt: "(of_char c :: nat) < 256"
  using nat_of_char_less_256 by simp

lemma char_of_low_byte: "n mod 256 = (of_char c :: nat) \<Longrightarrow> char_of n = c"
  by (metis char_of_mod_256 char_of_char)

lemma two_bytes: "x < 256 \<Longrightarrow> y < 256 \<Longrightarrow> (x * 256 + y) * 4 < (262144 :: nat)"
  using mult_le_mono1 [of x 255 256] by simp

lemma three_bytes:
  assumes "x < 256" "y < 256" "z < (256 :: nat)"
  shows "(x * 256 + y) * 256 + z < 16777216"
    and "((x * 256 + y) * 256 + z) div 65536 = x"
    and "((x * 256 + y) * 256 + z) div 256 mod 256 = y"
    and "((x * 256 + y) * 256 + z) mod 256 = z"
proof -
  have m: "x * 256 + y < 65536" using mult_le_mono1 [of x 255 256] assms by simp
  then show "(x * 256 + y) * 256 + z < 16777216"
    using mult_le_mono1 [of "x * 256 + y" 65535 256] assms by simp
  have d: "((x * 256 + y) * 256 + z) div 256 = x * 256 + y" using assms by simp
  then show "((x * 256 + y) * 256 + z) div 256 mod 256 = y" using assms by simp
  have "((x * 256 + y) * 256 + z) div 65536 = ((x * 256 + y) * 256 + z) div 256 div 256"
    by (simp only: div_mult2_eq [symmetric]) simp
  then show "((x * 256 + y) * 256 + z) div 65536 = x" unfolding d using assms by simp
  show "((x * 256 + y) * 256 + z) mod 256 = z"
    using assms(3) by (simp only: mod_mult_self3 mod_less)
qed

lemma sextets_3: "(n div 4096 * 64 + n div 64 mod 64) * 64 + n mod 64 = (n :: nat)"
proof -
  have "n div 4096 = n div 64 div 64" by (simp add: div_mult2_eq [symmetric])
  then show ?thesis by (simp only: div_mult_mod_eq)
qed

lemma sextets_4:
  "((n div 262144 * 64 + n div 4096 mod 64) * 64 + n div 64 mod 64) * 64 + n mod 64 = (n :: nat)"
proof -
  have "n div 262144 = n div 4096 div 64" "n div 4096 = n div 64 div 64"
    by (simp_all add: div_mult2_eq [symmetric])
  then show ?thesis by (simp only: div_mult_mod_eq)
qed

lemma base64_decode_quad:
  assumes "w < 64" "x < 64" "y < 64" "z < 64" "n = ((w * 64 + x) * 64 + y) * 64 + z"
  shows "base64_decode ([b64_char w, b64_char x, b64_char y, b64_char z] @ s) =
    [char_of (n div 65536), char_of (n div 256), char_of n] @ base64_decode s"
  using assms by (simp add: Let_def b64_val_char b64_char_pad)

lemma base64_decode_base64: "base64_decode (base64 s) = s"
proof (induction s rule: base64.induct)
  case (2 a)
  have d: "of_char a * 16 div 64 < (64 :: nat)" "of_char a * 16 mod 64 < (64 :: nat)"
    using byte_lt [of a] by (auto simp: less_mult_imp_div_less)
  have "(of_char a * 16 div 64 * 64 + of_char a * 16 mod 64) div 16 = (of_char a :: nat)" by presburger
  then show ?case using d by (simp add: Let_def b64_val_char)
next
  case (3 a b)
  let ?n = "(of_char a * 256 + of_char b) * 4 :: nat"
  have lt: "?n < 262144" by (rule two_bytes [OF byte_lt byte_lt])
  then have d: "?n div 4096 < 64" "?n div 64 mod 64 < 64" "?n mod 64 < 64" by auto
  have "(?n div 4096 * 64 + ?n div 64 mod 64) * 64 + ?n mod 64 = ?n" by (rule sextets_3)
  moreover have "char_of (?n div 1024) = a" "char_of (?n div 4) = b"
    using byte_lt [of a] byte_lt [of b] by (auto intro!: char_of_low_byte)
  ultimately show ?case using d by (simp add: Let_def b64_val_char b64_char_pad)
next
  case (4 a b c s)
  let ?n = "(of_char a * 256 + of_char b) * 256 + of_char c :: nat"
  have lt: "?n < 16777216" by (rule three_bytes(1) [OF byte_lt byte_lt byte_lt])
  then have d: "?n div 262144 < 64" "?n div 4096 mod 64 < 64" "?n div 64 mod 64 < 64" "?n mod 64 < 64"
    by auto
  have "((?n div 262144 * 64 + ?n div 4096 mod 64) * 64 + ?n div 64 mod 64) * 64 + ?n mod 64 = ?n"
    by (rule sextets_4)
  moreover have "char_of (?n div 65536) = a" "char_of (?n div 256) = b" "char_of ?n = c"
    using three_bytes(2-4) [OF byte_lt byte_lt byte_lt, of a b c] byte_lt [of a]
    by (auto intro!: char_of_low_byte simp only: mod_less)
  ultimately show ?case
    unfolding base64.simps Let_def base64_decode_quad [OF d refl] by (simp only: 4 append.simps)
qed simp

text \<open>
  C30. A dialer is made for exactly the http and https proxies that name a host. Its address splits
  back into the host and the port, the scheme's default when none is written; the hop decodes the
  credentials of the URL from its authorization, which is empty when there are none; TLS is used
  for https proxies only, offering HTTP/1.1, with the verification setting it was given, and
  under the proxy's name when none was set.
\<close>

theorem new_dialer_sound:
  "(is_err (new_dialer u cfg) \<longleftrightarrow> u_scheme u \<notin> {''http'', ''https''} \<or> url_hostname u = []) \<and>
   (\<forall>d. new_dialer u cfg = Inr d \<longrightarrow>
      (set (url_hostname u) \<inter> set ''[]'' = {} \<longrightarrow>
         split_host_port (dl_host d) = Some (url_hostname u,
           if url_port u \<noteq> [] then url_port u else if u_scheme u = ''http'' then ''80'' else ''443'')) \<and>
      (case u_user u of
         None \<Rightarrow> dl_auth d = []
       | Some (name, password) \<Rightarrow>
           (\<exists>b. dl_auth d = ''Basic '' @ b \<and>
              base64_decode b = name @ '':'' @ (case password of Some p \<Rightarrow> p | None \<Rightarrow> []))) \<and>
      (case dl_tls d of
         None \<Rightarrow> u_scheme u = ''http''
       | Some c \<Rightarrow> u_scheme u = ''https'' \<and> tc_next_protos c = [''http/1.1''] \<and>
           tc_insecure c = (\<exists>c'. cfg = Some c' \<and> tc_insecure c') \<and>
           ((\<nexists>c'. cfg = Some c' \<and> tc_server_name c' \<noteq> []) \<longrightarrow> tc_server_name c = url_hostname u)))"
proof (intro conjI allI impI)
  show "is_err (new_dialer u cfg) \<longleftrightarrow> u_scheme u \<notin> {''http'', ''https''} \<or> url_hostname u = []"
    by (simp add: new_dialer_def)
  fix d assume d: "new_dialer u cfg = Inr d"
  then have s: "u_scheme u = ''http'' \<or> u_scheme u = ''https''"
    and eq: "d = \<lparr>dl_host = join_host_port (url_hostname u) (hop_port u), dl_auth = hop_auth u,
                dl_tls = hop_tls u cfg\<rparr>"
    by (auto simp: new_dialer_def split: if_splits)
  have p: "list_all is_digit (hop_port u)"
    using url_port_digits [of u] by (simp add: hop_port_def is_digit_def Let_def)
  then have "CHR '':'' \<notin> set (hop_port u)" "CHR ''['' \<notin> set (hop_port u)" "CHR '']'' \<notin> set (hop_port u)"
    by (auto simp: list_all_iff is_digit_def)
  then show "split_host_port (dl_host d) = Some (url_hostname u,
      if url_port u \<noteq> [] then url_port u else if u_scheme u = ''http'' then ''80'' else ''443'')"
    if "set (url_hostname u) \<inter> set ''[]'' = {}"
    using that s split_join_host_port [of "url_hostname u" "hop_port u"] by (auto simp: eq hop_port_def)
  show "case u_user u of
      None \<Rightarrow> dl_auth d = []
    | Some (name, password) \<Rightarrow>
        (\<exists>b. dl_auth d = ''Basic '' @ b \<and>
           base64_decode b = name @ '':'' @ (case password of Some p \<Rightarrow> p | None \<Rightarrow> []))"
    by (auto simp: eq hop_auth_def base64_decode_base64 split: option.splits)
  show "case dl_tls d of
      None \<Rightarrow> u_scheme u = ''http''
    | Some c \<Rightarrow> u_scheme u = ''https'' \<and> tc_next_protos c = [''http/1.1''] \<and>
        tc_insecure c = (\<exists>c'. cfg = Some c' \<and> tc_insecure c') \<and>
        ((\<nexists>c'. cfg = Some c' \<and> tc_server_name c' \<noteq> []) \<longrightarrow> tc_server_name c = url_hostname u)"
  proof (cases "u_scheme u = ''https''")
    case True
    then show ?thesis
      by (cases cfg) (simp_all add: eq hop_tls_def no_tls_config_def Let_def)
  next
    case False
    with s show ?thesis by (simp add: eq hop_tls_def)
  qed
qed

theorem new_dialer_sound_witness:
  "\<exists>d. new_dialer \<lparr>u_scheme = ''http'', u_user = Some (''u'', Some ''pw''), u_host = ''proxy'', u_path = []\<rparr> None = Inr d \<and>
     split_host_port (dl_host d) = Some (''proxy'', ''80'') \<and>
     (\<exists>b. dl_auth d = ''Basic '' @ b \<and> base64_decode b = ''u:pw'')"
proof -
  let ?u = "\<lparr>u_scheme = ''http'', u_user = Some (''u'', Some ''pw''), u_host = ''proxy'', u_path = []\<rparr>"
  have h: "url_hostname ?u = ''proxy''" "url_port ?u = []" by code_simp+
  then obtain d where d: "new_dialer ?u None = Inr d" by (simp add: new_dialer_def)
  from new_dialer_sound [of ?u None, THEN conjunct2, rule_format, OF d] h
  have "split_host_port (dl_host d) = Some (''proxy'', ''80'')"
    "\<exists>b. dl_auth d = ''Basic '' @ b \<and> base64_decode b = ''u:pw''" by simp_all
  with d show ?thesis by blast
qed

end
