(* ===== verification/Tip_Redact.thy ===== *)
theory Tip_Redact
  imports Tip_Strings
begin

text \<open>
  Keeping secrets out of logs and headers (\<^verbatim>\<open>internal/logging/redact.go\<close>) and the choice of the
  logger (\<^verbatim>\<open>logging.go\<close>). The regular expression is its leftmost-first match, written out:
  a scheme, \<^verbatim>\<open>://\<close>, and everything up to the last \<^verbatim>\<open>@\<close> before a slash or white space.
\<close>

section \<open>Header values\<close>

definition redacted :: string where
  "redacted = ''[redacted]''"

definition new_redactor :: "string list \<Rightarrow> string set" where
  "new_redactor ns = set (map to_lower ns)"

definition redactor_value :: "string set \<Rightarrow> string \<Rightarrow> string \<Rightarrow> string" where
  "redactor_value r name value = (if to_lower name \<in> r then redacted else value)"

lemma redactor_value_iff:
  "redactor_value (new_redactor ns) name value =
     (if \<exists>n \<in> set ns. equal_fold n name then redacted else value)"
  by (auto simp: redactor_value_def new_redactor_def equal_fold_def) (metis image_eqI)

section \<open>Userinfo\<close>

text \<open>\<^verbatim>\<open>[a-z0-9+.\-]\<close> under \<^verbatim>\<open>(?i)\<close>, \<^verbatim>\<open>[^/\s]\<close> (\<^verbatim>\<open>\s\<close> has no vertical tab).\<close>

definition scheme_char :: "char \<Rightarrow> bool" where
  "scheme_char c = (is_alpha c \<or> is_digit c \<or> c = CHR ''+'' \<or> c = CHR ''.'' \<or> c = CHR ''-'')"

definition user_char :: "char \<Rightarrow> bool" where
  "user_char c = (c \<noteq> CHR ''/'' \<and> of_char c \<notin> {9, 10, 12, 13, 32 :: nat})"

text \<open>The text after the last \<^verbatim>\<open>@\<close> of a string, if it has one.\<close>

definition after_last_at :: "string \<Rightarrow> string option" where
  "after_last_at s = map_option (\<lambda>i. drop (Suc i) s) (last_index CHR ''@'' s)"

text \<open>A match at the start of the text: the first group and the text after the match.\<close>

definition userinfo_match :: "string \<Rightarrow> (string \<times> string) option" where
  "userinfo_match s =
     (let scheme = takeWhile scheme_char s; rest = dropWhile scheme_char s in
      if scheme \<noteq> [] \<and> is_alpha (hd scheme) \<and> has_prefix ''://'' rest then
        (let body = drop 3 rest in
         map_option (\<lambda>u. (scheme @ ''://'', u @ dropWhile user_char body))
           (after_last_at (takeWhile user_char body)))
      else None)"

lemma after_last_at_length: "after_last_at s = Some t \<Longrightarrow> length t < length s"
proof -
  have "last_index c s = Some i \<Longrightarrow> i < length s" for c i
    by (induction s arbitrary: i) (auto split: option.splits if_splits)
  then show "after_last_at s = Some t \<Longrightarrow> length t < length s"
    by (fastforce simp: after_last_at_def)
qed

lemma userinfo_match_shorter: "userinfo_match s = Some (g, t) \<Longrightarrow> length t < length s"
proof -
  assume "userinfo_match s = Some (g, t)"
  then obtain u where t: "t = u @ dropWhile user_char (drop 3 (dropWhile scheme_char s))"
    and u: "after_last_at (takeWhile user_char (drop 3 (dropWhile scheme_char s))) = Some u"
    by (auto simp: userinfo_match_def Let_def split: if_splits)
  have "length t < length (drop 3 (dropWhile scheme_char s))"
    using after_last_at_length [OF u]
    by (metis t add_less_cancel_right length_append takeWhile_dropWhile_id)
  also have "\<dots> \<le> length s" by (simp add: length_dropWhile_le order_trans [OF diff_le_self])
  finally show ?thesis .
qed

text \<open>\<^verbatim>\<open>ReplaceAllString(s, "${1}***@")\<close>.\<close>

function redact_userinfo :: "string \<Rightarrow> string" where
  "redact_userinfo [] = []"
| "redact_userinfo (c # s) =
     (case userinfo_match (c # s) of
        Some (scheme, after) \<Rightarrow> scheme @ ''***@'' @ redact_userinfo after
      | None \<Rightarrow> c # redact_userinfo s)"
  by pat_completeness auto
termination
  by (relation "measure length") (auto dest: userinfo_match_shorter)

section \<open>The logger\<close>

datatype log_format = JsonFormat | TextFormat

datatype log_error = BadLevel string | BadFormat string

text \<open>\<open>parse_level\<close> is \<^verbatim>\<open>slog.Level.UnmarshalText\<close>.\<close>

definition new_logger ::
  "(string \<Rightarrow> 'level option) \<Rightarrow> string \<Rightarrow> string \<Rightarrow> (log_error, 'level \<times> log_format) result" where
  "new_logger parse_level level format =
     (case parse_level level of
        None \<Rightarrow> Inl (BadLevel level)
      | Some l \<Rightarrow>
          if format = ''json'' then Inr (l, JsonFormat)
          else if format = ''text'' then Inr (l, TextFormat)
          else Inl (BadFormat format))"

section \<open>Nothing of the credentials is left\<close>

lemma last_index_append_left: "c \<notin> set b \<Longrightarrow> last_index c (a @ b) = last_index c a"
  by (induction a) (auto simp: last_index_None split: option.splits)

lemma last_index_append_right:
  "last_index c b = Some i \<Longrightarrow> last_index c (a @ b) = Some (length a + i)"
  by (induction a) auto

lemma after_last_at_right:
  "after_last_at (a @ CHR ''@'' # v) = Some (case after_last_at v of None \<Rightarrow> v | Some t \<Rightarrow> t)"
proof (cases "last_index CHR ''@'' v")
  case None
  then have "CHR ''@'' \<notin> set v" by (metis last_index_append option.distinct(1) split_list_last)
  with None show ?thesis by (simp add: after_last_at_def last_index_append)
next
  case (Some i)
  then have "last_index CHR ''@'' (a @ CHR ''@'' # v) = Some (length a + Suc i)"
    by (intro last_index_append_right) simp
  with Some show ?thesis by (simp add: after_last_at_def)
qed

lemma after_last_at_left:
  "CHR ''@'' \<notin> set b \<Longrightarrow> after_last_at (a @ b) = map_option (\<lambda>t. t @ b) (after_last_at a)"
proof -
  have "last_index c a = Some i \<Longrightarrow> i < length a" for c i and a :: string
    by (induction a arbitrary: i) (auto split: option.splits if_splits)
  then show "CHR ''@'' \<notin> set b \<Longrightarrow> ?thesis"
    by (cases "last_index CHR ''@'' a") (auto simp: after_last_at_def last_index_append_left, fastforce)
qed

definition url_scheme :: "string \<Rightarrow> bool" where
  "url_scheme sch = (sch \<noteq> [] \<and> is_alpha (hd sch) \<and> list_all scheme_char sch)"

lemma scheme_user_char: "scheme_char c \<Longrightarrow> user_char c \<and> c \<noteq> CHR ''@''"
  by (auto simp: scheme_char_def user_char_def is_alpha_def is_digit_def Let_def)

lemma colon_chars: "\<not> scheme_char CHR '':''" "user_char CHR '':''" "\<not> user_char CHR ''/''" "user_char CHR ''@''"
  by code_simp+

lemma takeWhile_scheme:
  "list_all scheme_char a \<Longrightarrow> takeWhile scheme_char (a @ '':'' @ r) = a"
  "list_all scheme_char a \<Longrightarrow> dropWhile scheme_char (a @ '':'' @ r) = '':'' @ r"
  by (simp_all add: takeWhile_append2 dropWhile_append2 list_all_iff colon_chars)

text \<open>A URL of its own is matched up to the last \<^verbatim>\<open>@\<close> of its authority.\<close>

definition after_authority :: "string \<Rightarrow> string" where
  "after_authority rest =
     (case after_last_at (takeWhile user_char rest) of
        None \<Rightarrow> takeWhile user_char rest | Some t \<Rightarrow> t) @ dropWhile user_char rest"

lemma userinfo_match_url:
  assumes "sch \<noteq> []" "is_alpha (hd sch)" "list_all scheme_char sch" "list_all user_char u"
  shows "userinfo_match (sch @ ''://'' @ u @ ''@'' @ rest) = Some (sch @ ''://'', after_authority rest)"
proof -
  have "takeWhile user_char (u @ ''@'' @ rest) = u @ CHR ''@'' # takeWhile user_char rest"
    "dropWhile user_char (u @ ''@'' @ rest) = dropWhile user_char rest"
    using assms(4) by (simp_all add: takeWhile_append2 dropWhile_append2 list_all_iff colon_chars)
  then show ?thesis
    using assms takeWhile_scheme [OF assms(3), of "''//'' @ u @ ''@'' @ rest"]
    by (simp add: userinfo_match_def Let_def has_prefix_def after_last_at_right after_authority_def)
qed

lemma not_list_all: "\<not> list_all P xs \<Longrightarrow> \<exists>a d b. xs = a @ d # b \<and> list_all P a \<and> \<not> P d"
  using split_list_first_prop [of xs "\<lambda>x. \<not> P x"] by (auto simp: list_all_iff)

text \<open>
  Before the URL, a match ends before it, or starts in a scheme that runs into it, or there is none;
  in no case does it depend on the credentials.
\<close>

lemma userinfo_match_before:
  assumes sch: "url_scheme sch" and pre: "pre \<noteq> []"
    and S: "\<And>u. S u = sch @ ''://'' @ u @ ''@'' @ rest"
  shows "(\<exists>g. \<forall>u. list_all user_char u \<longrightarrow> userinfo_match (pre @ S u) = Some (g, after_authority rest)) \<or>
    (\<forall>u. userinfo_match (pre @ S u) = None) \<or>
    (\<exists>g t. length t < length pre \<and> (\<forall>u. userinfo_match (pre @ S u) = Some (g, t @ S u)))"
proof (cases "list_all scheme_char pre")
  case True
  with sch have all: "list_all scheme_char (pre @ sch)" by (simp add: url_scheme_def)
  show ?thesis
  proof (cases "is_alpha (hd pre)")
    case True
    then have "list_all user_char u \<longrightarrow>
        userinfo_match (pre @ S u) = Some ((pre @ sch) @ ''://'', after_authority rest)" for u
      using userinfo_match_url [of "pre @ sch" u rest] all pre by (simp add: S)
    then show ?thesis by blast
  next
    case False
    then have "userinfo_match (pre @ S u) = None" for u
      using takeWhile_scheme(1) [OF all, of "''//'' @ u @ ''@'' @ rest"] pre
      by (simp add: userinfo_match_def Let_def S)
    then show ?thesis by blast
  qed
next
  case False
  then obtain a d b where p: "pre = a @ d # b" and a: "list_all scheme_char a" and d: "\<not> scheme_char d"
    using not_list_all by blast
  have tw: "takeWhile scheme_char (pre @ r) = a" "dropWhile scheme_char (pre @ r) = d # b @ r" for r
    using a d by (simp_all add: p takeWhile_append2 dropWhile_append2 list_all_iff)
  from sch obtain c sch' where c: "sch = c # sch'" "is_alpha c" by (cases sch) (auto simp: url_scheme_def)
  then have nc: "c \<noteq> CHR ''/''" by (auto simp: is_alpha_def)
  have pref: "has_prefix ''://'' (d # b @ S u) \<longleftrightarrow> has_prefix ''://'' (d # b)" for u
    using nc by (cases b; cases "tl b") (auto simp: has_prefix_def S c)
  show ?thesis
  proof (cases "a \<noteq> [] \<and> is_alpha (hd a) \<and> has_prefix ''://'' (d # b)")
    case False
    then have "userinfo_match (pre @ S u) = None" for u
      using pref [of u] by (auto simp: userinfo_match_def Let_def tw)
    then show ?thesis by blast
  next
    case True
    then obtain b' where b': "d # b = ''://'' @ b'" by (auto simp: has_prefix_iff)
    have body: "drop 3 (dropWhile scheme_char (pre @ S u)) = b' @ S u" for u
      using b' by (simp add: tw)
    have len: "length b' < length pre" using b' by (simp add: p)
    show ?thesis
    proof (cases "list_all user_char b'")
      case users: True
      have split: "takeWhile user_char (b' @ S u) = b' @ sch @ '':''"
        "dropWhile user_char (b' @ S u) = ''//'' @ u @ ''@'' @ rest" for u
        using users sch scheme_user_char
        by (simp_all add: S url_scheme_def list_all_iff takeWhile_append2 dropWhile_append2 colon_chars)
      have no_at: "CHR ''@'' \<notin> set (sch @ '':'')"
        using sch scheme_user_char by (auto simp: url_scheme_def list_all_iff)
      have m: "userinfo_match (pre @ S u) =
          map_option (\<lambda>t. (a @ ''://'', t @ S u)) (after_last_at b')" for u
        using True b' after_last_at_left [OF no_at, of b'] pref [of u]
        by (simp add: userinfo_match_def Let_def tw body [unfolded tw] split option.map_comp comp_def)
          (simp add: S)
      show ?thesis
      proof (cases "after_last_at b'")
        case None
        with m show ?thesis by simp
      next
        case (Some t)
        with m have "userinfo_match (pre @ S u) = Some (a @ ''://'', t @ S u)" for u by simp
        moreover have "length t < length pre" using after_last_at_length [OF Some] len by simp
        ultimately show ?thesis by blast
      qed
    next
      case False
      then obtain x y z where b: "b' = x @ y # z" "list_all user_char x" "\<not> user_char y"
        using not_list_all by blast
      then have split: "takeWhile user_char (b' @ S u) = x" "dropWhile user_char (b' @ S u) = y # z @ S u" for u
        by (simp_all add: takeWhile_append2 dropWhile_append2 list_all_iff)
      have m: "userinfo_match (pre @ S u) =
          map_option (\<lambda>t. (a @ ''://'', (t @ y # z) @ S u)) (after_last_at x)" for u
        using True b' pref [of u] by (simp add: userinfo_match_def Let_def tw body [unfolded tw] split)
      show ?thesis
      proof (cases "after_last_at x")
        case None
        with m show ?thesis by simp
      next
        case (Some t)
        with m have "userinfo_match (pre @ S u) = Some (a @ ''://'', (t @ y # z) @ S u)" for u by simp
        moreover have "length (t @ y # z) < length pre" using after_last_at_length [OF Some] len b by simp
        ultimately show ?thesis by blast
      qed
    qed
  qed
qed



end
