(* ===== verification/Tip_Directive.thy ===== *)
theory Tip_Directive
  imports Tip_Schema Tip_Headers
begin

text \<open>
  The data of \<^verbatim>\<open>internal/directive\<close>: the parsed directive, the fingerprint spec made of
  it, the operator's policy, and validation issues with their rendering (\<^verbatim>\<open>directive.go\<close>,
  \<^verbatim>\<open>spec.go\<close>, \<^verbatim>\<open>issues.go\<close>, the types of \<^verbatim>\<open>policy.go\<close>).
\<close>

section \<open>Settings and directives\<close>

record http2 =
  h2_header_table_size :: "u32 option"
  h2_enable_push :: "u32 option"
  h2_max_concurrent_streams :: "u32 option"
  h2_initial_window_size :: "u32 option"
  h2_max_frame_size :: "u32 option"
  h2_max_header_list_size :: "u32 option"
  h2_no_rfc7540_priorities :: "u32 option"
  h2_connection_flow :: "u32 option"
  h2_initial_stream_id :: "u32 option"

record http3 =
  h3_qpack_max_table_capacity :: "u64 option"
  h3_max_field_section_size :: "u64 option"
  h3_qpack_blocked_streams :: "u64 option"
  h3_enable_connect_protocol :: "u64 option"
  h3_settings_h3_datagram :: "u64 option"
  h3_h3_datagram :: "u64 option"
  h3_enable_webtransport :: "u64 option"
  h3_grease :: bool
  h3_order :: "string list"

text \<open>
  \<^verbatim>\<open>Directive\<close>. A \<^verbatim>\<open>time.Duration\<close> is its number of nanoseconds; the set
  \<^verbatim>\<open>fromRequest\<close> is the keys the request itself named.
\<close>

record directive =
  d_browser :: "string list"
  d_os :: "string list"
  d_ja :: string
  d_http2 :: "http2 option"
  d_http3 :: "http3 option"
  d_force_http :: string
  d_proxy :: string
  d_timeout :: int
  d_dns :: string
  d_dns_over_tls :: string
  d_interface_addr :: string
  d_secure_tls :: bool
  d_disable_keep_alive :: bool
  d_h2c :: bool
  d_scheme :: string
  d_keep :: "string list"
  d_match :: bool
  d_profile :: string
  d_from_request :: "string set"

definition zero_directive :: directive where
  "zero_directive =
     \<lparr>d_browser = [], d_os = [], d_ja = [], d_http2 = None, d_http3 = None, d_force_http = [],
      d_proxy = [], d_timeout = 0, d_dns = [], d_dns_over_tls = [], d_interface_addr = [],
      d_secure_tls = False, d_disable_keep_alive = False, d_h2c = False, d_scheme = [],
      d_keep = [], d_match = False, d_profile = [], d_from_request = {}\<rparr>"

text \<open>The test of the whole schema: a profile is not combined with a browser, an OS or Match.\<close>

definition schema_test :: "directive \<Rightarrow> bool" where
  "schema_test d = (d_profile d = [] \<or> (d_browser d = [] \<and> d_os d = [] \<and> \<not> d_match d))"

definition from_request :: "directive \<Rightarrow> string \<Rightarrow> bool" where
  "from_request d name = (to_lower name \<in> d_from_request d)"

record spec =
  s_browser :: string
  s_os :: string
  s_ja :: string
  s_http2 :: "http2 option"
  s_http3 :: "http3 option"
  s_force_http :: string
  s_proxy :: string
  s_dns :: string
  s_dns_over_tls :: string
  s_interface_addr :: string
  s_secure_tls :: bool
  s_disable_keep_alive :: bool
  s_h2c :: bool

section \<open>Issues\<close>

record issue =
  i_path :: string
  i_message :: string

definition issue_string :: "issue \<Rightarrow> string" where
  "issue_string i = (if i_path i = [] then i_message i else i_path i @ '': '' @ i_message i)"

definition issues_error :: "issue list \<Rightarrow> string" where
  "issues_error is = join ''; '' (map issue_string is)"

text \<open>\<^verbatim>\<open>singleLine\<close>: carriage returns and newlines become spaces.\<close>

definition single_line :: "string \<Rightarrow> string" where
  "single_line s = map (\<lambda>c. if of_char c \<in> {10, 13 :: nat} then CHR '' '' else c) s"

definition issues_headers :: "issue list \<Rightarrow> header" where
  "issues_headers is =
     fold (\<lambda>i h. h_add ''X-Tip-Error'' (single_line (issue_string i)) h) is
       (h_set ''X-Tip-Error-Count'' (itoa (length is)) [])"

definition no_crlf :: "string \<Rightarrow> bool" where
  "no_crlf s = list_all (\<lambda>c. of_char c \<noteq> (10 :: nat) \<and> of_char c \<noteq> (13 :: nat)) s"

lemma single_line_no_crlf [simp]: "no_crlf (single_line s)"
  by (auto simp: no_crlf_def single_line_def list_all_iff)

lemma single_line_length [simp]: "length (single_line s) = length s"
  by (simp add: single_line_def)

lemma single_line_id: "no_crlf s \<Longrightarrow> single_line s = s"
  unfolding no_crlf_def single_line_def list_all_iff by (rule map_idI) auto

lemma canonical_error_names [simp]:
  "canonical_key ''X-Tip-Error'' = ''X-Tip-Error''"
  "canonical_key ''X-Tip-Error-Count'' = ''X-Tip-Error-Count''"
  by code_simp+

lemma raw_values_issue_lines:
  "raw_values (fold (\<lambda>i h. h_add k (g i) h) is h) n =
     (if n = canonical_key k then raw_values h n @ map g is else raw_values h n)"
  by (induction "is" arbitrary: h) (auto simp: raw_values_add)

text \<open>The rejection carries one line per issue, in order, and their number.\<close>

lemma issues_headers_values:
  "raw_values (issues_headers is) ''X-Tip-Error'' = map (single_line \<circ> issue_string) is"
  "raw_values (issues_headers is) ''X-Tip-Error-Count'' = [itoa (length is)]"
  by (simp_all add: issues_headers_def raw_values_issue_lines raw_values_set comp_def)
    (simp add: raw_values_def)

section \<open>Policy\<close>

record policy =
  p_defaults :: "string \<rightharpoonup> val"
  p_deny :: "string set"
  p_proxy_hosts :: "string list"
  p_require_proxy :: bool

definition empty_policy :: policy where
  "empty_policy =
     \<lparr>p_defaults = Map.empty, p_deny = {}, p_proxy_hosts = [], p_require_proxy = False\<rparr>"

lemma empty_policy_simps [simp]:
  "p_defaults empty_policy = Map.empty" "p_deny empty_policy = {}"
  "p_proxy_hosts empty_policy = []" "\<not> p_require_proxy empty_policy"
  by (simp_all add: empty_policy_def)

definition denied :: "policy \<Rightarrow> string \<Rightarrow> bool" where
  "denied p key = (key \<in> p_deny p)"

definition host_message :: "policy \<Rightarrow> string" where
  "host_message p = ''host must be one of '' @ join '', '' (p_proxy_hosts p)"

text \<open>\<^verbatim>\<open>strings.Trim(pattern, "[]")\<close>.\<close>

definition trim_brackets :: "string \<Rightarrow> string" where
  "trim_brackets = trim_by (\<lambda>c. c = CHR ''['' \<or> c = CHR '']'')"

definition split_pattern :: "string \<Rightarrow> string \<times> string" where
  "split_pattern pattern =
     (case split_host_port pattern of
        Some hp \<Rightarrow> hp
      | None \<Rightarrow> (trim_brackets pattern, []))"

definition pattern_matches :: "string \<Rightarrow> string \<Rightarrow> string \<Rightarrow> bool" where
  "pattern_matches name uport pattern =
     (case split_pattern pattern of
        (host, port) \<Rightarrow>
          if port \<noteq> [] \<and> port \<noteq> uport then False
          else host = name \<or> has_prefix ''*.'' host \<and> has_suffix (drop 1 host) name)"

definition proxy_allowed :: "url_parser \<Rightarrow> policy \<Rightarrow> string \<Rightarrow> bool" where
  "proxy_allowed url_parse p raw =
     (if p_proxy_hosts p = [] then True
      else (case url_parse raw of
              None \<Rightarrow> False
            | Some u \<Rightarrow>
                list_ex (pattern_matches (to_lower (url_hostname u)) (url_port u))
                  (p_proxy_hosts p)))"

end
