(* ===== verification/Tip_Parse.thy ===== *)
theory Tip_Parse
  imports Tip_Directive
begin

text \<open>
  From request headers to a directive (\<^verbatim>\<open>internal/directive/parse.go\<close>) and the operator's
  policy (\<^verbatim>\<open>policy.go\<close>). The validation library's run of the schema is the argument
  \<open>zog\<close>: it takes the merged input map and gives the directive it filled and its issues.
  Everything proved here holds for every such function. A header is visited in the order of the
  association list, which stands for Go's unspecified map order.
\<close>

section \<open>Shapes\<close>

text \<open>\<^verbatim>\<open>hasPrefix\<close>: a name that starts with X-Tip-, in any case.\<close>

definition tip_prefix :: string where
  "tip_prefix = ''X-Tip-''"

definition is_tip :: "string \<Rightarrow> bool" where
  "is_tip name =
     (length tip_prefix \<le> length name \<and> equal_fold (take (length tip_prefix) name) tip_prefix)"

definition tip_key :: "string \<Rightarrow> string" where
  "tip_key name = to_lower (drop (length tip_prefix) name)"

datatype value_shape = ShapeScalar | ShapeList | ShapeKV

definition shapes :: "string \<Rightarrow> value_shape" where
  "shapes key =
     (if key \<in> {''browser'', ''os'', ''keep''} then ShapeList
      else if key \<in> {''http2settings'', ''http3settings''} then ShapeKV
      else ShapeScalar)"

definition split_list :: "string \<Rightarrow> string list" where
  "split_list raw = map (\<lambda>part. to_lower (trim_string part)) (split_on CHR '','' raw)"

text \<open>\<^verbatim>\<open>http.ParseCookie\<close>, whose grammar the settings use.\<close>

definition cookie_value_byte :: "char \<Rightarrow> bool" where
  "cookie_value_byte c =
     (let n = of_char c :: nat in 32 \<le> n \<and> n < 127 \<and> n \<noteq> 34 \<and> n \<noteq> 59 \<and> n \<noteq> 92)"

definition parse_cookie_value :: "string \<Rightarrow> string option" where
  "parse_cookie_value raw =
     (let v = (if 1 < length raw \<and> of_char (hd raw) = (34 :: nat) \<and> of_char (last raw) = (34 :: nat)
               then butlast (tl raw) else raw)
      in if list_all cookie_value_byte v then Some v else None)"

definition parse_cookie_part :: "string \<Rightarrow> (string, string \<times> string) result" where
  "parse_cookie_part part =
     (case cut CHR ''='' (trim_string part) of
        (name, value, found) \<Rightarrow>
          if \<not> found then Inl ''http: '=' not found in cookie''
          else if \<not> is_token name then Inl ''http: invalid cookie name''
          else (case parse_cookie_value value of
                  None \<Rightarrow> Inl ''http: invalid cookie value''
                | Some v \<Rightarrow> Inr (name, v)))"

fun parse_cookie_parts :: "string list \<Rightarrow> (string, (string \<times> string) list) result" where
  "parse_cookie_parts [] = Inr []"
| "parse_cookie_parts (p # ps) =
     (case parse_cookie_part p of
        Inl e \<Rightarrow> Inl e
      | Inr nv \<Rightarrow>
          (case parse_cookie_parts ps of Inl e \<Rightarrow> Inl e | Inr nvs \<Rightarrow> Inr (nv # nvs)))"

definition parse_cookie :: "string \<Rightarrow> (string, (string \<times> string) list) result" where
  "parse_cookie line =
     (let parts = split_on CHR '';'' (trim_string line)
      in if parts = [[]] then Inl ''http: blank cookie'' else parse_cookie_parts parts)"

text \<open>The loop of \<^verbatim>\<open>parsePairs\<close> over the pairs, with the map and the order built so far.\<close>

fun collect_pairs ::
  "string list \<Rightarrow> (string \<times> string) list \<Rightarrow> (string \<times> string) list \<Rightarrow> string list \<Rightarrow> (string, val) result"
  where
  "collect_pairs allowed [] out order = Inr (VPairs out order)"
| "collect_pairs allowed ((n, v) # pairs) out order =
     (let name = to_lower n in
      if name \<notin> set allowed then Inl (''unknown key '' @ n)
      else if map_of out name \<noteq> None then Inl (official_name name @ '' given more than once'')
      else collect_pairs allowed pairs (AList.update name v out) (order @ [name]))"

definition parse_pairs :: "string \<Rightarrow> string \<Rightarrow> (string, val) result" where
  "parse_pairs key raw =
     (case parse_cookie raw of
        Inl e \<Rightarrow> Inl (''must be Key=Value pairs separated by semicolons: '' @ e)
      | Inr pairs \<Rightarrow> collect_pairs (kv_keys key) pairs [] [])"

text \<open>
  \<^verbatim>\<open>shapeValue\<close>. \<open>None\<close> is the panic of \<^verbatim>\<open>values[0]\<close> on an entry without values, which
  no header read from a connection has.
\<close>

definition shape_value :: "string \<Rightarrow> string list \<Rightarrow> (string, val) result option" where
  "shape_value key values =
     (case shapes key of
        ShapeList \<Rightarrow>
          (let raw = join '','' values in
           if trim_space raw = [] then Some (Inl ''must not be empty'')
           else Some (Inr (VList (split_list raw))))
      | ShapeKV \<Rightarrow> Some (parse_pairs key (join '';'' values))
      | ShapeScalar \<Rightarrow>
          if 1 < length values then Some (Inl ''sent more than once'')
          else (case values of
                  [] \<Rightarrow> None
                | v # _ \<Rightarrow>
                    if trim_space v = [] then Some (Inl ''must not be empty'')
                    else Some (Inr (VStr v))))"

section \<open>Parse\<close>

type_synonym pstate = "(string \<rightharpoonup> val) \<times> issue list"

definition header_step :: "policy \<Rightarrow> string \<times> string list \<Rightarrow> pstate \<Rightarrow> pstate option" where
  "header_step p entry st =
     (case entry of (name, values) \<Rightarrow> case st of (req, issues) \<Rightarrow>
        if \<not> is_tip name then Some (req, issues)
        else
          (let key = tip_key name in
           if \<not> is_known key then
             Some (req, issues @ [\<lparr>i_path = name, i_message = ''unknown directive''\<rparr>])
           else if denied p key then
             Some (req, issues @ [\<lparr>i_path = official_name key,
                                   i_message = ''not permitted by this proxy''\<rparr>])
           else
             (case shape_value key values of
                None \<Rightarrow> None
              | Some (Inl err) \<Rightarrow>
                  Some (req, issues @ [\<lparr>i_path = official_name key, i_message = err\<rparr>])
              | Some (Inr shaped) \<Rightarrow> Some (req(key \<mapsto> shaped), issues))))"

fun header_loop :: "policy \<Rightarrow> header \<Rightarrow> pstate \<Rightarrow> pstate option" where
  "header_loop p [] st = Some st"
| "header_loop p (e # h) st =
     (case header_step p e st of None \<Rightarrow> None | Some st' \<Rightarrow> header_loop p h st')"

text \<open>A default gives way to the request's directive, or to one of the other identity group.\<close>

definition displaced :: "(string \<rightharpoonup> val) \<Rightarrow> string \<Rightarrow> bool" where
  "displaced req key =
     (if req key \<noteq> None then True
      else if key \<in> {''browser'', ''os'', ''match''} then req ''profile'' \<noteq> None
      else if key = ''profile'' then
        list_ex (\<lambda>other. req other \<noteq> None) [''browser'', ''os'', ''match'']
      else False)"

definition merge_defaults :: "policy \<Rightarrow> (string \<rightharpoonup> val) \<Rightarrow> (string \<rightharpoonup> val)" where
  "merge_defaults p req = (\<lambda>key. if displaced req key then None else p_defaults p key) ++ req"

record zissue =
  z_path :: "string list"
  z_message :: string

type_synonym zog = "(string \<rightharpoonup> val) \<Rightarrow> directive \<times> zissue list"

text \<open>\<^verbatim>\<open>renderPath\<close>: the accumulator is the text written so far.\<close>

fun render_segments :: "string list \<Rightarrow> string \<Rightarrow> string" where
  "render_segments [] b = b"
| "render_segments (seg # segs) b =
     (if has_prefix ''['' seg then render_segments segs (b @ seg)
      else render_segments segs ((if b \<noteq> [] then b @ ''.'' else b) @ official_name seg))"

definition render_path :: "string list \<Rightarrow> string" where
  "render_path path = render_segments path []"

definition from_zog :: "zissue list \<Rightarrow> issue list" where
  "from_zog zs = map (\<lambda>z. \<lparr>i_path = render_path (z_path z), i_message = z_message z\<rparr>) zs"

definition proxy_issues :: "url_parser \<Rightarrow> policy \<Rightarrow> directive \<Rightarrow> issue list" where
  "proxy_issues url_parse p d =
     (if d_proxy d = [] \<and> p_require_proxy p
      then [\<lparr>i_path = ''Proxy'', i_message = ''required by this proxy''\<rparr>] else []) @
     (if d_proxy d \<noteq> [] \<and> \<not> proxy_allowed url_parse p (d_proxy d)
      then [\<lparr>i_path = ''Proxy'', i_message = host_message p\<rparr>] else [])"

datatype parse_out = ParsePanic | ParseIssues "issue list" | ParseOk directive

definition finish_parse :: "zog \<Rightarrow> url_parser \<Rightarrow> policy \<Rightarrow> pstate \<Rightarrow> parse_out" where
  "finish_parse zog url_parse p st =
     (case st of (req, issues1) \<Rightarrow> case zog (merge_defaults p req) of (d, zs) \<Rightarrow>
        let issues = issues1 @ from_zog zs in
        if issues \<noteq> [] then ParseIssues issues
        else (let more = proxy_issues url_parse p d in
              if more \<noteq> [] then ParseIssues more
              else ParseOk (d\<lparr>d_from_request := dom req\<rparr>)))"

definition parse :: "zog \<Rightarrow> url_parser \<Rightarrow> header \<Rightarrow> policy \<Rightarrow> parse_out" where
  "parse zog url_parse h p =
     (case header_loop p h (Map.empty, []) of
        None \<Rightarrow> ParsePanic
      | Some st \<Rightarrow> finish_parse zog url_parse p st)"

text \<open>\<^verbatim>\<open>Strip\<close> deletes every X-Tip-* entry.\<close>

definition strip :: "header \<Rightarrow> header" where
  "strip h = filter (\<lambda>(name, _). \<not> is_tip name) h"

section \<open>Policy construction\<close>

datatype policy_error =
    DenyUnknown string
  | DefaultsInvalid "issue list"
  | DefaultsPanic
  | BadHostPattern string
  | DefaultProxyNotAllowed string
  | RequireProxyImpossible

definition deny_key :: "string \<Rightarrow> string" where
  "deny_key name =
     (let key = to_lower (trim_space name)
      in if is_tip key then drop (length tip_prefix) key else key)"

fun deny_keys :: "string list \<Rightarrow> string set \<Rightarrow> (policy_error, string set) result" where
  "deny_keys [] acc = Inr acc"
| "deny_keys (name # deny) acc =
     (if \<not> is_known (deny_key name) then Inl (DenyUnknown name)
      else deny_keys deny (insert (deny_key name) acc))"

definition default_header :: "(string \<times> string) list \<Rightarrow> header" where
  "default_header defaults =
     fold (\<lambda>(name0, value) h.
             let name = trim_space name0;
                 name' = (if \<not> is_tip name then tip_prefix @ name else name)
             in h_add name' (trim_space value) h) defaults []"

text \<open>The second loop stores the shaped values; the error of \<^verbatim>\<open>shapeValue\<close> is ignored there.\<close>

fun shape_defaults :: "header \<Rightarrow> (string \<rightharpoonup> val) \<Rightarrow> (string \<rightharpoonup> val)" where
  "shape_defaults [] m = m"
| "shape_defaults ((name, values) # h) m =
     (case shape_value (tip_key name) values of
        Some (Inr shaped) \<Rightarrow> shape_defaults h (m(tip_key name \<mapsto> shaped))
      | _ \<Rightarrow> shape_defaults h (m(tip_key name := None)))"

definition new_policy ::
  "zog \<Rightarrow> url_parser \<Rightarrow> (string \<times> string) list \<Rightarrow> string list \<Rightarrow> (policy_error, policy) result" where
  "new_policy zog url_parse defaults deny =
     (case deny_keys deny {} of
        Inl e \<Rightarrow> Inl e
      | Inr keys \<Rightarrow>
          let h = default_header defaults in
          (case parse zog url_parse h empty_policy of
             ParsePanic \<Rightarrow> Inl DefaultsPanic
           | ParseIssues is \<Rightarrow> Inl (DefaultsInvalid is)
           | ParseOk _ \<Rightarrow>
               Inr (empty_policy\<lparr>p_deny := keys, p_defaults := shape_defaults h Map.empty\<rparr>)))"

definition host_pattern :: "string \<Rightarrow> string" where
  "host_pattern raw = to_lower (trim_space raw)"

definition bad_pattern :: "string \<Rightarrow> bool" where
  "bad_pattern pattern =
     (pattern = [] \<or> list_ex (\<lambda>c. c \<in> set ''/@ '' \<or> of_char c = (9 :: nat)) pattern)"

fun host_patterns :: "string list \<Rightarrow> string list \<Rightarrow> (policy_error, string list) result" where
  "host_patterns [] acc = Inr acc"
| "host_patterns (raw # rest) acc =
     (if bad_pattern (host_pattern raw) then Inl (BadHostPattern raw)
      else host_patterns rest (acc @ [host_pattern raw]))"

definition set_proxy_hosts ::
  "url_parser \<Rightarrow> policy \<Rightarrow> string list \<Rightarrow> (policy_error, policy) result" where
  "set_proxy_hosts url_parse p patterns =
     (case host_patterns patterns [] of
        Inl e \<Rightarrow> Inl e
      | Inr hosts \<Rightarrow>
          let p' = p\<lparr>p_proxy_hosts := hosts\<rparr> in
          (case p_defaults p' ''proxy'' of
             Some (VStr def) \<Rightarrow>
               if \<not> proxy_allowed url_parse p' def then Inl (DefaultProxyNotAllowed (host_message p'))
               else Inr p'
           | _ \<Rightarrow> Inr p'))"

definition set_require_proxy :: "policy \<Rightarrow> (policy_error, policy) result" where
  "set_require_proxy p =
     (if denied p ''proxy'' \<and> p_defaults p ''proxy'' = None then Inl RequireProxyImpossible
      else Inr (p\<lparr>p_require_proxy := True\<rparr>))"

section \<open>What the header loop computes\<close>

text \<open>
  One entry contributes a value, an issue, nothing, or the panic; the loop collects the values
  (a later entry for the same key wins) and the issues in visiting order.
\<close>

datatype entry_out = EntryPanic | EntrySkip | EntryIssue issue | EntryValue string val

definition entry_out :: "policy \<Rightarrow> string \<times> string list \<Rightarrow> entry_out" where
  "entry_out p e =
     (let name = fst e; key = tip_key name in
      if \<not> is_tip name then EntrySkip
      else if \<not> is_known key then EntryIssue \<lparr>i_path = name, i_message = ''unknown directive''\<rparr>
      else if denied p key then
        EntryIssue \<lparr>i_path = official_name key, i_message = ''not permitted by this proxy''\<rparr>
      else (case shape_value key (snd e) of
              None \<Rightarrow> EntryPanic
            | Some (Inl err) \<Rightarrow> EntryIssue \<lparr>i_path = official_name key, i_message = err\<rparr>
            | Some (Inr v) \<Rightarrow> EntryValue key v))"

definition entry_issues :: "policy \<Rightarrow> header \<Rightarrow> issue list" where
  "entry_issues p h =
     List.map_filter (\<lambda>e. case entry_out p e of EntryIssue i \<Rightarrow> Some i | _ \<Rightarrow> None) h"

definition entry_values :: "policy \<Rightarrow> header \<Rightarrow> (string \<times> val) list" where
  "entry_values p h =
     List.map_filter (\<lambda>e. case entry_out p e of EntryValue k v \<Rightarrow> Some (k, v) | _ \<Rightarrow> None) h"

lemma header_step_out:
  "header_step p e (req, issues) =
     (case entry_out p e of
        EntryPanic \<Rightarrow> None
      | EntrySkip \<Rightarrow> Some (req, issues)
      | EntryIssue i \<Rightarrow> Some (req, issues @ [i])
      | EntryValue k v \<Rightarrow> Some (req(k \<mapsto> v), issues))"
  by (auto simp: header_step_def entry_out_def Let_def split: prod.splits option.splits sum.splits)

lemma header_loop_out:
  "header_loop p h (req, issues) =
     (if EntryPanic \<in> entry_out p ` set h then None
      else Some (req ++ map_of (rev (entry_values p h)), issues @ entry_issues p h))"
proof (induction h arbitrary: req issues)
  case Nil
  show ?case by (simp add: entry_values_def entry_issues_def map_filter_simps)
next
  case (Cons e h)
  show ?case
    by (cases "entry_out p e")
      (auto simp: header_step_out Cons.IH entry_values_def entry_issues_def map_filter_simps
        map_add_assoc [symmetric])
qed

lemma entry_value_key: "entry_out p e = EntryValue k v \<Longrightarrow> is_tip (fst e) \<and> k = tip_key (fst e)"
  by (auto simp: entry_out_def Let_def split: if_splits option.splits sum.splits)

lemma entry_values_keys:
  "k \<in> set (map fst (entry_values p h)) \<Longrightarrow>
     \<exists>e \<in> set h. is_tip (fst e) \<and> k = tip_key (fst e) \<and> (\<exists>v. entry_out p e = EntryValue k v)"
  by (force simp: entry_values_def map_filter_def split: entry_out.splits dest: entry_value_key)

text \<open>Distinct directives: no two entries name the same directive in different spellings.\<close>

definition distinct_directives :: "header \<Rightarrow> bool" where
  "distinct_directives h = distinct (map (tip_key \<circ> fst) (filter (\<lambda>e. is_tip (fst e)) h))"

lemma entry_values_distinct:
  "distinct_directives h \<Longrightarrow> distinct (map fst (entry_values p h))"
proof (induction h)
  case Nil
  show ?case by (simp add: entry_values_def map_filter_simps)
next
  case (Cons e h)
  then have IH: "distinct (map fst (entry_values p h))"
    by (auto simp: distinct_directives_def split: if_splits)
  show ?case
  proof (cases "entry_out p e")
    case (EntryValue k v)
    then have e: "is_tip (fst e)" "k = tip_key (fst e)" by (auto dest: entry_value_key)
    have "k \<notin> set (map fst (entry_values p h))"
    proof
      assume "k \<in> set (map fst (entry_values p h))"
      from entry_values_keys [OF this] e Cons.prems show False
        by (auto simp: distinct_directives_def)
    qed
    with EntryValue IH show ?thesis by (simp add: entry_values_def map_filter_simps)
  qed (use IH in \<open>simp_all add: entry_values_def map_filter_simps\<close>)
qed

lemma mset_map_filter: "mset xs = mset ys \<Longrightarrow> mset (List.map_filter f xs) = mset (List.map_filter f ys)"
  by (simp add: map_filter_def)

definition same_outcome :: "parse_out \<Rightarrow> parse_out \<Rightarrow> bool" where
  "same_outcome a b =
     (case (a, b) of
        (ParsePanic, ParsePanic) \<Rightarrow> True
      | (ParseIssues x, ParseIssues y) \<Rightarrow> mset x = mset y
      | (ParseOk x, ParseOk y) \<Rightarrow> x = y
      | _ \<Rightarrow> False)"

lemma finish_parse_permute:
  assumes "mset i = mset j"
  shows "same_outcome (finish_parse zog up p (req, i)) (finish_parse zog up p (req, j))"
proof -
  obtain d zs where z: "zog (merge_defaults p req) = (d, zs)" by force
  have "i = [] \<longleftrightarrow> j = []" using assms by auto
  with assms z show ?thesis
    by (auto simp: finish_parse_def same_outcome_def Let_def)
qed

text \<open>
  C13. The outcome of parsing does not depend on the order in which Go visits the header map: for
  two orders of a header whose X-Tip entries name different directives, both panic, or both
  reject with the same issues up to their order, or both accept with the same directive.
\<close>

theorem parse_order_independent:
  assumes perm: "mset h = mset h'"
    and dist: "distinct_directives h"
  shows "same_outcome (parse zog up h p) (parse zog up h' p)"
proof -
  have "mset (entry_values p h) = mset (entry_values p h')"
    "mset (entry_issues p h) = mset (entry_issues p h')"
    using perm by (auto simp: entry_values_def entry_issues_def intro: mset_map_filter)
  moreover have "map_of (rev (entry_values p h)) = map_of (rev (entry_values p h'))"
    by (rule map_of_permute) (use calculation entry_values_distinct [OF dist] in \<open>simp_all add: rev_map [symmetric]\<close>)
  moreover have "set h = set h'" using perm by (rule mset_eq_setD)
  ultimately show ?thesis
    unfolding parse_def header_loop_out
    by (auto simp: finish_parse_permute) (simp add: same_outcome_def)
qed

theorem parse_order_independent_witness:
  "same_outcome
     (parse (\<lambda>_. (zero_directive, [])) (\<lambda>_. None)
        [(''X-Tip-Os'', [''Linux'']), (''Accept'', [''a'']), (''X-Tip-Foo'', [''b''])] empty_policy)
     (parse (\<lambda>_. (zero_directive, [])) (\<lambda>_. None)
        [(''X-Tip-Foo'', [''b'']), (''X-Tip-Os'', [''Linux'']), (''Accept'', [''a''])] empty_policy)"
  by (rule parse_order_independent)
    (simp_all add: distinct_directives_def is_tip_def tip_key_def tip_prefix_def equal_fold_def
      lower_char_def Let_def)

section \<open>Acceptance\<close>

lemma finish_parse_Ok:
  "finish_parse zog up p (req, is) = ParseOk d \<longleftrightarrow>
     is = [] \<and> snd (zog (merge_defaults p req)) = [] \<and>
     proxy_issues up p (fst (zog (merge_defaults p req))) = [] \<and>
     d = (fst (zog (merge_defaults p req)))\<lparr>d_from_request := dom req\<rparr>"
  by (auto simp: finish_parse_def Let_def from_zog_def split: prod.splits)

lemma parse_Ok_iff:
  "parse zog up h p = ParseOk d \<longleftrightarrow>
     EntryPanic \<notin> entry_out p ` set h \<and>
     finish_parse zog up p (map_of (rev (entry_values p h)), entry_issues p h) = ParseOk d"
  by (simp add: parse_def header_loop_out)

lemma entry_issues_Nil: "entry_issues p h = [] \<longleftrightarrow> (\<forall>e \<in> set h. \<forall>i. entry_out p e \<noteq> EntryIssue i)"
  by (auto simp: entry_issues_def map_filter_def filter_empty_conv split: entry_out.splits)

lemma dom_entry_values:
  assumes "EntryPanic \<notin> entry_out p ` set h" "entry_issues p h = []"
  shows "dom (map_of (rev (entry_values p h))) = {tip_key (fst e) |e. e \<in> set h \<and> is_tip (fst e)}"
proof -
  have "(\<exists>v. entry_out p e = EntryValue (tip_key (fst e)) v) \<longleftrightarrow> is_tip (fst e)" if "e \<in> set h" for e
  proof (cases "entry_out p e")
    case EntryPanic
    with assms(1) that show ?thesis by (metis imageI)
  next
    case EntrySkip
    then show ?thesis
      by (auto simp: entry_out_def Let_def split: if_splits option.splits sum.splits)
  next
    case (EntryIssue i)
    with assms(2) that show ?thesis by (auto simp: entry_issues_Nil)
  next
    case (EntryValue k v)
    then show ?thesis by (auto dest: entry_value_key)
  qed
  moreover have "k \<in> fst ` set (entry_values p h) \<longleftrightarrow>
      (\<exists>e \<in> set h. \<exists>v. entry_out p e = EntryValue k v)" for k
    by (force simp: entry_values_def map_filter_def split: entry_out.splits)
  ultimately have "k \<in> fst ` set (entry_values p h) \<longleftrightarrow>
      (\<exists>e. k = tip_key (fst e) \<and> e \<in> set h \<and> is_tip (fst e))" for k
    by (metis entry_value_key)
  then have "fst ` set (entry_values p h) = {tip_key (fst e) |e. e \<in> set h \<and> is_tip (fst e)}"
    by (simp only: set_eq_iff mem_Collect_eq) blast
  then show ?thesis by (simp add: dom_map_of_conv_image_fst)
qed

lemma proxy_issues_Nil:
  "proxy_issues up p d = [] \<longleftrightarrow>
     (p_require_proxy p \<longrightarrow> d_proxy d \<noteq> []) \<and>
     (d_proxy d \<noteq> [] \<longrightarrow> proxy_allowed up p (d_proxy d))"
  by (auto simp: proxy_issues_def)

lemma parse_Ok_permitted:
  assumes "parse zog up h p = ParseOk d"
  shows "e \<in> set h \<Longrightarrow> is_tip (fst e) \<Longrightarrow> is_known (tip_key (fst e)) \<and> \<not> denied p (tip_key (fst e))"
    and "p_require_proxy p \<Longrightarrow> d_proxy d \<noteq> []"
    and "d_proxy d \<noteq> [] \<Longrightarrow> proxy_allowed up p (d_proxy d)"
proof -
  let ?zog = "zog (merge_defaults p (map_of (rev (entry_values p h))))"
  from assms have none: "entry_issues p h = []" and pr: "proxy_issues up p (fst ?zog) = []"
    and d: "d_proxy d = d_proxy (fst ?zog)"
    by (simp_all add: parse_Ok_iff finish_parse_Ok)
  from none show "e \<in> set h \<Longrightarrow> is_tip (fst e) \<Longrightarrow> is_known (tip_key (fst e)) \<and> \<not> denied p (tip_key (fst e))"
    by (fastforce simp: entry_issues_Nil entry_out_def Let_def split: if_splits)
  from pr d show "p_require_proxy p \<Longrightarrow> d_proxy d \<noteq> []" "d_proxy d \<noteq> [] \<Longrightarrow> proxy_allowed up p (d_proxy d)"
    by (simp_all add: proxy_issues_Nil)
qed

text \<open>
  C3. What an accepted request satisfies, whatever the validator does: every X-Tip-* header it
  carried is a known directive the operator does not deny; the directive remembers exactly the
  directives the request named; and the upstream proxy policy holds of the result, defaults
  included (a proxy is present where one is required, and its host is an allowed one).
\<close>

theorem parse_accept_sound:
  assumes ok: "parse zog up h p = ParseOk d"
  shows "(\<forall>e \<in> set h. is_tip (fst e) \<longrightarrow>
            is_known (tip_key (fst e)) \<and> \<not> denied p (tip_key (fst e))) \<and>
         d_from_request d = {tip_key (fst e) |e. e \<in> set h \<and> is_tip (fst e)} \<and>
         (p_require_proxy p \<longrightarrow> d_proxy d \<noteq> []) \<and>
         (d_proxy d \<noteq> [] \<longrightarrow> proxy_allowed up p (d_proxy d))"
proof -
  let ?req = "map_of (rev (entry_values p h))"
  from ok have np: "EntryPanic \<notin> entry_out p ` set h" and none: "entry_issues p h = []"
    and d: "d = (fst (zog (merge_defaults p ?req)))\<lparr>d_from_request := dom ?req\<rparr>"
    by (simp_all add: parse_Ok_iff finish_parse_Ok)
  have "d_from_request d = {tip_key (fst e) |e. e \<in> set h \<and> is_tip (fst e)}"
    using d dom_entry_values [OF np none] by simp
  with parse_Ok_permitted [OF ok] show ?thesis by blast
qed

text \<open>A validator for the examples: it fills the fields the examples use and reports nothing.\<close>

definition plain_zog :: zog where
  "plain_zog m =
     (zero_directive
        \<lparr>d_proxy := (case m ''proxy'' of Some v \<Rightarrow> val_string v | None \<Rightarrow> []),
         d_browser := (case m ''browser'' of Some (VList l) \<Rightarrow> l | _ \<Rightarrow> []),
         d_os := (case m ''os'' of Some (VList l) \<Rightarrow> l | _ \<Rightarrow> []),
         d_keep := (case m ''keep'' of Some (VList l) \<Rightarrow> l | _ \<Rightarrow> [])\<rparr>, [])"

lemmas parse_eval =
  parse_def finish_parse_def header_step_def is_tip_def tip_key_def tip_prefix_def equal_fold_def
  lower_char_def Let_def is_known_def known_eq directive_names_def denied_def shape_value_def
  shapes_def split_list_def trim_space_def trim_string_def trim_by_def is_space_def
  is_ascii_space_def merge_defaults_def displaced_def plain_zog_def zero_directive_def from_zog_def
  proxy_issues_def empty_policy_def

theorem parse_accept_sound_witness:
  "\<exists>d. parse plain_zog (\<lambda>_. None) [(''X-Tip-Os'', [''Linux''])] empty_policy = ParseOk d \<and>
       d_from_request d = {''os''}"
proof -
  let ?h = "[(''X-Tip-Os'', [''Linux''])]"
  have "\<exists>d. parse plain_zog (\<lambda>_. None) ?h empty_policy = ParseOk d"
    by (simp add: parse_eval)
  then obtain d where d: "parse plain_zog (\<lambda>_. None) ?h empty_policy = ParseOk d" ..
  have "tip_key ''X-Tip-Os'' = ''os'' \<and> is_tip ''X-Tip-Os''" by code_simp
  with parse_accept_sound [OF d] d show ?thesis by simp
qed

section \<open>Values\<close>

text \<open>
  What the validation library promises of a run that reports nothing: every field of the input met its
  schema, and the directive it filled meets the schema's own test.
\<close>

definition schema_runs :: "(nat \<Rightarrow> nat \<Rightarrow> nat \<Rightarrow> nat) \<Rightarrow> url_parser \<Rightarrow> zog \<Rightarrow> bool" where
  "schema_runs frac up zog \<longleftrightarrow>
     (\<forall>m. snd (zog m) = [] \<longrightarrow>
        (\<forall>k v f. m k = Some v \<and> field_of k = Some f \<longrightarrow> field_ok frac up f v) \<and> schema_test (fst (zog m)))"

lemma known_field: "is_known k \<Longrightarrow> \<exists>f. field_of k = Some f"
proof -
  assume "is_known k"
  then have "k \<in> (to_lower \<circ> fst) ` set shape"
    unfolding is_known_def known_eq schema_keys [symmetric] by simp
  then obtain name f where "(name, f) \<in> set shape" "k = to_lower name" by auto
  then have "(k, f) \<in> set (map (\<lambda>(name, f). (to_lower name, f)) shape)" by force
  then show ?thesis unfolding field_of_def by (rule weak_map_of_SomeI)
qed

lemma entry_value_in: "e \<in> set h \<Longrightarrow> entry_out p e = EntryValue k v \<Longrightarrow> (k, v) \<in> set (entry_values p h)"
  by (force simp: entry_values_def map_filter_def)


text \<open>A validator that runs the schema and fills nothing.\<close>

definition table_zog :: zog where
  "table_zog m =
     (zero_directive,
      if list_all (\<lambda>(name, f). case m (to_lower name) of
           None \<Rightarrow> True | Some v \<Rightarrow> field_ok (\<lambda>_ _ _. 0) (\<lambda>_. None) f v) shape
      then [] else [\<lparr>z_path = [], z_message = []\<rparr>])"

lemma table_zog_runs: "schema_runs (\<lambda>_ _ _. 0) (\<lambda>_. None) table_zog"
proof -
  have "field_ok (\<lambda>_ _ _. 0) (\<lambda>_. None) f v"
    if "m k = Some v" "field_of k = Some f" "snd (table_zog m) = []" for m k v f
  proof -
    from that(2) obtain name where "(name, f) \<in> set shape" "k = to_lower name"
      by (auto simp: field_of_def dest!: map_of_SomeD)
    with that(1,3) show ?thesis by (auto simp: table_zog_def list_all_iff split: if_splits)
  qed
  then show ?thesis by (auto simp: schema_runs_def schema_test_def table_zog_def zero_directive_def)
qed

lemma table_zog_single:
  assumes "field_of k = Some f" "field_ok (\<lambda>_ _ _. 0) (\<lambda>_. None) f v"
  shows "snd (table_zog [k \<mapsto> v]) = []"
proof -
  have "distinct (map (to_lower \<circ> fst) shape)"
    using lower_names_distinct(2) schema_keys by simp
  then have "g = f" if "(name, g) \<in> set shape" "to_lower name = k" for name g
  proof -
    have "distinct (map fst (map (\<lambda>(name, f). (to_lower name, f)) shape))"
      using \<open>distinct (map (to_lower \<circ> fst) shape)\<close> by (simp add: comp_def split_beta)
    moreover have "(k, g) \<in> set (map (\<lambda>(name, f). (to_lower name, f)) shape)" using that by force
    ultimately show ?thesis using assms(1) by (simp add: field_of_def)
  qed
  with assms(2) show ?thesis by (auto simp: table_zog_def list_all_iff)
qed


section \<open>Rejection\<close>

lemma parse_reject:
  assumes "EntryPanic \<notin> entry_out p ` set h" "entry_issues p h \<noteq> []"
  shows "\<exists>is. parse zog up h p = ParseIssues is \<and> (\<exists>zs. is = entry_issues p h @ zs)"
  using assms
  by (auto simp: parse_def header_loop_out finish_parse_def Let_def split: prod.splits)

lemma entry_issue_listed:
  "e \<in> set h \<Longrightarrow> entry_out p e = EntryIssue i \<Longrightarrow> i \<in> set (entry_issues p h)"
  by (force simp: entry_issues_def map_filter_def)

lemma no_panic: "\<forall>e \<in> set h. snd e \<noteq> [] \<Longrightarrow> EntryPanic \<notin> entry_out p ` set h"
  by (auto simp: entry_out_def shape_value_def Let_def
      split: if_splits option.splits sum.splits value_shape.splits list.splits)

text \<open>
  A request cannot get past the operator: when it carries a directive that is unknown or
  denied, it is rejected whatever else it says and whatever the validator does, and the rejection
  lists an issue for that very directive.
\<close>

theorem parse_rejects_bad_directive:
  assumes vals: "\<forall>e \<in> set h. snd e \<noteq> []"
    and e: "e \<in> set h" "is_tip (fst e)"
    and bad: "\<not> is_known (tip_key (fst e)) \<or> denied p (tip_key (fst e))"
  shows "\<exists>is. parse zog up h p = ParseIssues is \<and>
           (if is_known (tip_key (fst e))
            then \<lparr>i_path = official_name (tip_key (fst e)),
                  i_message = ''not permitted by this proxy''\<rparr>
            else \<lparr>i_path = fst e, i_message = ''unknown directive''\<rparr>) \<in> set is"
proof -
  let ?i = "if is_known (tip_key (fst e))
            then \<lparr>i_path = official_name (tip_key (fst e)),
                  i_message = ''not permitted by this proxy''\<rparr>
            else \<lparr>i_path = fst e, i_message = ''unknown directive''\<rparr>"
  have "entry_out p e = EntryIssue ?i" using e(2) bad by (auto simp: entry_out_def Let_def)
  then have i: "?i \<in> set (entry_issues p h)" by (rule entry_issue_listed [OF e(1)])
  then have "entry_issues p h \<noteq> []" by auto
  from parse_reject [OF no_panic [OF vals] this, of zog up] i show ?thesis by fastforce
qed

theorem parse_rejects_bad_directive_witness:
  "\<exists>is. parse plain_zog (\<lambda>_. None) [(''x-tip-proxy'', [''http://h''])]
           (empty_policy\<lparr>p_deny := {''proxy''}\<rparr>) = ParseIssues is \<and> is \<noteq> []"
proof -
  let ?h = "[(''x-tip-proxy'', [''http://h''])]"
  let ?p = "empty_policy\<lparr>p_deny := {''proxy''}\<rparr>"
  have v: "\<forall>e \<in> set ?h. snd e \<noteq> []" by simp
  have e: "(''x-tip-proxy'', [''http://h'']) \<in> set ?h" by simp
  have t: "is_tip (fst (''x-tip-proxy'', [''http://h'']))" by code_simp
  have b: "\<not> is_known (tip_key (fst (''x-tip-proxy'', [''http://h'']))) \<or>
      denied ?p (tip_key (fst (''x-tip-proxy'', [''http://h''])))"
    by code_simp
  from parse_rejects_bad_directive [OF v e t b, of plain_zog "\<lambda>_. None"] show ?thesis by fastforce
qed

section \<open>Defaults\<close>

text \<open>Naming a profile together with a browser, an OS or Match.\<close>

definition identity_conflict :: "(string \<rightharpoonup> val) \<Rightarrow> bool" where
  "identity_conflict m =
     (m ''profile'' \<noteq> None \<and> (\<exists>k \<in> {''browser'', ''os'', ''match''}. m k \<noteq> None))"

lemma merge_defaults_lookup:
  "merge_defaults p req key =
     (case req key of
        Some v \<Rightarrow> Some v
      | None \<Rightarrow> if displaced req key then None else p_defaults p key)"
  by (simp add: merge_defaults_def map_add_def split: option.splits)

text \<open>
  Merging the operator's defaults under a request: what the request names wins and nothing it
  names is lost; a default appears only for a directive the request left open; and the merge never
  makes an identity conflict (a profile beside a browser, OS or Match) that neither the request
  nor the defaults had on their own.
\<close>

theorem merge_defaults_sound:
  "req \<subseteq>\<^sub>m merge_defaults p req \<and>
   (\<forall>key. req key = None \<longrightarrow> merge_defaults p req key \<in> {None, p_defaults p key}) \<and>
   (identity_conflict (merge_defaults p req) \<longrightarrow>
      identity_conflict req \<or> identity_conflict (p_defaults p))"
proof (intro conjI)
  show "req \<subseteq>\<^sub>m merge_defaults p req"
    by (auto simp: map_le_def merge_defaults_lookup split: option.splits)
  show "\<forall>key. req key = None \<longrightarrow> merge_defaults p req key \<in> {None, p_defaults p key}"
    by (simp add: merge_defaults_lookup)
  show "identity_conflict (merge_defaults p req) \<longrightarrow>
      identity_conflict req \<or> identity_conflict (p_defaults p)"
    by (auto simp: identity_conflict_def merge_defaults_lookup displaced_def
        split: option.splits if_splits)
qed

theorem merge_defaults_sound_witness:
  "merge_defaults (empty_policy\<lparr>p_defaults := [''profile'' \<mapsto> VStr ''0123456789ab'']\<rparr>)
     [''browser'' \<mapsto> VList [''chrome'']] ''browser'' = Some (VList [''chrome'']) \<and>
   \<not> identity_conflict (merge_defaults
       (empty_policy\<lparr>p_defaults := [''profile'' \<mapsto> VStr ''0123456789ab'']\<rparr>)
       [''browser'' \<mapsto> VList [''chrome'']])"
proof -
  let ?p = "empty_policy\<lparr>p_defaults := [''profile'' \<mapsto> VStr ''0123456789ab'']\<rparr>"
  let ?req = "[''browser'' \<mapsto> VList [''chrome'']]"
  note m = merge_defaults_sound [of ?req ?p]
  from m have "?req \<subseteq>\<^sub>m merge_defaults ?p ?req" ..
  then have "merge_defaults ?p ?req ''browser'' = Some (VList [''chrome''])"
    unfolding map_le_def by (drule_tac x = "''browser''" in bspec) simp_all
  moreover have "\<not> identity_conflict ?req" "\<not> identity_conflict (p_defaults ?p)"
    by (simp_all add: identity_conflict_def)
  ultimately show ?thesis using m by blast
qed

section \<open>Stripping\<close>

text \<open>
  After \<^verbatim>\<open>Strip\<close> no X-Tip-* header is left in any spelling, every other header keeps its
  values, and stripping again changes nothing.
\<close>

theorem strip_sound:
  "(\<forall>name \<in> fst ` set (strip h). \<not> is_tip name) \<and>
   (\<forall>name. \<not> is_tip name \<longrightarrow> raw_values (strip h) name = raw_values h name) \<and>
   strip (strip h) = strip h"
proof (intro conjI allI impI)
  fix name assume "\<not> is_tip name"
  then show "raw_values (strip h) name = raw_values h name"
    by (simp add: raw_values_def strip_def map_of_filter_notin)
qed (auto simp: strip_def)

theorem strip_sound_witness:
  "raw_values (strip [(''x-TIP-Os'', [''linux'']), (''Accept'', [''a''])]) ''Accept'' = [''a''] \<and>
   ''x-TIP-Os'' \<notin> fst ` set (strip [(''x-TIP-Os'', [''linux'']), (''Accept'', [''a''])])"
proof -
  let ?h = "[(''x-TIP-Os'', [''linux'']), (''Accept'', [''a''])]"
  have t: "is_tip ''x-TIP-Os''" "\<not> is_tip ''Accept''" by code_simp+
  from strip_sound [of ?h] t(2) have "raw_values (strip ?h) ''Accept'' = raw_values ?h ''Accept''"
    by blast
  also have "\<dots> = [''a'']" by (simp add: raw_values_def)
  finally show ?thesis using strip_sound [of ?h] t(1) by blast
qed

section \<open>Settings and lists\<close>

lemma collect_pairs_Inr:
  assumes "collect_pairs allowed pairs out order = Inr (VPairs out' order')"
    and "map fst out = order" "distinct order" "set order \<subseteq> set allowed"
  shows "order' = order @ map (to_lower \<circ> fst) pairs \<and> distinct order' \<and>
    set order' \<subseteq> set allowed \<and> out' = out @ map (\<lambda>(n, v). (to_lower n, v)) pairs"
  using assms
proof (induction allowed pairs out order rule: collect_pairs.induct)
  case (2 allowed n v pairs out order)
  let ?k = "to_lower n"
  from "2.prems" have k: "?k \<in> set allowed" "map_of out ?k = None"
    by (auto simp: Let_def map_of_eq_None_iff split: if_splits)
  then have fresh: "?k \<notin> set order" using "2.prems"(2) by (auto simp: map_of_eq_None_iff)
  then have upd: "AList.update ?k v out = out @ [(?k, v)]"
    using "2.prems"(2) by (auto simp: update_append_new)
  have "collect_pairs allowed pairs (out @ [(?k, v)]) (order @ [?k]) = Inr (VPairs out' order')"
    using "2.prems"(1) k(1) by (simp add: Let_def k(2) upd)
  moreover have "\<not> ?k \<notin> set allowed" "\<not> map_of out ?k \<noteq> None" using k by blast+
  ultimately have "order' = (order @ [?k]) @ map (to_lower \<circ> fst) pairs \<and> distinct order' \<and>
      set order' \<subseteq> set allowed \<and> out' = (out @ [(?k, v)]) @ map (\<lambda>(n, v). (to_lower n, v)) pairs"
    using "2.prems"(2-4) k(1) fresh
    by (intro "2.IH" [OF refl, unfolded upd]) auto
  then show ?case
    by (elim conjE) (hypsubst, simp)
qed simp

lemma collect_pairs_form:
  "collect_pairs allowed pairs out order = Inr v \<Longrightarrow> \<exists>out' order'. v = VPairs out' order'"
  by (induction allowed pairs out order rule: collect_pairs.induct)
    (auto simp: Let_def split: if_splits)

lemma parse_cookie_parts_values:
  "parse_cookie_parts ps = Inr nvs \<Longrightarrow> (n, v) \<in> set nvs \<Longrightarrow> is_token n \<and> list_all cookie_value_byte v"
proof (induction ps arbitrary: nvs)
  case (Cons p ps)
  then show ?case
    by (auto simp: parse_cookie_part_def parse_cookie_value_def Let_def
        split: sum.splits prod.splits option.splits if_splits)
qed simp

text \<open>
  What a settings value is parsed to: the pairs exactly as written, with their keys
  lower-cased, in the written order, each key at most once and only keys the setting knows; and
  every stored text is printable ASCII without quotes, semicolons or backslashes.
\<close>

theorem parse_pairs_sound:
  assumes "parse_pairs key raw = Inr v"
  shows "\<exists>pairs out order. parse_cookie raw = Inr pairs \<and> v = VPairs out order \<and>
           out = map (\<lambda>(n, x). (to_lower n, x)) pairs \<and> order = map fst out \<and>
           distinct order \<and> set order \<subseteq> set (kv_keys key) \<and>
           (\<forall>(n, x) \<in> set out. list_all cookie_value_byte x)"
proof -
  from assms obtain pairs where pc: "parse_cookie raw = Inr pairs"
    and cp: "collect_pairs (kv_keys key) pairs [] [] = Inr v"
    by (auto simp: parse_pairs_def split: sum.splits)
  from collect_pairs_form [OF cp] obtain out order where v: "v = VPairs out order" by blast
  have o: "order = map (to_lower \<circ> fst) pairs" "distinct order" "set order \<subseteq> set (kv_keys key)"
    "out = map (\<lambda>(n, x). (to_lower n, x)) pairs"
    using collect_pairs_Inr [OF cp [unfolded v], simplified] by blast+
  from pc obtain ps where "parse_cookie_parts ps = Inr pairs"
    by (auto simp: parse_cookie_def Let_def split: if_splits)
  then have "\<forall>(n, x) \<in> set pairs. list_all cookie_value_byte x"
    by (auto dest: parse_cookie_parts_values)
  then have "\<forall>(n, x) \<in> set out. list_all cookie_value_byte x" using o by auto
  moreover have "order = map fst out" using o(1,4) by (simp add: case_prod_beta)
  ultimately show ?thesis using pc v o(2-4) by blast
qed

theorem parse_pairs_sound_witness:
  "\<exists>v. parse_pairs ''http2settings'' ''EnablePush=0'' = Inr v \<and>
       v = VPairs [(''enablepush'', ''0'')] [''enablepush'']"
proof -
  have e: "parse_pairs ''http2settings'' ''EnablePush=0'' =
      Inr (VPairs [(''enablepush'', ''0'')] [''enablepush''])"
    by code_simp
  from parse_pairs_sound [OF this] e show ?thesis by blast
qed

section \<open>The operator's policy\<close>

lemma deny_keys_known:
  "deny_keys deny acc = Inr keys \<Longrightarrow> keys = acc \<union> deny_key ` set deny \<and> (\<forall>n \<in> set deny. is_known (deny_key n))"
  by (induction deny acc rule: deny_keys.induct) (auto split: if_splits)

lemma deny_keys_Inl: "deny_keys deny acc = Inl e \<Longrightarrow> \<exists>n \<in> set deny. e = DenyUnknown n \<and> \<not> is_known (deny_key n)"
  by (induction deny acc rule: deny_keys.induct) (auto split: if_splits)

lemma host_patterns_Inr:
  "host_patterns ps acc = Inr hosts \<Longrightarrow>
     hosts = acc @ map host_pattern ps \<and> (\<forall>p \<in> set ps. \<not> bad_pattern (host_pattern p))"
  by (induction ps acc rule: host_patterns.induct) (auto split: if_splits)

definition build_policy ::
  "zog \<Rightarrow> url_parser \<Rightarrow> (string \<times> string) list \<Rightarrow> string list \<Rightarrow> string list \<Rightarrow> bool \<Rightarrow>
   (policy_error, policy) result" where
  "build_policy zog up defaults deny hosts require =
     (case new_policy zog up defaults deny of
        Inl e \<Rightarrow> Inl e
      | Inr p \<Rightarrow>
          (case set_proxy_hosts up p hosts of
             Inl e \<Rightarrow> Inl e
           | Inr p' \<Rightarrow> if require then set_require_proxy p' else Inr p'))"

lemma build_policy_steps:
  assumes "build_policy zog up defaults deny hosts require = Inr p"
  obtains p1 p2 where "p_deny p1 = deny_key ` set deny" "\<forall>key \<in> p_deny p1. is_known key"
    "\<not> p_require_proxy p1" "set_proxy_hosts up p1 hosts = Inr p2" "p_deny p2 = p_deny p1" "\<not> p_require_proxy p2"
    "p = p2\<lparr>p_require_proxy := require\<rparr>"
    "require \<longrightarrow> \<not> denied p2 ''proxy'' \<or> p_defaults p2 ''proxy'' \<noteq> None"
proof -
  from assms obtain p1 p2 where p1: "new_policy zog up defaults deny = Inr p1"
    and p2: "set_proxy_hosts up p1 hosts = Inr p2"
    and p: "(if require then set_require_proxy p2 else Inr p2) = Inr p"
    by (auto simp: build_policy_def split: sum.splits)
  from p1 obtain keys where "deny_keys deny {} = Inr keys" "p_deny p1 = keys" and nr: "\<not> p_require_proxy p1"
    by (auto simp: new_policy_def Let_def split: sum.splits parse_out.splits)
  with deny_keys_known [of deny "{}" keys]
  have a: "p_deny p1 = deny_key ` set deny" "\<forall>key \<in> p_deny p1. is_known key" by auto
  from p2 have same: "p_deny p2 = p_deny p1" "\<not> p_require_proxy p2"
    using nr by (auto simp: set_proxy_hosts_def Let_def split: sum.splits option.splits val.splits if_splits)
  from p same have "p = p2\<lparr>p_require_proxy := require\<rparr>"
    "require \<longrightarrow> \<not> denied p2 ''proxy'' \<or> p_defaults p2 ''proxy'' \<noteq> None"
    by (auto simp: set_require_proxy_def split: if_splits)
  from that [OF a nr p2 same this] show ?thesis .
qed

text \<open>
  C23. The policy the program starts with, built from the operator's configuration as
  \<^verbatim>\<open>run\<close> builds it: it denies exactly the configured directives, all of them known; its host
  patterns are the configured ones, lower-cased and trimmed, none of them empty; a default
  upstream proxy has an allowed host; and if a proxy is required, either the request may name one
  or a default supplies it, so the policy does not refuse every request.
\<close>

theorem build_policy_sound:
  assumes "build_policy zog up defaults deny hosts require = Inr p"
  shows "p_deny p = deny_key ` set deny \<and> (\<forall>key \<in> p_deny p. is_known key) \<and>
         p_proxy_hosts p = map host_pattern hosts \<and> [] \<notin> set (p_proxy_hosts p) \<and>
         p_require_proxy p = require \<and>
         (\<forall>s. p_defaults p ''proxy'' = Some (VStr s) \<longrightarrow> proxy_allowed up p s) \<and>
         (require \<longrightarrow> \<not> denied p ''proxy'' \<or> p_defaults p ''proxy'' \<noteq> None)"
proof -
  obtain p1 p2 where a: "p_deny p1 = deny_key ` set deny" "\<forall>key \<in> p_deny p1. is_known key"
    and "\<not> p_require_proxy p1" and p2: "set_proxy_hosts up p1 hosts = Inr p2"
    and "p_deny p2 = p_deny p1" "\<not> p_require_proxy p2" and p: "p = p2\<lparr>p_require_proxy := require\<rparr>"
    and r: "require \<longrightarrow> \<not> denied p2 ''proxy'' \<or> p_defaults p2 ''proxy'' \<noteq> None"
    using build_policy_steps [OF assms] .
  from p2 obtain hs where h: "host_patterns hosts [] = Inr hs" "p2 = p1\<lparr>p_proxy_hosts := hs\<rparr>"
    and d: "\<forall>s. p_defaults p2 ''proxy'' = Some (VStr s) \<longrightarrow> proxy_allowed up p2 s"
    by (auto simp: set_proxy_hosts_def Let_def split: sum.splits option.splits val.splits if_splits)
  from host_patterns_Inr [OF h(1)] have hs: "hs = map host_pattern hosts" "[] \<notin> set hs"
    by (auto simp: bad_pattern_def)
  have "proxy_allowed up (p2\<lparr>p_require_proxy := require\<rparr>) s = proxy_allowed up p2 s" for s
    by (cases "up s") (simp_all add: proxy_allowed_def)
  then show ?thesis using a h(2) hs d p r by (simp add: denied_def)
qed

theorem build_policy_sound_witness:
  "\<exists>p. build_policy plain_zog (\<lambda>_. None) [] [''Proxy''] [] False = Inr p \<and> p_deny p = {''proxy''}"
proof -
  have "\<exists>p. build_policy plain_zog (\<lambda>_. None) [] [''Proxy''] [] False = Inr p"
  proof -
    have "deny_keys [''Proxy''] {} = Inr {''proxy''}" by code_simp
    moreover have "proxy_issues (\<lambda>_. None) empty_policy (fst (plain_zog Map.empty)) = []"
      by (simp add: proxy_issues_def plain_zog_def zero_directive_def)
    ultimately show ?thesis
      by (simp add: build_policy_def new_policy_def default_header_def parse_def finish_parse_def
          plain_zog_def from_zog_def set_proxy_hosts_def Let_def merge_defaults_def
          map_add_def zero_directive_def proxy_issues_def)
  qed
  then obtain p where p: "build_policy plain_zog (\<lambda>_. None) [] [''Proxy''] [] False = Inr p" ..
  have "deny_key ''Proxy'' = ''proxy''" by code_simp
  with build_policy_sound [OF p] p show ?thesis by simp
qed

text \<open>
  The host patterns of \<^verbatim>\<open>proxy_hosts\<close>: a plain host matches that host on every port, a
  host with a port only on that port, and a \<^verbatim>\<open>*.\<close> wildcard every strict subdomain but not the
  bare domain.
\<close>

theorem pattern_matches_forms:
  assumes "CHR '':'' \<notin> set host" "CHR ''['' \<notin> set host" "CHR '']'' \<notin> set host"
    and "port \<noteq> []" "list_all is_digit port" "\<not> has_prefix ''*.'' host"
  shows "(pattern_matches name uport host \<longleftrightarrow> name = host) \<and>
         (pattern_matches name uport (host @ '':'' @ port) \<longleftrightarrow> name = host \<and> uport = port) \<and>
         (pattern_matches name uport (''*.'' @ host) \<longleftrightarrow>
            (\<exists>sub. name = sub @ ''.'' @ host))"
proof -
  have dig: "c \<notin> set port" if "\<not> is_digit c" for c
    using assms(5) that by (auto simp: list_all_iff)
  have port: "CHR '':'' \<notin> set port" "CHR ''['' \<notin> set port" "CHR '']'' \<notin> set port"
    by (rule dig, simp add: is_digit_def)+
  have trim: "trim_brackets s = s" if "CHR ''['' \<notin> set s" "CHR '']'' \<notin> set s" for s
    unfolding trim_brackets_def using that by (intro trim_by_id) (metis hd_in_set last_in_set)
  have plain: "split_pattern s = (s, [])"
    if "CHR '':'' \<notin> set s" "CHR ''['' \<notin> set s" "CHR '']'' \<notin> set s" for s
    using that trim last_index_None [of "CHR '':''" s]
    by (simp add: split_pattern_def split_host_port_def)
  have "join_host_port host port = host @ '':'' @ port"
    using assms(1) by (simp add: join_host_port_def)
  then have "split_host_port (host @ '':'' @ port) = Some (host, port)"
    using split_join_host_port [of host port] assms port by simp
  then have "split_pattern (host @ '':'' @ port) = (host, port)" by (simp add: split_pattern_def)
  moreover have "split_pattern (''*.'' @ host) = (''*.'' @ host, [])"
    using assms by (intro plain) auto
  moreover have "has_prefix ''*.'' (''*.'' @ host)" by (rule has_prefix_append)
  moreover have "''*.'' @ host = name \<or> has_suffix (''.'' @ host) name \<longleftrightarrow>
      (\<exists>sub. name = sub @ ''.'' @ host)"
    by (auto simp: has_suffix_iff)
  ultimately show ?thesis
    using assms plain [of host] by (auto simp: pattern_matches_def)
qed

theorem pattern_matches_forms_witness:
  "pattern_matches ''a.proxy.example'' ''8080'' (''*.'' @ ''proxy.example'') \<and>
   \<not> pattern_matches ''proxy.example'' ''8080'' (''*.'' @ ''proxy.example'')"
proof -
  have "list_all is_digit ''8080''" by code_simp
  moreover have "\<not> has_prefix ''*.'' ''proxy.example''" by code_simp
  ultimately have m: "pattern_matches name ''8080'' (''*.'' @ ''proxy.example'') \<longleftrightarrow>
      (\<exists>sub. name = sub @ ''.'' @ ''proxy.example'')" for name
    using pattern_matches_forms [of "''proxy.example''" "''8080''" name "''8080''"] by simp
  have "''a.proxy.example'' = ''a'' @ ''.'' @ ''proxy.example''" by simp
  moreover have "\<not> (\<exists>sub. ''proxy.example'' = sub @ ''.'' @ ''proxy.example'')"
    by (auto dest: arg_cong [where f = length])
  ultimately show ?thesis unfolding m by blast
qed

end
