(* ===== verification/Tip_Failure.thy ===== *)
theory Tip_Failure
  imports Tip_Connect Tip_Redact Tip_Parse
begin

text \<open>
  What becomes of a failure: its kind (\<^verbatim>\<open>Classify\<close> of \<^verbatim>\<open>internal/impersonate/client.go\<close>), its
  diagnosis (\<^verbatim>\<open>diagnose\<close> of \<^verbatim>\<open>internal/proxy/roundtrip.go\<close>), the RFC 9209 error type
  (\<^verbatim>\<open>status.go\<close>) and the response TIP makes of it (\<^verbatim>\<open>errors.go\<close>).
\<close>

section \<open>Classification\<close>

definition classify :: "gerror \<Rightarrow> string option" where
  "classify err =
     (case find_hop err of
        Some (p, v, c) \<Rightarrow>
          if v \<noteq> None then Some ''proxy_rejected''
          else if error_is IsCanceled c \<or> error_is IsDeadline c then Some ''timeout''
          else if is_net_timeout c then Some ''timeout''
          else Some ''proxy''
      | None \<Rightarrow>
          (case error_text err of
             None \<Rightarrow> None
           | Some text \<Rightarrow>
               let msg = to_lower text; e = Some err in
               if error_is IsCanceled e \<or> error_is IsDeadline e then Some ''timeout''
               else if is_net_timeout e then Some ''timeout''
               else if contains ''proxy'' msg then Some ''proxy''
               else if contains ''tls'' msg \<or> contains ''certificate'' msg \<or> contains ''handshake'' msg
                 then Some ''tls''
               else if first_op err = Some ''dial'' then Some ''dial''
               else if contains ''dial'' msg then Some ''dial''
               else Some ''read''))"

section \<open>Diagnosis\<close>

record diagnosis =
  dg_kind :: string
  dg_message :: string
  dg_phase :: phase
  dg_verdict :: "verdict option"
  dg_connected :: bool
  dg_next_hop :: string

text \<open>What \<^verbatim>\<open>diagnose\<close> reads of the request's state; \<open>None\<close> is the panic of an error without text.\<close>

record failure_ctx =
  fc_host :: string
  fc_proxy :: string
  fc_connected :: bool

definition next_hop :: "url_parser \<Rightarrow> failure_ctx \<Rightarrow> string" where
  "next_hop url_parse st =
     (if fc_proxy st = [] then fc_host st
      else (case url_parse (fc_proxy st) of Some u \<Rightarrow> u_host u | None \<Rightarrow> fc_host st))"

definition place_failure ::
  "gerror \<Rightarrow> failure_ctx \<Rightarrow> memo option \<Rightarrow> diagnosis \<Rightarrow> diagnosis option" where
  "place_failure err st m d =
     (case find_hop err of
        Some (p, v, c) \<Rightarrow>
          map_option (\<lambda>text. d\<lparr>dg_message := text, dg_phase := p, dg_verdict := v\<rparr>)
            (error_text (Hop p v c))
      | None \<Rightarrow>
          if dg_kind d \<noteq> ''timeout'' then Some d
          else if memo_phase m \<noteq> PhaseNone then
            Some (d\<lparr>dg_phase := memo_phase m,
                    dg_message := phase_text (memo_phase m) @ '': waiting for '' @ dg_next_hop d\<rparr>)
          else if dg_connected d then
            Some (d\<lparr>dg_message := ''waiting for response headers from '' @ fc_host st\<rparr>)
          else Some (d\<lparr>dg_message := ''connecting to '' @ fc_host st\<rparr>))"

definition diagnose ::
  "url_parser \<Rightarrow> gerror \<Rightarrow> failure_ctx \<Rightarrow> memo option \<Rightarrow> diagnosis option" where
  "diagnose url_parse err st m =
     (case (classify err, error_text err) of
        (Some kind, Some text) \<Rightarrow>
          let kind' = (if fc_proxy st \<noteq> [] \<and> kind = ''dial'' then ''proxy'' else kind);
              d = \<lparr>dg_kind = kind', dg_message = text, dg_phase = PhaseNone, dg_verdict = None,
                   dg_connected = fc_connected st, dg_next_hop = next_hop url_parse st\<rparr>
          in map_option (\<lambda>d. d\<lparr>dg_message := redact_userinfo (dg_message d)\<rparr>)
               (place_failure err st m d)
      | _ \<Rightarrow> None)"

section \<open>Proxy-Status\<close>

definition sf_rune :: "rune \<Rightarrow> string" where
  "sf_rune r =
     (case r of
        Rune [c] \<Rightarrow>
          if of_char c \<in> {34, 92 :: nat} then [char_of (92 :: nat), c]
          else if of_char c < (32 :: nat) \<or> 126 < (of_char c :: nat) then ''?'' else [c]
      | _ \<Rightarrow> ''?'')"

definition sf_string :: "string \<Rightarrow> string" where
  "sf_string s = char_of (34 :: nat) # concat (map sf_rune (runes s)) @ [char_of (34 :: nat)]"

record proxy_status =
  ps_err :: string
  ps_next_hop :: string
  ps_received :: int
  ps_details :: string

definition proxy_status_string :: "proxy_status \<Rightarrow> string" where
  "proxy_status_string p =
     ''tip'' @
     (if ps_err p = [] then [] else ''; error='' @ ps_err p) @
     (if ps_next_hop p = [] then [] else ''; next-hop='' @ sf_string (ps_next_hop p)) @
     (if ps_received p = 0 then [] else ''; received-status='' @ int_text (ps_received p)) @
     (if ps_details p = [] then [] else ''; details='' @ sf_string (ps_details p))"

definition dial_error_type :: "gerror \<Rightarrow> string" where
  "dial_error_type err =
     (let e = Some err in
      if error_is IsDns e then ''dns_error''
      else if error_is IsRefused e then ''connection_refused''
      else if error_is IsHostUnreach e \<or> error_is IsNetUnreach e then ''destination_ip_unroutable''
      else ''destination_unavailable'')"

definition tls_error_type :: "gerror \<Rightarrow> string option" where
  "tls_error_type err =
     map_option (\<lambda>text. let msg = to_lower text; e = Some err in
       if error_is IsCertVerification e \<or> contains ''certificate'' msg then ''tls_certificate_error''
       else if error_is IsAlert e \<or> contains ''alert'' msg then ''tls_alert_received''
       else ''tls_protocol_error'') (error_text err)"

definition error_type :: "diagnosis \<Rightarrow> gerror \<Rightarrow> string option" where
  "error_type d err =
     (if dg_kind d = ''timeout'' then
        Some (if dg_phase d \<noteq> PhaseNone \<or> \<not> dg_connected d then ''connection_timeout''
              else ''http_response_timeout'')
      else if dg_kind d = ''proxy_rejected'' then Some ''http_request_error''
      else if dg_kind d = ''tls'' then tls_error_type err
      else if dg_kind d = ''dial'' \<or> dg_kind d = ''proxy'' then
        (if dg_phase d = PhaseTLS then tls_error_type err else Some (dial_error_type err))
      else if error_is IsUnexpectedEof (Some err) then Some ''http_response_incomplete''
      else Some ''connection_terminated'')"

section \<open>Responses\<close>

record 'b response =
  rs_status :: int
  rs_status_line :: string
  rs_header :: header
  rs_content_length :: int
  rs_uncompressed :: bool
  rs_method :: "string option"
  rs_body :: 'b

text \<open>\<open>no_body\<close> is \<^verbatim>\<open>http.NoBody\<close>, \<open>meth\<close> the method of the request it answers.\<close>

definition synthetic :: "'b \<Rightarrow> string \<Rightarrow> int \<Rightarrow> header \<Rightarrow> 'b response" where
  "synthetic no_body meth status h =
     \<lparr>rs_status = status, rs_status_line = int_text status @ '' '' @ status_text status,
      rs_header = h_set ''Content-Length'' ''0'' h, rs_content_length = 0, rs_uncompressed = False,
      rs_method = Some meth, rs_body = no_body\<rparr>"

definition teapot :: "'b \<Rightarrow> string \<Rightarrow> issue list \<Rightarrow> 'b response" where
  "teapot no_body meth is =
     synthetic no_body meth 418
       (h_set ''Proxy-Status''
          (proxy_status_string \<lparr>ps_err = ''http_request_denied'', ps_next_hop = [], ps_received = 0,
             ps_details = []\<rparr>) (issues_headers is))"

definition unavailable :: "'b \<Rightarrow> string \<Rightarrow> 'b response" where
  "unavailable no_body meth =
     synthetic no_body meth 503
       (h_set ''Connection'' ''close''
         (h_set ''Proxy-Status''
            (proxy_status_string \<lparr>ps_err = ''proxy_internal_error'', ps_next_hop = [],
               ps_received = 0, ps_details = ''shutting down''\<rparr>)
            (h_set ''X-Tip-Error'' ''shutting down'' [])))"

definition unrelayed :: "string list" where
  "unrelayed =
     [''Connection'', ''Keep-Alive'', ''Proxy-Authenticate'', ''Proxy-Connection'', ''Te'',
      ''Trailer'', ''Transfer-Encoding'', ''Upgrade'', ''Content-Length'', ''Content-Encoding'',
      ''Content-Type'']"

definition connection_names :: "header \<Rightarrow> string set" where
  "connection_names src =
     set (map (\<lambda>name. canonical_key (trim_space name))
       (concat (map (split_on CHR '','') (h_values src ''Connection''))))"

definition skipped :: "header \<Rightarrow> string \<Rightarrow> bool" where
  "skipped src name =
     (name \<in> set unrelayed \<or> name \<in> connection_names src \<or> has_prefix tip_prefix name)"

definition relay :: "header \<Rightarrow> header \<Rightarrow> header" where
  "relay dst src =
     fold (\<lambda>(name, vs) h. if skipped src name then h else AList.update name vs h) src dst"

definition verdict_details :: "verdict \<Rightarrow> string" where
  "verdict_details v = redact_userinfo (verdict_line v)"

definition verdict_headers :: "verdict \<Rightarrow> header" where
  "verdict_headers v =
     (let h = h_set ''X-Tip-Proxy-Status'' (int_text (vd_status v)) (relay [] (vd_header v)) in
      if verdict_details v = [] then h
      else h_set ''X-Tip-Proxy-Error'' (single_line (verdict_details v)) h)"

definition upstream_failure :: "'b \<Rightarrow> string \<Rightarrow> diagnosis \<Rightarrow> gerror \<Rightarrow> 'b response option" where
  "upstream_failure no_body meth d err =
     (case error_type d err of
        None \<Rightarrow> None
      | Some ty \<Rightarrow>
          let h = (case dg_verdict d of None \<Rightarrow> [] | Some v \<Rightarrow> verdict_headers v);
              status = \<lparr>ps_err = ty, ps_next_hop = dg_next_hop d,
                        ps_received = (case dg_verdict d of None \<Rightarrow> 0 | Some v \<Rightarrow> vd_status v),
                        ps_details = (case dg_verdict d of None \<Rightarrow> [] | Some v \<Rightarrow> verdict_details v)\<rparr>;
              h' = h_set ''X-Tip-Error'' (dg_kind d @ '': '' @ single_line (dg_message d)) h;
              h'' = h_add ''Proxy-Status'' (proxy_status_string status) h'
          in Some (synthetic no_body meth (if dg_kind d = ''timeout'' then 504 else 502) h''))"

section \<open>Every failure has a diagnosis\<close>

definition kinds :: "string list" where
  "kinds = [''dial'', ''tls'', ''timeout'', ''proxy'', ''proxy_rejected'', ''read'']"

definition timed_out :: "gerror option \<Rightarrow> bool" where
  "timed_out e = (error_is IsCanceled e \<or> error_is IsDeadline e \<or> is_net_timeout e)"

lemma classify_hop: "find_hop err = Some (p, v, c) \<Longrightarrow>
    classify err = Some (if v \<noteq> None then ''proxy_rejected'' else if timed_out c then ''timeout'' else ''proxy'')"
  by (auto simp: classify_def timed_out_def)

lemma classify_other:
  assumes "find_hop err = None" "error_text err = Some msg"
  shows "\<exists>kind. classify err = Some kind \<and> kind \<in> set [''dial'', ''tls'', ''timeout'', ''proxy'', ''read''] \<and>
    (timed_out (Some err) \<longrightarrow> kind = ''timeout'')"
  using assms by (cases "timed_out (Some err)") (auto simp: classify_def timed_out_def Let_def)

lemma place_failure_other: "find_hop err = None \<Longrightarrow>
    \<exists>d'. place_failure err st m d = Some d' \<and> dg_kind d' = dg_kind d \<and> dg_verdict d' = dg_verdict d \<and>
      dg_phase d' = (if dg_kind d = ''timeout'' \<and> memo_phase m \<noteq> PhaseNone then memo_phase m else dg_phase d)"
  by (simp add: place_failure_def)

lemma diagnose_hop:
  assumes "find_hop err = Some (p, v, c)" "error_text err = Some msg" "error_text (Hop p v c) = Some t"
  shows "\<exists>d. diagnose url_parse err st m = Some d \<and> dg_verdict d = v \<and> dg_phase d = p \<and>
    dg_kind d = (if v \<noteq> None then ''proxy_rejected'' else if timed_out c then ''timeout'' else ''proxy'') \<and>
    dg_message d = redact_userinfo t"
proof -
  let ?kind = "if v \<noteq> None then ''proxy_rejected'' else if timed_out c then ''timeout'' else ''proxy''"
  let ?d = "\<lparr>dg_kind = ?kind, dg_message = msg, dg_phase = PhaseNone, dg_verdict = None,
      dg_connected = fc_connected st, dg_next_hop = next_hop url_parse st\<rparr>"
  have kind: "(if fc_proxy st \<noteq> [] \<and> ?kind = ''dial'' then ''proxy'' else ?kind) = ?kind"
    by (cases v; cases "timed_out c") simp_all
  have "place_failure err st m ?d = Some (?d\<lparr>dg_message := t, dg_phase := p, dg_verdict := v\<rparr>)"
    by (simp only: place_failure_def assms(1) option.case prod.case assms(3) option.map)
  then have eq: "diagnose url_parse err st m =
      Some (?d\<lparr>dg_message := redact_userinfo t, dg_phase := p, dg_verdict := v\<rparr>)"
    by (simp only: diagnose_def assms(2) classify_hop [OF assms(1)] kind prod.case option.case
        Let_def option.map diagnosis.simps)
  show ?thesis by (rule exI, intro conjI, rule eq) simp_all
qed

text \<open>
  C17. Every failure gets an answer. Its kind is one of the six documented ones: rejection by the
  upstream proxy exactly when the first hop error in it carries a verdict, a timeout whenever it was
  cancelled or timed out, and never a dial failure when an upstream proxy is in use. The phase is that
  of the hop error, or, for a timeout, the phase the memo saw under way; the message is redacted.
\<close>

theorem diagnose_sound:
  assumes "hop_formed err"
  shows "\<exists>d resp. diagnose url_parse err st m = Some d \<and> upstream_failure nb meth d err = Some resp \<and>
    dg_kind d \<in> set kinds \<and> (fc_proxy st \<noteq> [] \<longrightarrow> dg_kind d \<noteq> ''dial'') \<and>
    (dg_kind d = ''proxy_rejected'' \<longleftrightarrow> dg_verdict d \<noteq> None) \<and>
    (case find_hop err of
       Some (p, v, c) \<Rightarrow> dg_phase d = p \<and> dg_verdict d = v \<and>
         (v = None \<and> timed_out c \<longrightarrow> dg_kind d = ''timeout'')
     | None \<Rightarrow> dg_verdict d = None \<and> (timed_out (Some err) \<longrightarrow> dg_kind d = ''timeout'') \<and>
         dg_phase d = (if dg_kind d = ''timeout'' then memo_phase m else PhaseNone)) \<and>
    (\<exists>text. dg_message d = redact_userinfo text)"
proof -
  obtain msg where msg: "error_text err = Some msg" using error_text_formed [OF assms] by auto
  then have answered: "\<exists>resp. upstream_failure nb meth d err = Some resp" for d
    by (auto simp: upstream_failure_def error_type_def tls_error_type_def)
  show ?thesis
  proof (cases "find_hop err")
    case None
    from classify_other [OF None msg] obtain kind where k: "classify err = Some kind"
      "kind \<in> set [''dial'', ''tls'', ''timeout'', ''proxy'', ''read'']" "timed_out (Some err) \<longrightarrow> kind = ''timeout''"
      by blast
    let ?kind = "if fc_proxy st \<noteq> [] \<and> kind = ''dial'' then ''proxy'' else kind"
    have kk: "?kind \<in> set kinds" "?kind \<noteq> ''proxy_rejected''" "fc_proxy st \<noteq> [] \<longrightarrow> ?kind \<noteq> ''dial''"
      "timed_out (Some err) \<longrightarrow> ?kind = ''timeout''" using k(2,3) by (auto simp: kinds_def)
    obtain d where "diagnose url_parse err st m = Some d" "dg_kind d = ?kind" "dg_verdict d = None"
      "dg_phase d = (if ?kind = ''timeout'' then memo_phase m else PhaseNone)"
      "\<exists>text. dg_message d = redact_userinfo text"
    proof -
      let ?d = "\<lparr>dg_kind = ?kind, dg_message = msg, dg_phase = PhaseNone, dg_verdict = None,
          dg_connected = fc_connected st, dg_next_hop = next_hop url_parse st\<rparr>"
      from place_failure_other [OF None, of st m ?d] obtain d' where
        d': "place_failure err st m ?d = Some d'" "dg_kind d' = ?kind" "dg_verdict d' = None"
        "dg_phase d' = (if ?kind = ''timeout'' then memo_phase m else PhaseNone)" by auto
      have "diagnose url_parse err st m = Some (d'\<lparr>dg_message := redact_userinfo (dg_message d')\<rparr>)"
        by (simp only: diagnose_def msg k(1) prod.case option.case Let_def d'(1) option.map)
      with d' that [of "d'\<lparr>dg_message := redact_userinfo (dg_message d')\<rparr>"] show thesis by auto
    qed
    with kk answered [of d] None show ?thesis by (intro exI [of _ d]) auto
  next
    case (Some hop)
    then obtain p v c where hop: "find_hop err = Some (p, v, c)" by (cases hop) auto
    have "v \<noteq> None \<or> c \<noteq> None"
      using find_hop_node [OF hop] assms by (auto simp: hop_formed_def)
    moreover have "hop_formed e" if "c = Some e" for e
      using hop_cause_nodes [OF find_hop_node [OF hop, unfolded that]] assms
      unfolding hop_formed_def by blast
    ultimately obtain t where t: "error_text (Hop p v c) = Some t"
      by (cases v; cases c) (auto dest: error_text_formed)
    let ?kind = "if v \<noteq> None then ''proxy_rejected'' else if timed_out c then ''timeout'' else ''proxy''"
    obtain d where "diagnose url_parse err st m = Some d" "dg_kind d = ?kind" "dg_verdict d = v"
      "dg_phase d = p" "\<exists>text. dg_message d = redact_userinfo text"
      using diagnose_hop [OF hop msg t] that by blast
    with answered [of d] hop show ?thesis by (intro exI [of _ d]) (auto simp: kinds_def)
  qed
qed

theorem diagnose_sound_witness:
  "\<exists>d. diagnose (\<lambda>_. None) (Hop PhaseTLS None (Some (GErr ''i/o timeout'' [NetError True] [])))
     \<lparr>fc_host = ''h'', fc_proxy = [], fc_connected = False\<rparr> None = Some d \<and> dg_phase d = PhaseTLS \<and>
     dg_kind d = ''timeout''"
proof -
  let ?e = "Hop PhaseTLS None (Some (GErr ''i/o timeout'' [NetError True] []))"
  let ?st = "\<lparr>fc_host = ''h'', fc_proxy = [], fc_connected = False\<rparr>"
  have "hop_formed ?e" by (simp add: hop_formed_def)
  moreover have "timed_out (Some (GErr ''i/o timeout'' [NetError True] []))"
    by (simp add: timed_out_def is_net_timeout_def net_timeouts_def)
  moreover obtain d where "diagnose (\<lambda>_. None) ?e ?st None = Some d" "case find_hop ?e of
       Some (p, v, c) \<Rightarrow> dg_phase d = p \<and> dg_verdict d = v \<and>
         (v = None \<and> timed_out c \<longrightarrow> dg_kind d = ''timeout'')
     | None \<Rightarrow> dg_verdict d = None \<and> (timed_out (Some ?e) \<longrightarrow> dg_kind d = ''timeout'') \<and>
         dg_phase d = (if dg_kind d = ''timeout'' then memo_phase None else PhaseNone)"
    using diagnose_sound [OF \<open>hop_formed ?e\<close>, of "\<lambda>_. None" ?st None "()" "[]"] by blast
  ultimately show ?thesis by (intro exI [of _ d]) simp
qed

section \<open>Structured field strings\<close>

definition printable :: "char \<Rightarrow> bool" where
  "printable c = (32 \<le> (of_char c :: nat) \<and> of_char c \<le> (126 :: nat))"

text \<open>The text a reader of RFC 8941 gets: one character for each rune.\<close>

definition sf_clean_rune :: "rune \<Rightarrow> char" where
  "sf_clean_rune r =
     (case r of Rune [c] \<Rightarrow> if printable c then c else CHR ''?'' | _ \<Rightarrow> CHR ''?'')"

definition sf_clean :: "string \<Rightarrow> string" where
  "sf_clean s = map sf_clean_rune (runes s)"

fun sf_unquote :: "string \<Rightarrow> (string \<times> string) option" where
  "sf_unquote [] = None"
| "sf_unquote (c # s) =
     (if of_char c = (34 :: nat) then Some ([], s)
      else if of_char c = (92 :: nat) then
        (case s of
           [] \<Rightarrow> None
         | e # s' \<Rightarrow>
             if of_char e \<in> {34, 92 :: nat} then map_option (\<lambda>(t, r). (e # t, r)) (sf_unquote s')
             else None)
      else if printable c then map_option (\<lambda>(t, r). (c # t, r)) (sf_unquote s)
      else None)"

fun sf_parse :: "string \<Rightarrow> (string \<times> string) option" where
  "sf_parse [] = None"
| "sf_parse (c # s) = (if of_char c = (34 :: nat) then sf_unquote s else None)"

lemma question_chars: "printable CHR ''?''" "of_char CHR ''?'' = (63 :: nat)"
  by (simp_all add: printable_def)

lemma sf_rune_cases:
  obtains "sf_rune r = [sf_clean_rune r]" "printable (sf_clean_rune r)" "of_char (sf_clean_rune r) \<notin> {34, 92 :: nat}"
  | "sf_rune r = [char_of (92 :: nat), sf_clean_rune r]" "of_char (sf_clean_rune r) \<in> {34, 92 :: nat}"
proof (cases "\<exists>c. r = Rune [c]")
  case False
  then have "sf_rune r = ''?''" "sf_clean_rune r = CHR ''?''"
    by (auto simp: sf_rune_def sf_clean_rune_def split: rune.splits list.splits)
  with that(1) question_chars show ?thesis by simp
next
  case True
  then obtain c where r: "r = Rune [c]" by blast
  show ?thesis
  proof (cases "of_char c \<in> {34, 92 :: nat}")
    case True
    then have "printable c" by (auto simp: printable_def)
    with True r that(2) show ?thesis by (simp add: sf_rune_def sf_clean_rune_def)
  next
    case False
    with r that(1) question_chars show ?thesis
      by (cases "printable c") (auto simp: sf_rune_def sf_clean_rune_def printable_def)
  qed
qed

lemma sf_unquote_runes:
  "sf_unquote (concat (map sf_rune rs) @ char_of (34 :: nat) # rest) = Some (map sf_clean_rune rs, rest)"
proof (induction rs)
  case (Cons r rs)
  then show ?case
    by (cases r rule: sf_rune_cases) (auto simp: of_char_of)
qed (simp add: of_char_of)

lemma sf_rune_printable: "list_all printable (sf_rune r)"
  by (cases r rule: sf_rune_cases) (auto simp: printable_def of_char_of)

lemma sf_string_printable: "list_all printable (sf_string s)"
proof -
  have "list_all printable (concat (map sf_rune rs))" for rs
    by (induction rs) (simp_all add: sf_rune_printable)
  moreover have "printable (char_of (34 :: nat))" by (simp add: printable_def of_char_of)
  ultimately show ?thesis by (simp add: sf_string_def)
qed

text \<open>
  C29. Whatever text goes into a Proxy-Status parameter, a reader of structured fields gets back
  exactly one string and what follows it: the text itself when it is printable ASCII, else with one
  question mark for each rune that is not. Only printable characters are written, so neither a line
  break nor a quote can end the field early.
\<close>

theorem sf_string_reads_back:
  "sf_parse (sf_string s @ rest) = Some (sf_clean s, rest) \<and>
   list_all printable (sf_string s) \<and> list_all printable (sf_clean s) \<and>
   (list_all printable s \<longrightarrow> sf_clean s = s)"
proof (intro conjI impI)
  show "sf_parse (sf_string s @ rest) = Some (sf_clean s, rest)"
    by (simp add: sf_string_def sf_clean_def of_char_of sf_unquote_runes)
  show "list_all printable (sf_string s)" by (rule sf_string_printable)
  have "printable (sf_clean_rune r)" for r
    using question_chars by (auto simp: sf_clean_rune_def split: rune.splits list.splits)
  then show "list_all printable (sf_clean s)" by (simp add: sf_clean_def list_all_iff)
  assume p: "list_all printable s"
  then have "list_all (\<lambda>c. byte c < 128) s" by (auto simp: list_all_iff printable_def byte_def)
  then have "runes s = map (\<lambda>c. Rune [c]) s" by (rule runes_ascii)
  with p show "sf_clean s = s"
    by (simp add: sf_clean_def comp_def sf_clean_rune_def list_all_iff map_idI)
qed

theorem sf_string_reads_back_witness: "sf_clean ''a b'' = ''a b''"
proof -
  have "list_all printable ''a b''" by code_simp
  with sf_string_reads_back [of "''a b''" "[]"] show ?thesis by blast
qed

section \<open>The response to an upstream failure\<close>

lemma raw_values_relay:
  assumes "distinct (map fst src)"
  shows "raw_values (fold (\<lambda>(name, vs) h. if P name then h else AList.update name vs h) src dst) n =
    (if n \<in> fst ` set src \<and> \<not> P n then raw_values src n else raw_values dst n)"
  using assms
proof (induction src arbitrary: dst)
  case (Cons e src)
  obtain k vs where e: "e = (k, vs)" by (cases e)
  with Cons show ?case
    by (auto simp: raw_values_def update_conv' split: option.splits dest: map_of_SomeD)
qed simp

lemma header_wf_relay:
  "header_wf dst \<Longrightarrow>
   header_wf (fold (\<lambda>(name, vs) h. if P name then h else AList.update name vs h) src dst)"
  by (induction src arbitrary: dst) (auto simp: header_wf_def distinct_update)

lemma raw_values_absent: "n \<notin> fst ` set h \<Longrightarrow> raw_values h n = []"
  by (simp add: raw_values_def map_of_eq_None_iff [THEN iffD2])

lemma relay_values:
  "header_wf src \<Longrightarrow> raw_values (relay [] src) n = (if skipped src n then [] else raw_values src n)"
  using raw_values_relay [of src "skipped src" "[]" n]
  by (cases "n \<in> fst ` set src") (auto simp: relay_def header_wf_def raw_values_absent raw_values_def [of "[]"])

definition verdict_header :: "diagnosis \<Rightarrow> header" where
  "verdict_header d = (case dg_verdict d of None \<Rightarrow> [] | Some v \<Rightarrow> vd_header v)"

definition relayed :: "diagnosis \<Rightarrow> string \<Rightarrow> string list" where
  "relayed d n = (if skipped (verdict_header d) n then [] else raw_values (verdict_header d) n)"

lemma canonical_names:
  "canonical_key ''Content-Length'' = ''Content-Length''"
  "canonical_key ''X-Tip-Error'' = ''X-Tip-Error''"
  "canonical_key ''X-Tip-Proxy-Status'' = ''X-Tip-Proxy-Status''"
  "canonical_key ''X-Tip-Proxy-Error'' = ''X-Tip-Proxy-Error''"
  "canonical_key ''Proxy-Status'' = ''Proxy-Status''"
  by code_simp+

lemma error_type_printable: "error_type d err = Some ty \<Longrightarrow> list_all printable ty"
proof -
  assume "error_type d err = Some ty"
  then have "ty \<in> set [''connection_timeout'', ''http_response_timeout'', ''http_request_error'',
      ''tls_certificate_error'', ''tls_alert_received'', ''tls_protocol_error'', ''dns_error'',
      ''connection_refused'', ''destination_ip_unroutable'', ''destination_unavailable'',
      ''http_response_incomplete'', ''connection_terminated'']" (is "_ \<in> set ?types")
    by (auto simp: error_type_def tls_error_type_def dial_error_type_def Let_def
        split: if_splits)
  moreover have "list_all (list_all printable) ?types" by code_simp
  ultimately show ?thesis unfolding list_all_iff [of "list_all printable"] by (rule bspec [rotated])
qed

lemma printable_digit: "is_digit c \<Longrightarrow> printable c"
  by (simp add: is_digit_def printable_def Let_def)

lemma int_text_printable: "list_all printable (int_text n)"
proof -
  have "printable CHR ''-''" by code_simp
  then show ?thesis
    by (auto simp: int_text_def list_all_iff dest: itoa_digits intro: printable_digit)
qed

lemma proxy_status_printable:
  "list_all printable (ps_err p) \<Longrightarrow> list_all printable (proxy_status_string p)"
proof -
  have "list_all (list_all printable)
      [''tip'', ''; error='', ''; next-hop='', ''; received-status='', ''; details='']" by code_simp
  moreover assume "list_all printable (ps_err p)"
  ultimately show ?thesis
    by (simp add: proxy_status_string_def int_text_printable sf_string_printable)
qed

lemma upstream_failure_parts:
  assumes "upstream_failure nb meth d err = Some resp"
  shows "\<exists>entry. list_all printable entry \<and> rs_header resp =
      h_set ''Content-Length'' ''0'' (h_add ''Proxy-Status'' entry
        (h_set ''X-Tip-Error'' (dg_kind d @ '': '' @ single_line (dg_message d))
          (case dg_verdict d of None \<Rightarrow> [] | Some v \<Rightarrow> verdict_headers v))) \<and>
    rs_status resp = (if dg_kind d = ''timeout'' then 504 else 502) \<and> rs_body resp = nb \<and>
    rs_content_length resp = 0"
proof -
  from assms obtain ty where ty: "error_type d err = Some ty"
    by (auto simp: upstream_failure_def split: option.splits)
  let ?p = "\<lparr>ps_err = ty, ps_next_hop = dg_next_hop d,
      ps_received = (case dg_verdict d of None \<Rightarrow> 0 | Some v \<Rightarrow> vd_status v),
      ps_details = (case dg_verdict d of None \<Rightarrow> [] | Some v \<Rightarrow> verdict_details v)\<rparr>"
  have "list_all printable (proxy_status_string ?p)"
    using error_type_printable [OF ty] by (intro proxy_status_printable) simp
  with assms ty show ?thesis
    by (intro exI [of _ "proxy_status_string ?p"])
      (auto simp: upstream_failure_def synthetic_def Let_def)
qed

lemma skipped_tip: "skipped h ''X-Tip-Proxy-Error''" "skipped h ''X-Tip-Proxy-Status''"
  by (simp_all add: skipped_def has_prefix_def tip_prefix_def)

lemma relayed_none: "dg_verdict d = None \<Longrightarrow> relayed d n = []"
  by (simp add: relayed_def verdict_header_def raw_values_def)


definition refused_diagnosis :: diagnosis where
  "refused_diagnosis =
     \<lparr>dg_kind = ''proxy_rejected'', dg_message = ''CONNECT 407'', dg_phase = PhaseConnect,
      dg_verdict = Some \<lparr>vd_status = 407, vd_header = [(''X-Why'', [''a'']), (''Connection'', [''x-why''])],
        vd_body = []\<rparr>, dg_connected = False, dg_next_hop = ''p:1''\<rparr>"


end
