(* ===== verification/Tip_Encoding.thy ===== *)
theory Tip_Encoding
  imports Tip_Failure "HOL-Library.Word" "HOL-Library.Sublist"
begin

unbundle bit_operations_syntax

text \<open>
  Bodies (\<^verbatim>\<open>internal/proxy/body.go\<close>) and content encodings (\<^verbatim>\<open>internal/proxy/encoding.go\<close>).
  A body is the stack of wrappers the code builds over what the transport delivers. A read
  names the size of its buffer and how much the source has ready. What a decompressor makes of its input is
  an argument; how \<^verbatim>\<open>gzip.NewReader\<close> and \<^verbatim>\<open>zlib.NewReader\<close> read the header of a stream is modelled,
  for it decides how much of the body is gone when they refuse it.
\<close>

section \<open>Bodies\<close>

datatype read_end = Eof | Broken

text \<open>
  \<open>Source\<close> holds the bytes not yet read, how they end, and whether the body is an \<^verbatim>\<open>io.Writer\<close> too;
  \<open>Decoded\<close> the text the decoder still gives, how it ends, and the body it closes. \<open>Counting\<close> has the
  count so far, \<open>Hooked\<close> whether its function has run, \<open>Replayable\<close> whether it was read.
\<close>

datatype 'f body =
    NoBody
  | Source string read_end bool
  | Peeked string read_end "'f body"
  | Decoded string read_end "'f body"
  | Counting "'f body" nat
  | Hooked "'f body" bool 'f
  | ReadWrite "'f body"
  | Replayable "'f body" bool

fun is_writer :: "'f body \<Rightarrow> bool" where
  "is_writer (Source data e w) = w"
| "is_writer (ReadWrite b) = True"
| "is_writer _ = False"

definition preserve_writer :: "'f body \<Rightarrow> 'f body \<Rightarrow> 'f body" where
  "preserve_writer original wrapped = (if is_writer original then ReadWrite wrapped else wrapped)"

definition count_reads :: "'f body \<Rightarrow> 'f body" where
  "count_reads b = preserve_writer b (Counting b 0)"

definition on_close :: "'f body \<Rightarrow> 'f \<Rightarrow> 'f body" where
  "on_close b f = preserve_writer b (Hooked b False f)"

definition read_text :: "nat \<Rightarrow> nat \<Rightarrow> string \<Rightarrow> read_end \<Rightarrow> string \<times> read_end option \<times> string" where
  "read_text room ready text e =
     (if text = [] then ([], Some e, [])
      else (take (min room ready) text, None, drop (min room ready) text))"

fun read_body :: "nat \<Rightarrow> nat \<Rightarrow> 'f body \<Rightarrow> string \<times> read_end option \<times> 'f body" where
  "read_body room ready NoBody = ([], Some Eof, NoBody)"
| "read_body room ready (Source data e w) =
     (let (p, r, data') = read_text room ready data e in (p, r, Source data' e w))"
| "read_body room ready (Peeked data e b) =
     (let (p, r, data') = read_text room ready data e in (p, r, Peeked data' e b))"
| "read_body room ready (Decoded text e b) =
     (let (p, r, text') = read_text room ready text e in (p, r, Decoded text' e b))"
| "read_body room ready (Counting b n) =
     (let (p, r, b') = read_body room ready b in (p, r, Counting b' (n + length p)))"
| "read_body room ready (Hooked b fired f) =
     (let (p, r, b') = read_body room ready b in (p, r, Hooked b' fired f))"
| "read_body room ready (ReadWrite b) =
     (let (p, r, b') = read_body room ready b in (p, r, ReadWrite b'))"
| "read_body room ready (Replayable b consumed) =
     (let (p, r, b') = read_body room ready b in (p, r, Replayable b' (consumed \<or> p \<noteq> [])))"

datatype 'f close_event = SourceClosed | Fired 'f

fun close_body :: "'f body \<Rightarrow> 'f close_event list \<times> 'f body" where
  "close_body NoBody = ([], NoBody)"
| "close_body (Source data e w) = ([SourceClosed], Source data e w)"
| "close_body (Peeked data e b) = (let (es, b') = close_body b in (es, Peeked data e b'))"
| "close_body (Decoded text e b) = (let (es, b') = close_body b in (es, Decoded text e b'))"
| "close_body (Counting b n) = (let (es, b') = close_body b in (es, Counting b' n))"
| "close_body (Hooked b fired f) =
     (let (es, b') = close_body b in (es @ (if fired then [] else [Fired f]), Hooked b' True f))"
| "close_body (ReadWrite b) = (let (es, b') = close_body b in (es, ReadWrite b'))"
| "close_body (Replayable b c) = (let (es, b') = close_body b in (es, Replayable b' c))"

text \<open>\<^verbatim>\<open>GetBody\<close>: the same body, unless something was read from it.\<close>

fun replay :: "'f body \<Rightarrow> 'f body option" where
  "replay (Replayable b consumed) = (if consumed then None else Some (Replayable b consumed))"
| "replay b = None"

section \<open>Stream headers\<close>

definition crc_bit :: "32 word \<Rightarrow> 32 word" where
  "crc_bit c = (if c AND 1 = 1 then drop_bit 1 c XOR 0xEDB88320 else drop_bit 1 c)"

definition crc_byte :: "32 word \<Rightarrow> char \<Rightarrow> 32 word" where
  "crc_byte c b = (crc_bit ^^ 8) (c XOR of_nat (byte b))"

definition crc32 :: "string \<Rightarrow> 32 word" where
  "crc32 s = NOT (fold (\<lambda>b c. crc_byte c b) s (NOT 0))"

text \<open>
  \<^verbatim>\<open>io.ReadFull\<close> for \<open>n\<close> bytes, and \<^verbatim>\<open>gzip\<close>'s \<^verbatim>\<open>readString\<close>, up to a zero byte among
  the first 512: what was read, or \<open>None\<close>, with the bytes left in the source.
\<close>

definition read_full :: "nat \<Rightarrow> string \<Rightarrow> string option \<times> string" where
  "read_full n s = (if n \<le> length s then (Some (take n s), drop n s) else (None, []))"

definition read_string :: "string \<Rightarrow> string option \<times> string" where
  "read_string s =
     (let pre = takeWhile (\<lambda>c. byte c \<noteq> 0) (take 512 s) in
      if length pre < length (take 512 s)
      then (Some (take (Suc (length pre)) s), drop (Suc (length pre)) s)
      else (None, drop 512 s))"

definition le16 :: "string \<Rightarrow> nat" where
  "le16 s = byte (s ! 0) + 256 * byte (s ! 1)"

definition flag :: "nat \<Rightarrow> char \<Rightarrow> bool" where
  "flag i c = bit (byte c) i"

text \<open>One optional field of the header: \<open>rd\<close> reads it when the flag is set.\<close>

definition field ::
  "bool \<Rightarrow> (string \<Rightarrow> string option \<times> string) \<Rightarrow> string option \<times> string \<Rightarrow> string option \<times> string" where
  "field present rd st =
     (case st of
        (None, s) \<Rightarrow> (None, s)
      | (Some seen, s) \<Rightarrow>
          if present then (case rd s of (None, s') \<Rightarrow> (None, s') | (Some t, s') \<Rightarrow> (Some (seen @ t), s'))
          else (Some seen, s))"

definition read_extra :: "string \<Rightarrow> string option \<times> string" where
  "read_extra s =
     (case read_full 2 s of
        (None, s') \<Rightarrow> (None, s')
      | (Some len, s') \<Rightarrow>
          (case read_full (le16 len) s' of
             (None, s'') \<Rightarrow> (None, s'')
           | (Some data, s'') \<Rightarrow> (Some (len @ data), s'')))"

text \<open>\<^verbatim>\<open>gzip.NewReader\<close>: whether it accepts the header, and the bytes it leaves.\<close>

definition gzip_header :: "string \<Rightarrow> bool \<times> string" where
  "gzip_header s =
     (case read_full 10 s of
        (None, s') \<Rightarrow> (False, s')
      | (Some h, s') \<Rightarrow>
          if byte (h ! 0) \<noteq> 0x1f \<or> byte (h ! 1) \<noteq> 0x8b \<or> byte (h ! 2) \<noteq> 8 then (False, s')
          else
            (case field (flag 4 (h ! 3)) read_string (field (flag 3 (h ! 3)) read_string
                    (field (flag 2 (h ! 3)) read_extra (Some h, s'))) of
               (None, s'') \<Rightarrow> (False, s'')
             | (Some seen, s'') \<Rightarrow>
                 if flag 1 (h ! 3) then
                   (case read_full 2 s'' of
                      (None, r) \<Rightarrow> (False, r)
                    | (Some crc, r) \<Rightarrow> (of_nat (le16 crc) = (ucast (crc32 seen) :: 16 word), r))
                 else (True, s'')))"

text \<open>The checks of the two header bytes of a zlib stream; \<^verbatim>\<open>head16\<close> is the big-endian pair.\<close>

definition head16 :: "string \<Rightarrow> 16 word" where
  "head16 h = (push_bit 8 (of_nat (byte (h ! 0))) OR of_nat (byte (h ! 1)))"

definition low_nibble :: "char \<Rightarrow> 8 word" where
  "low_nibble c = of_nat (byte c) AND 0x0f"

definition zlib_checks :: "string \<Rightarrow> bool" where
  "zlib_checks h = (low_nibble (h ! 0) = 8 \<and> head16 h mod 31 = 0)"

text \<open>\<^verbatim>\<open>zlib.NewReader\<close>; a preset dictionary is accepted only with the checksum of none, 1.\<close>

definition zlib_header :: "string \<Rightarrow> bool \<times> string" where
  "zlib_header s =
     (case read_full 2 s of
        (None, s') \<Rightarrow> (False, s')
      | (Some h, s') \<Rightarrow>
          if \<not> zlib_checks h \<or> 7 < byte (h ! 0) div 16 then (False, s')
          else if flag 5 (h ! 1) then
            (case read_full 4 s' of
               (None, r) \<Rightarrow> (False, r)
             | (Some d, r) \<Rightarrow> (map byte d = [0, 0, 0, 1], r))
          else (True, s'))"

section \<open>Negotiation\<close>

text \<open>
  What the decompressors do: the text of an encoded body and how it ends, and whether
  \<^verbatim>\<open>zstd.NewReader\<close> accepts it, with what it leaves of it. How far a decoder or a buffer has read
  ahead of its reader is left open: a \<open>Decoded\<close> or \<open>Peeked\<close> body owns the bytes of the body below,
  whose own count then says nothing.
\<close>

record codecs =
  cd_text :: "string \<Rightarrow> string \<Rightarrow> read_end \<Rightarrow> string \<times> read_end"
  cd_zstd :: "string \<Rightarrow> bool \<times> string"

definition accept_encodings :: "string list \<Rightarrow> string list" where
  "accept_encodings values =
     filter (\<lambda>t. t \<noteq> [])
       (map (\<lambda>part. to_lower (trim_space (fst (cut CHR '';'' part))))
         (concat (map (split_on CHR '','') values)))"

definition gzip_magic :: string where
  "gzip_magic = map char_of [0x1f, 0x8b :: nat]"

definition zstd_magic :: string where
  "zstd_magic = map char_of [0x28, 0xb5, 0x2f, 0xfd :: nat]"

definition starts_with :: "string \<Rightarrow> string \<Rightarrow> bool" where
  "starts_with data magic = (length magic \<le> length data \<and> take (length magic) data = magic)"

text \<open>The bytes a body still delivers, and how it ends.\<close>

fun remaining :: "'f body \<Rightarrow> string \<times> read_end" where
  "remaining NoBody = ([], Eof)"
| "remaining (Source data e w) = (data, e)"
| "remaining (Peeked data e b) = (data, e)"
| "remaining (Decoded text e b) = (text, e)"
| "remaining (Counting b n) = remaining b"
| "remaining (Hooked b fired f) = remaining b"
| "remaining (ReadWrite b) = remaining b"
| "remaining (Replayable b consumed) = remaining b"

definition zlib_start :: "string \<Rightarrow> bool" where
  "zlib_start data = (2 \<le> length data \<and> zlib_checks (take 2 data))"

definition decoder :: "codecs \<Rightarrow> string \<Rightarrow> 'f body \<Rightarrow> 'f body \<times> bool" where
  "decoder cd encoding b =
     (let (data, e) = remaining b;
          source = Peeked data e b;
          opened = (\<lambda>(ok, rest).
            if ok then (let (text, e') = cd_text cd encoding data e in (Decoded text e' b, True))
            else (Peeked rest e b, False))
      in
      if encoding = ''gzip'' then
        (if \<not> starts_with data gzip_magic then (source, False) else opened (gzip_header data))
      else if encoding = ''deflate'' then
        (if \<not> zlib_start data then (source, False) else opened (zlib_header data))
      else if encoding = ''br'' then opened (True, data)
      else if encoding = ''zstd'' then
        (if \<not> starts_with data zstd_magic then (source, False) else opened (cd_zstd cd data))
      else (source, False))"

definition negotiate ::
  "codecs \<Rightarrow> string \<Rightarrow> string list \<Rightarrow> 'f body response \<Rightarrow> 'f body response" where
  "negotiate cd mode accept resp =
     (let encoding = to_lower (trim_space (h_get (rs_header resp) ''Content-Encoding'')) in
      if encoding = [] \<or> encoding = ''identity'' \<or> mode = ''passthrough'' then resp
      else if mode = ''negotiate'' \<and> (encoding \<in> set accept \<or> ''*'' \<in> set accept) then resp
      else if rs_status resp = 204 \<or> rs_status resp = 304 \<or> rs_content_length resp = 0 \<or>
              rs_method resp = Some ''HEAD'' then resp
      else
        (let (b, decodable) = decoder cd encoding (rs_body resp) in
         if \<not> decodable then resp\<lparr>rs_body := b\<rparr>
         else resp\<lparr>rs_body := b,
                   rs_header := h_del ''Content-Length'' (h_del ''Content-Encoding'' (rs_header resp)),
                   rs_content_length := -1, rs_uncompressed := True\<rparr>))"

section \<open>What a header reader leaves\<close>

lemma read_full_suffix: "suffix (snd (read_full n s)) s"
  by (simp add: read_full_def suffix_drop)

lemma read_string_suffix: "suffix (snd (read_string s)) s"
  by (simp add: read_string_def Let_def suffix_drop)

lemma suffix_read: "rd s = (r, t) \<Longrightarrow> suffix (snd (rd s)) s \<Longrightarrow> suffix t s"
  by simp

lemma read_extra_suffix: "suffix (snd (read_extra s)) s"
proof -
  obtain r t where 1: "read_full 2 s = (r, t)" by fastforce
  obtain r' t' where 2: "read_full (le16 (the r)) t = (r', t')" by fastforce
  have "suffix t s" "suffix t' t"
    using suffix_read [where rd = "read_full _", OF 1 read_full_suffix]
      suffix_read [where rd = "read_full _", OF 2 read_full_suffix] by auto
  then have "suffix t s" "suffix t' s" by (auto intro: suffix_order.trans)
  with 1 2 show ?thesis by (cases r; cases r') (simp_all add: read_extra_def)
qed

lemma field_suffix:
  assumes "\<And>s. suffix (snd (rd s)) s" "suffix (snd st) s0"
  shows "suffix (snd (field present rd st)) s0"
proof -
  obtain seen s where st: "st = (seen, s)" by fastforce
  obtain r t where r: "rd s = (r, t)" by fastforce
  have "suffix t s0" using assms(1) [of s] assms(2) st r by (auto intro: suffix_order.trans)
  with assms(2) st r show ?thesis by (cases seen; cases r) (auto simp: field_def)
qed

lemma gzip_header_suffix: "suffix (snd (gzip_header s)) s"
proof -
  obtain r t where 1: "read_full 10 s = (r, t)" by fastforce
  let ?h = "the r"
  let ?fields = "field (flag 4 (?h ! 3)) read_string (field (flag 3 (?h ! 3)) read_string
      (field (flag 2 (?h ! 3)) read_extra (Some ?h, t)))"
  have t: "suffix t s" by (rule suffix_read [where rd = "read_full _", OF 1 read_full_suffix])
  then have f: "suffix (snd ?fields) s"
    by (intro field_suffix read_string_suffix read_extra_suffix) simp
  obtain seen u where 2: "?fields = (seen, u)" by fastforce
  obtain r' v where 3: "read_full 2 u = (r', v)" by fastforce
  have "suffix u s" using f 2 by simp
  moreover from this have "suffix v s"
    using suffix_read [where rd = "read_full _", OF 3 read_full_suffix] by (auto intro: suffix_order.trans)
  ultimately show ?thesis
    using 1 2 3 t by (cases r; cases seen; cases r') (simp_all add: gzip_header_def)
qed

lemma zlib_header_suffix: "suffix (snd (zlib_header s)) s"
proof -
  obtain r t where 1: "read_full 2 s = (r, t)" by fastforce
  obtain r' u where 2: "read_full 4 t = (r', u)" by fastforce
  have t: "suffix t s" by (rule suffix_read [where rd = "read_full _", OF 1 read_full_suffix])
  moreover from this have "suffix u s"
    using suffix_read [where rd = "read_full _", OF 2 read_full_suffix] by (auto intro: suffix_order.trans)
  ultimately show ?thesis using 1 2 by (cases r; cases r') (simp_all add: zlib_header_def)
qed

section \<open>What negotiation does\<close>

definition content_coding :: "'b response \<Rightarrow> string" where
  "content_coding resp = to_lower (trim_space (h_get (rs_header resp) ''Content-Encoding''))"

definition readable :: "string \<Rightarrow> string list \<Rightarrow> string \<Rightarrow> bool" where
  "readable mode accept enc =
     (enc \<in> {[], ''identity''} \<or> mode = ''passthrough'' \<or>
      mode = ''negotiate'' \<and> (enc \<in> set accept \<or> ''*'' \<in> set accept))"

definition bodiless :: "'b response \<Rightarrow> bool" where
  "bodiless resp =
     (rs_status resp \<in> {204, 304} \<or> rs_content_length resp = 0 \<or> rs_method resp = Some ''HEAD'')"

text \<open>A stream that begins as its coding says, but whose header the decompressor refuses.\<close>

definition header_refused :: "codecs \<Rightarrow> string \<Rightarrow> string \<Rightarrow> bool" where
  "header_refused cd enc data =
     (enc = ''gzip'' \<and> starts_with data gzip_magic \<and> \<not> fst (gzip_header data) \<or>
      enc = ''deflate'' \<and> zlib_start data \<and> \<not> fst (zlib_header data) \<or>
      enc = ''zstd'' \<and> starts_with data zstd_magic \<and> \<not> fst (cd_zstd cd data))"

text \<open>The usual streams: gzip without optional fields, zlib without a dictionary, any brotli.\<close>

definition plain_stream :: "string \<Rightarrow> string \<Rightarrow> bool" where
  "plain_stream enc data =
     (enc = ''gzip'' \<and> 10 \<le> length data \<and> map byte (take 4 data) = [0x1f, 0x8b, 8, 0] \<or>
      enc = ''deflate'' \<and> zlib_start data \<and> byte (data ! 0) < 128 \<and> \<not> flag 5 (data ! 1) \<or>
      enc = ''br'')"

lemma decoder_sound:
  assumes "\<And>data. suffix (snd (cd_zstd cd data)) data"
    and dec: "decoder cd enc b = (b', ok)" and rem: "remaining b = (data, e)"
  shows "fst (close_body b') = fst (close_body b) \<and>
    (if ok then remaining b' = cd_text cd enc data e
     else \<exists>k. remaining b' = (drop k data, e) \<and> (k = 0 \<or> header_refused cd enc data))"
proof -
  let ?opened = "\<lambda>(ok, rest).
      if ok then (let (text, e') = cd_text cd enc data e in (Decoded text e' b, True))
      else (Peeked rest e b, False)"
  have opened: "fst (close_body b') = fst (close_body b) \<and>
      (if ok then remaining b' = cd_text cd enc data e
       else \<exists>k. remaining b' = (drop k data, e) \<and> (k = 0 \<or> header_refused cd enc data))"
    if "?opened hd = (b', ok)" and suffix: "suffix (snd hd) data"
      and "\<not> fst hd \<Longrightarrow> header_refused cd enc data" for hd
  proof -
    from suffix obtain p where "data = p @ snd hd" by (auto simp: suffix_def)
    then have "snd hd = drop (length p) data" by simp
    with that show ?thesis
      by (cases hd; cases "fst hd") (auto simp: Let_def split: prod.splits)
  qed
  have peeked: ?thesis if "(Peeked data e b, False) = (b', ok)"
    using that by (auto intro: exI [of _ 0] split: prod.splits)
  consider "(Peeked data e b, False) = (b', ok)"
    | "enc = ''gzip''" "starts_with data gzip_magic" "?opened (gzip_header data) = (b', ok)"
    | "enc = ''deflate''" "zlib_start data" "?opened (zlib_header data) = (b', ok)"
    | "enc = ''br''" "?opened (True, data) = (b', ok)"
    | "enc = ''zstd''" "starts_with data zstd_magic" "?opened (cd_zstd cd data) = (b', ok)"
    using dec unfolding decoder_def rem Let_def prod.case by (metis (no_types, lifting))
  then show ?thesis
  proof cases
    case 1
    then show ?thesis by (rule peeked)
  next
    case 2
    then show ?thesis by (intro opened) (auto simp: gzip_header_suffix header_refused_def)
  next
    case 3
    then show ?thesis by (intro opened) (auto simp: zlib_header_suffix header_refused_def)
  next
    case 4
    then show ?thesis by (intro opened [of "(True, data)"]) auto
  next
    case 5
    then show ?thesis by (intro opened) (auto simp: assms(1) header_refused_def)
  qed
qed

lemma plain_stream_accepted:
  assumes "plain_stream enc data"
  shows "snd (decoder cd enc b) \<or> fst (remaining b) \<noteq> data"
proof (cases "enc = ''gzip''")
  case True
  with assms have "10 \<le> length data" and four: "map byte (take 4 data) = [0x1f, 0x8b, 8, 0]"
    by (auto simp: plain_stream_def)
  then obtain c0 c1 c2 c3 rest where data: "data = c0 # c1 # c2 # c3 # rest"
    by (auto simp: numeral_eq_Suc Suc_le_length_iff)
  with four have bytes: "byte c0 = 0x1f" "byte c1 = 0x8b" "byte c2 = 8" "byte c3 = 0" by simp_all
  then have "c0 = char_of (0x1f :: nat)" "c1 = char_of (0x8b :: nat)"
    by (metis byte_def char_of_char)+
  then have "starts_with data gzip_magic"
    using \<open>10 \<le> length data\<close> data by (simp add: starts_with_def gzip_magic_def)
  moreover have "fst (gzip_header data)"
    using \<open>10 \<le> length data\<close> bytes
    by (simp add: gzip_header_def read_full_def data field_def flag_def)
  ultimately show ?thesis
    by (auto simp: decoder_def Let_def True split: prod.splits)
next
  case False
  with assms show ?thesis
    by (cases "enc = ''br''")
      (auto simp: plain_stream_def decoder_def Let_def zlib_header_def read_full_def zlib_start_def
        split: prod.splits)
qed

text \<open>
  C20. Negotiation changes nothing but the coding of the body. A client that can read the coding, or
  whose response has no body, gets the response as it came; else the body is decoded, and exactly
  Content-Encoding and Content-Length disappear, or, when it cannot be, headers and body are passed
  on, the body whole unless the decompressor refused the header of a stream that begins as it should.
  Streams without optional header fields are always decoded. Closing the new body closes the old one.
\<close>

theorem negotiate_sound:
  assumes "\<And>data. suffix (snd (cd_zstd cd data)) data"
    and r: "r = negotiate cd mode accept resp" and enc: "enc = content_coding resp"
    and rem: "remaining (rs_body resp) = (data, e)"
  shows "rs_status r = rs_status resp \<and> fst (close_body (rs_body r)) = fst (close_body (rs_body resp)) \<and>
    (readable mode accept enc \<or> bodiless resp \<longrightarrow> r = resp) \<and>
    (\<not> readable mode accept enc \<and> \<not> bodiless resp \<longrightarrow>
      rs_uncompressed r \<and> rs_content_length r = -1 \<and> remaining (rs_body r) = cd_text cd enc data e \<and>
      (\<forall>n. raw_values (rs_header r) n =
        (if n \<in> {''Content-Encoding'', ''Content-Length''} then [] else raw_values (rs_header resp) n))
    \<or> \<not> plain_stream enc data \<and> r = resp\<lparr>rs_body := rs_body r\<rparr> \<and>
      (\<exists>k. remaining (rs_body r) = (drop k data, e) \<and> (k = 0 \<or> header_refused cd enc data)))"
proof (cases "readable mode accept enc \<or> bodiless resp")
  case True
  then have "r = resp"
    using r enc by (auto simp: negotiate_def content_coding_def readable_def bodiless_def Let_def)
  with True show ?thesis by (elim disjE) simp_all
next
  case False
  obtain b ok where dec: "decoder cd enc (rs_body resp) = (b, ok)" by fastforce
  have r': "r = (if \<not> ok then resp\<lparr>rs_body := b\<rparr>
     else resp\<lparr>rs_body := b,
            rs_header := h_del ''Content-Length'' (h_del ''Content-Encoding'' (rs_header resp)),
            rs_content_length := -1, rs_uncompressed := True\<rparr>)"
    using False r dec unfolding enc content_coding_def
    by (auto simp: negotiate_def readable_def bodiless_def Let_def)
  have keys: "canonical_key ''Content-Length'' = ''Content-Length''"
    "canonical_key ''Content-Encoding'' = ''Content-Encoding''" by code_simp+
  have plain: "plain_stream enc data \<Longrightarrow> ok"
    using plain_stream_accepted [of enc data cd "rs_body resp"] dec rem by simp
  note sound = decoder_sound [OF assms(1) dec rem]
  show ?thesis
  proof (cases ok)
    case True
    with r' sound False show ?thesis by (simp add: raw_values_del keys)
  next
    case no: False
    with r' sound False plain show ?thesis by auto
  qed
qed

text \<open>
  A body that says gzip but compresses with another method than deflate reaches the client without
  its first ten bytes, under the unchanged Content-Encoding and Content-Length.
\<close>

theorem negotiate_loses_header:
  assumes "\<not> readable mode accept (content_coding resp)" "\<not> bodiless resp"
    and "content_coding resp = ''gzip''" and "remaining (rs_body resp) = (data, e)"
    and "10 \<le> length data" "starts_with data gzip_magic" "byte (data ! 2) \<noteq> 8"
  shows "rs_header (negotiate cd mode accept resp) = rs_header resp \<and>
    rs_content_length (negotiate cd mode accept resp) = rs_content_length resp \<and>
    remaining (rs_body (negotiate cd mode accept resp)) = (drop 10 data, e)"
proof -
  have "gzip_header data = (False, drop 10 data)"
    using assms(5,7) by (simp add: gzip_header_def read_full_def)
  then show ?thesis
    using assms by (auto simp: negotiate_def content_coding_def readable_def bodiless_def decoder_def
        Let_def)
qed

definition demo_codecs :: codecs where
  "demo_codecs = \<lparr>cd_text = (\<lambda>enc data e. (''plain'', e)), cd_zstd = (\<lambda>data. (True, data))\<rparr>"

definition encoded_response :: "string \<Rightarrow> string \<Rightarrow> unit body response" where
  "encoded_response enc data =
     \<lparr>rs_status = 200, rs_status_line = ''200 OK'',
      rs_header = [(''Content-Encoding'', [enc]), (''Content-Length'', [itoa (length data)])],
      rs_content_length = int (length data), rs_uncompressed = False, rs_method = Some ''GET'',
      rs_body = Source data Eof False\<rparr>"

theorem negotiate_sound_witness:
  "remaining (rs_body (negotiate demo_codecs ''negotiate'' [''gzip''] (encoded_response ''br'' ''xyz''))) =
   (''plain'', Eof)"
proof -
  let ?resp = "encoded_response ''br'' ''xyz''"
  have "suffix (snd (cd_zstd demo_codecs data)) data" for data by (simp add: demo_codecs_def)
  moreover have enc: "content_coding ?resp = ''br''" by code_simp
  moreover have "remaining (rs_body ?resp) = (''xyz'', Eof)" by (simp add: encoded_response_def)
  moreover have "plain_stream ''br'' ''xyz''" by (simp add: plain_stream_def)
  moreover have "\<not> readable ''negotiate'' [''gzip''] ''br'' \<and> \<not> bodiless ?resp" by code_simp
  moreover have "cd_text demo_codecs ''br'' ''xyz'' Eof = (''plain'', Eof)" by (simp add: demo_codecs_def)
  ultimately show ?thesis
    using negotiate_sound [of demo_codecs _ "''negotiate''" "[''gzip'']" ?resp "''br''" "''xyz''" Eof]
    by metis
qed

definition odd_gzip :: string where
  "odd_gzip = map char_of [0x1f, 0x8b, 7, 0, 0, 0, 0, 0, 0, 0, 104, 105 :: nat]"

theorem negotiate_loses_header_witness:
  "remaining (rs_body (negotiate demo_codecs ''decode'' [] (encoded_response ''gzip'' odd_gzip))) =
   (''hi'', Eof)"
proof -
  let ?resp = "encoded_response ''gzip'' odd_gzip"
  have "\<not> readable ''decode'' [] (content_coding ?resp)" "\<not> bodiless ?resp"
    "content_coding ?resp = ''gzip''" "10 \<le> length odd_gzip"
    "starts_with odd_gzip gzip_magic" "byte (odd_gzip ! 2) \<noteq> 8" "drop 10 odd_gzip = ''hi''"
    by code_simp+
  moreover have "remaining (rs_body ?resp) = (odd_gzip, Eof)" by (simp add: encoded_response_def)
  ultimately show ?thesis using negotiate_loses_header [of "''decode''" "[]" ?resp odd_gzip Eof demo_codecs]
    by simp
qed

section \<open>The life of a body\<close>

datatype body_op = Read nat nat | Close

text \<open>A sequence of reads and closes: the bytes delivered, what happened, and the body left.\<close>

fun run_body :: "body_op list \<Rightarrow> 'f body \<Rightarrow> string \<times> 'f close_event list \<times> 'f body" where
  "run_body [] b = ([], [], b)"
| "run_body (Read room ready # ops) b =
     (let (p, r, b1) = read_body room ready b; (ps, es, b2) = run_body ops b1 in (p @ ps, es, b2))"
| "run_body (Close # ops) b =
     (let (es, b1) = close_body b; (ps, es', b2) = run_body ops b1 in (ps, es @ es', b2))"

lemma read_text_parts: "read_text room ready text e = (p, r, rest) \<Longrightarrow>
   p = take (length p) text \<and> rest = drop (length p) text" (is "_ \<Longrightarrow> ?thesis")
proof -
  have "take k text = take (length (take k text)) text \<and>
      drop k text = drop (length (take k text)) text" for k
    by (cases "k \<le> length text") simp_all
  then show "read_text room ready text e = (p, r, rest) \<Longrightarrow> ?thesis"
    by (auto simp: read_text_def split: if_splits)
qed

lemma read_body_remaining:
  "read_body room ready b = (p, r, b') \<Longrightarrow> remaining b = (data, e) \<Longrightarrow>
   remaining b' = (drop (length p) data, e) \<and> p = take (length p) data"
  by (induction b arbitrary: p r b') (auto split: prod.splits dest: read_text_parts)

lemma close_body_remaining: "close_body b = (es, b') \<Longrightarrow> remaining b' = remaining b"
  by (induction b arbitrary: es b') (auto split: prod.splits)

text \<open>The bytes delivered are a prefix of what the body had, whatever the sizes of the reads.\<close>

lemma run_body_prefix:
  "run_body ops b = (ps, es, b') \<Longrightarrow> remaining b = (data, e) \<Longrightarrow>
   remaining b' = (drop (length ps) data, e) \<and> ps = take (length ps) data"
proof (induction ops b arbitrary: ps es b' data rule: run_body.induct)
  case (2 room ready ops b)
  obtain p r b1 where 1: "read_body room ready b = (p, r, b1)" using prod_cases3 by blast
  obtain ps2 es2 b2 where run: "run_body ops b1 = (ps2, es2, b2)" using prod_cases3 by blast
  from read_body_remaining [OF 1 2(3)] have b1: "remaining b1 = (drop (length p) data, e)"
    and p: "p = take (length p) data" by auto
  from "2.IH" [OF 1 [symmetric] refl refl run b1] p 1 run 2(2) show ?case
    by (auto simp: add.commute take_add)
next
  case (3 ops b)
  then show ?case by (auto split: prod.splits dest: close_body_remaining)
qed auto

fun hookless :: "'f body \<Rightarrow> bool" where
  "hookless (Hooked b fired f) = False"
| "hookless (Peeked data e b) = hookless b"
| "hookless (Decoded text e b) = hookless b"
| "hookless (Counting b n) = hookless b"
| "hookless (ReadWrite b) = hookless b"
| "hookless (Replayable b c) = hookless b"
| "hookless _ = True"

text \<open>The wrappers of a response body: the hook, and the writer that is kept reachable over it.\<close>

definition hooked :: "bool \<Rightarrow> 'f body \<Rightarrow> bool \<Rightarrow> 'f \<Rightarrow> 'f body" where
  "hooked w b fired f = (if w then ReadWrite (Hooked b fired f) else Hooked b fired f)"

definition counted :: "bool \<Rightarrow> 'f body \<Rightarrow> nat \<Rightarrow> 'f body" where
  "counted w b n = (if w then ReadWrite (Counting b n) else Counting b n)"

lemma wrappers:
  "on_close b f = hooked (is_writer b) b False f" "count_reads b = counted (is_writer b) b 0"
  "is_writer (hooked w b fired f) = w" "is_writer (counted w b n) = w"
  "remaining (hooked w b fired f) = remaining b" "remaining (counted w b n) = remaining b"
  "hookless (counted w b n) = hookless b" "fst (close_body (counted w b n)) = fst (close_body b)"
  by (simp_all add: on_close_def count_reads_def preserve_writer_def hooked_def counted_def
      split: prod.split)

lemma read_hookless: "read_body room ready b = (p, r, b') \<Longrightarrow>
    hookless b' = hookless b \<and> fst (close_body b') = fst (close_body b)"
proof (induction b arbitrary: p r b')
  case (Hooked b fired f)
  then show ?case by (cases "close_body b") (fastforce split: prod.splits)
qed (auto split: prod.splits)

lemma close_hookless: "close_body b = (es, b') \<Longrightarrow> hookless b \<Longrightarrow>
    hookless b' \<and> fst (close_body b') = es"
  by (induction b arbitrary: es b') (auto split: prod.splits)

text \<open>What \<open>k\<close> closes do: each closes the source, the first that finds the hook unfired runs it.\<close>

fun close_events :: "'f close_event list \<Rightarrow> nat \<Rightarrow> bool \<Rightarrow> 'f \<Rightarrow> 'f close_event list" where
  "close_events es 0 fired f = []"
| "close_events es (Suc k) fired f =
     es @ (if fired then [] else [Fired f]) @ close_events es k True f"

definition closes :: "body_op list \<Rightarrow> nat" where
  "closes ops = length (filter (\<lambda>op. op = Close) ops)"

lemma wrapped_read:
  assumes "read_body room ready b = (p, r, b')"
  shows "read_body room ready (hooked w b fired f) = (p, r, hooked w b' fired f)"
    and "read_body room ready (counted w b n) = (p, r, counted w b' (n + length p))"
  using assms by (simp_all add: hooked_def counted_def)

lemma wrapped_close:
  assumes "close_body b = (es, b')"
  shows "close_body (hooked w b fired f) = (es @ (if fired then [] else [Fired f]), hooked w b' True f)"
    and "close_body (counted w b n) = (es, counted w b' n)"
  using assms by (simp_all add: hooked_def counted_def)

lemma run_hooked:
  "hookless b \<Longrightarrow> fst (close_body b) = unit \<Longrightarrow> run_body ops (hooked w b fired f) = (ps, es, b') \<Longrightarrow>
   es = close_events unit (closes ops) fired f \<and>
   (\<exists>es0 b1. run_body ops b = (ps, es0, b1) \<and> b' = hooked w b1 (fired \<or> closes ops \<noteq> 0) f)"
proof (induction ops arbitrary: b fired ps es b')
  case Nil
  then show ?case by (auto simp: closes_def)
next
  case (Cons op ops)
  show ?case
  proof (cases op)
    case (Read room ready)
    obtain p r b1 where 1: "read_body room ready b = (p, r, b1)" using prod_cases3 by blast
    obtain ps2 es2 b2 where 2: "run_body ops (hooked w b1 fired f) = (ps2, es2, b2)"
      using prod_cases3 by blast
    have "hookless b1" "fst (close_body b1) = unit" using read_hookless [OF 1] Cons.prems(1,2) by auto
    from Cons.IH [OF this 2] Cons.prems(3) 1 2 Read wrapped_read(1) [OF 1, of w fired f] show ?thesis
      by (auto simp: closes_def)
  next
    case Close
    obtain b1 where 1: "close_body b = (unit, b1)" using Cons.prems(2) by (cases "close_body b") auto
    obtain ps2 es2 b2 where 2: "run_body ops (hooked w b1 True f) = (ps2, es2, b2)"
      using prod_cases3 by blast
    have "hookless b1" "fst (close_body b1) = unit" using close_hookless [OF 1 Cons.prems(1)] by auto
    from Cons.IH [OF this 2] Cons.prems(3) 1 2 Close wrapped_close(1) [OF 1, of w fired f] show ?thesis
      by (auto simp: closes_def)
  qed
qed

lemma run_counted:
  "run_body ops (counted w b n) = (ps, es, b') \<Longrightarrow> \<exists>b1. b' = counted w b1 (n + length ps)"
proof (induction ops arbitrary: b n ps es b')
  case (Cons op ops)
  show ?case
  proof (cases op)
    case (Read room ready)
    obtain p r b1 where 1: "read_body room ready b = (p, r, b1)" using prod_cases3 by blast
    obtain ps2 es2 b2 where 2: "run_body ops (counted w b1 (n + length p)) = (ps2, es2, b2)"
      using prod_cases3 by blast
    from Cons.IH [OF 2] Cons.prems 2 Read wrapped_read(2) [OF 1, of w n] show ?thesis
      by (auto simp: add.assoc)
  next
    case Close
    obtain es1 b1 where 1: "close_body b = (es1, b1)" by fastforce
    obtain ps2 es2 b2 where 2: "run_body ops (counted w b1 n) = (ps2, es2, b2)"
      using prod_cases3 by blast
    from Cons.IH [OF 2] Cons.prems 2 Close wrapped_close(2) [OF 1, of w n] show ?thesis by auto
  qed
qed auto

lemma close_events_once: "close_events u k False f =
    (if k = 0 then [] else u @ Fired f # concat (replicate (k - 1) u))"
proof -
  have "close_events u k True f = concat (replicate k u)" for k by (induction k) simp_all
  then show ?thesis by (cases k) simp_all
qed

text \<open>
  C11. However a client reads and closes the body of a response, it gets the bytes of the transport's
  body from the first on, they are counted, and the function that ends the request runs exactly
  once, on the first close and after the transport's body is closed; an upgraded connection stays
  writable through the wrappers.
\<close>

theorem body_lifecycle:
  assumes "hookless b" and run: "run_body ops (on_close (count_reads b) f) = (ps, es, b')"
    and rem: "remaining b = (data, e)"
  shows "ps = take (length ps) data \<and> remaining b' = (drop (length ps) data, e) \<and>
    (\<exists>b1. b' = hooked (is_writer b) (counted (is_writer b) b1 (length ps)) (closes ops \<noteq> 0) f) \<and>
    es = (if closes ops = 0 then []
          else fst (close_body b) @ Fired f # concat (replicate (closes ops - 1) (fst (close_body b)))) \<and>
    is_writer (on_close (count_reads b) f) = is_writer b"
proof -
  let ?c = "counted (is_writer b) b 0"
  have hl: "hookless ?c" "fst (close_body ?c) = fst (close_body b)" using assms(1) by (simp_all add: wrappers)
  have run': "run_body ops (hooked (is_writer b) ?c False f) = (ps, es, b')" using run by (simp add: wrappers)
  obtain es0 b1 where inner: "run_body ops ?c = (ps, es0, b1)"
    and b': "b' = hooked (is_writer b) b1 (closes ops \<noteq> 0) f"
    and es: "es = close_events (fst (close_body b)) (closes ops) False f"
    using run_hooked [OF hl run'] by auto
  have "remaining ?c = (data, e)" by (simp add: wrappers rem)
  from run_body_prefix [OF inner this] have "ps = take (length ps) data" "remaining b1 = (drop (length ps) data, e)"
    by auto
  moreover obtain b2 where "b1 = counted (is_writer b) b2 (length ps)" using run_counted [OF inner] by auto
  ultimately show ?thesis using es b' by (auto simp: close_events_once wrappers)
qed

theorem body_lifecycle_witness:
  "\<exists>ps es b'. run_body [Read 4 2, Close, Close] (on_close (count_reads (Source ''abc'' Eof True)) ()) =
     (ps, es, b') \<and> es = [SourceClosed, Fired (), SourceClosed]"
proof -
  obtain ps es b' where
    run: "run_body [Read 4 2, Close, Close] (on_close (count_reads (Source ''abc'' Eof True)) ()) = (ps, es, b')"
    using prod_cases3 by blast
  moreover have "hookless (Source ''abc'' Eof True :: unit body)" by simp
  ultimately show ?thesis
    using body_lifecycle [OF _ run, of "''abc''" Eof] by (simp add: closes_def)
qed

text \<open>A request body is sent again only whole: when nothing was read from it.\<close>

lemma run_replayable:
  "run_body ops (Replayable b c) = (ps, es, b') \<Longrightarrow> \<exists>b1. b' = Replayable b1 (c \<or> ps \<noteq> [])"
proof (induction ops arbitrary: b c ps es b')
  case (Cons op ops)
  show ?case
  proof (cases op)
    case (Read room ready)
    obtain p r b1 where 1: "read_body room ready b = (p, r, b1)" using prod_cases3 by blast
    obtain ps2 es2 b2 where 2: "run_body ops (Replayable b1 (c \<or> p \<noteq> [])) = (ps2, es2, b2)"
      using prod_cases3 by blast
    from Cons.IH [OF 2] Cons.prems 1 2 Read show ?thesis by auto
  next
    case Close
    obtain es1 b1 where 1: "close_body b = (es1, b1)" by fastforce
    obtain ps2 es2 b2 where 2: "run_body ops (Replayable b1 c) = (ps2, es2, b2)"
      using prod_cases3 by blast
    from Cons.IH [OF 2] Cons.prems 1 2 Close show ?thesis by auto
  qed
qed simp

lemma replay_whole:
  assumes "run_body ops (Replayable b False) = (ps, es, b')" "replay b' = Some b''"
  shows "b'' = b' \<and> remaining b'' = remaining b"
proof -
  obtain b1 where "b' = Replayable b1 (ps \<noteq> [])" using run_replayable [OF assms(1)] by auto
  with assms(2) have "ps = []" "b'' = b'" by (auto split: if_splits)
  with run_body_prefix [OF assms(1)] show ?thesis by (cases "remaining b") auto
qed

lemma decoder_hookless: "hookless b \<Longrightarrow> hookless (fst (decoder cd enc b))"
  by (auto simp: decoder_def Let_def split: prod.splits)

lemma negotiate_hookless: "hookless (rs_body resp) \<Longrightarrow> hookless (rs_body (negotiate cd mode accept resp))"
  using decoder_hookless [of "rs_body resp" cd]
  by (auto simp: negotiate_def Let_def split: prod.split) (metis fst_conv)+

end
