(* ===== verification/Tip_Resolve.thy ===== *)
theory Tip_Resolve
  imports Tip_Directive
begin

text \<open>
  Choosing one identity (\<^verbatim>\<open>Directive.Resolve\<close>, \<^verbatim>\<open>choose\<close>) and the fingerprint spec of a
  directive (\<^verbatim>\<open>Directive.Spec\<close>) of \<^verbatim>\<open>internal/directive/directive.go\<close>. The random choice is
  an argument: \<open>pick c n\<close> is what the \<open>c\<close>-th call with bound \<open>n\<close> returns. Indexing past
  the end would panic, which is the result \<open>None\<close>.
\<close>

definition choose_from :: "string list \<Rightarrow> string list \<Rightarrow> string list" where
  "choose_from want available =
     (if want = [] \<or> ''random'' \<in> set want then available
      else filter (\<lambda>v. v \<in> set available) want)"

definition nth_opt :: "'a list \<Rightarrow> nat \<Rightarrow> 'a option" where
  "nth_opt xs i = (if i < length xs then Some (xs ! i) else None)"

definition browser_pool :: "directive \<Rightarrow> string list \<Rightarrow> (string \<Rightarrow> string list) \<Rightarrow> string list" where
  "browser_pool d avail os_of =
     filter (\<lambda>b. choose_from (d_os d) (os_of b) \<noteq> []) (choose_from (d_browser d) avail)"

definition resolve ::
  "directive \<Rightarrow> string list \<Rightarrow> (string \<Rightarrow> string list) \<Rightarrow> (nat \<Rightarrow> nat \<Rightarrow> nat) \<Rightarrow>
   (directive \<times> bool) option" where
  "resolve d avail os_of pick =
     (if d_browser d = [] then Some (d, True)
      else
        (let pool = browser_pool d avail os_of in
         if pool = [] then Some (d, False)
         else
           (case nth_opt pool (pick 0 (length pool)) of
              None \<Rightarrow> None
            | Some b \<Rightarrow>
                let d1 = d\<lparr>d_browser := [b]\<rparr> in
                if d_os d1 = [] then Some (d1, True)
                else
                  (let os = choose_from (d_os d1) (os_of b) in
                   case nth_opt os (pick 1 (length os)) of
                     None \<Rightarrow> None
                   | Some v \<Rightarrow> Some (d1\<lparr>d_os := [v]\<rparr>, True)))))"

definition spec_of :: "directive \<Rightarrow> spec" where
  "spec_of d =
     \<lparr>s_browser = (if d_browser d \<noteq> [] then hd (d_browser d) else []),
      s_os = (if d_browser d \<noteq> [] \<and> d_os d \<noteq> [] then hd (d_os d) else []),
      s_ja = d_ja d, s_http2 = d_http2 d, s_http3 = d_http3 d, s_force_http = d_force_http d,
      s_proxy = d_proxy d, s_dns = d_dns d, s_dns_over_tls = d_dns_over_tls d,
      s_interface_addr = d_interface_addr d, s_secure_tls = d_secure_tls d,
      s_disable_keep_alive = d_disable_keep_alive d, s_h2c = d_h2c d\<rparr>"

definition fair_pick :: "(nat \<Rightarrow> nat \<Rightarrow> nat) \<Rightarrow> bool" where
  "fair_pick pick = (\<forall>c n. 0 < n \<longrightarrow> pick c n < n)"

text \<open>What a wish list admits: anything when empty or when it says random.\<close>

definition admits :: "string list \<Rightarrow> string \<Rightarrow> bool" where
  "admits want v = (want = [] \<or> ''random'' \<in> set want \<or> v \<in> set want)"

definition available_pair ::
  "directive \<Rightarrow> string list \<Rightarrow> (string \<Rightarrow> string list) \<Rightarrow> string \<Rightarrow> string \<Rightarrow> bool" where
  "available_pair d avail os_of b v =
     (b \<in> set avail \<and> v \<in> set (os_of b) \<and> admits (d_browser d) b \<and> admits (d_os d) v)"

lemma set_choose: "set (choose_from want available) = {v \<in> set available. admits want v}"
  by (auto simp: choose_from_def admits_def)

lemma choose_Nil: "choose_from want available = [] \<longleftrightarrow> (\<forall>v \<in> set available. \<not> admits want v)"
  by (metis (no_types, lifting) Collect_empty_eq set_choose set_empty)

lemma nth_opt_fair: "fair_pick pick \<Longrightarrow> xs \<noteq> [] \<Longrightarrow> \<exists>x \<in> set xs. nth_opt xs (pick c (length xs)) = Some x"
  by (auto simp: nth_opt_def fair_pick_def)

lemma browser_pool_iff:
  "b \<in> set (browser_pool d avail os_of) \<longleftrightarrow> (\<exists>v. available_pair d avail os_of b v)"
  by (auto simp: browser_pool_def available_pair_def set_choose choose_Nil)

text \<open>The three outcomes of \<^verbatim>\<open>Resolve\<close> with a random source that stays in range.\<close>

lemma resolve_outcome:
  assumes fair: "fair_pick pick"
  obtains (any) "d_browser d = []" "resolve d avail os_of pick = Some (d, True)"
    | (none) "d_browser d \<noteq> []" "\<nexists>b v. available_pair d avail os_of b v"
        "resolve d avail os_of pick = Some (d, False)"
    | (pins) b v where "d_browser d \<noteq> []" "available_pair d avail os_of b v"
        "resolve d avail os_of pick = Some (d\<lparr>d_browser := [b], d_os := (if d_os d = [] then [] else [v])\<rparr>, True)"
proof (cases "d_browser d = []")
  case True
  then show ?thesis by (intro any) (simp_all add: resolve_def)
next
  case br: False
  let ?pool = "browser_pool d avail os_of"
  show ?thesis
  proof (cases "?pool = []")
    case True
    then have "\<nexists>b v. available_pair d avail os_of b v" by (metis browser_pool_iff empty_iff empty_set)
    with True br show ?thesis by (intro none) (simp_all add: resolve_def)
  next
    case ne: False
    from nth_opt_fair [OF fair ne, of 0] obtain b
      where b: "b \<in> set ?pool" "nth_opt ?pool (pick 0 (length ?pool)) = Some b" by blast
    then have os: "choose_from (d_os d) (os_of b) \<noteq> []" by (simp add: browser_pool_def)
    from nth_opt_fair [OF fair os, of 1] obtain v where v: "v \<in> set (choose_from (d_os d) (os_of b))"
      "nth_opt (choose_from (d_os d) (os_of b)) (pick 1 (length (choose_from (d_os d) (os_of b)))) = Some v"
      by blast
    have "available_pair d avail os_of b v"
      using b(1) v(1) by (auto simp: available_pair_def browser_pool_def set_choose)
    moreover have "resolve d avail os_of pick =
        Some (d\<lparr>d_browser := [b], d_os := (if d_os d = [] then [] else [v])\<rparr>, True)"
      using br ne b(2) v(2) by (cases "d_os d = []") (simp_all add: resolve_def Let_def)
    ultimately show ?thesis by (intro pins [OF br])
  qed
qed

text \<open>
  C8. \<^verbatim>\<open>Resolve\<close> with a random source that stays in range never panics. It fails exactly when
  a browser is asked for and no available browser and OS satisfy both wish lists, and then leaves
  the directive alone; otherwise it pins one browser the wishes admit and, when an OS was asked
  for, one OS that this browser supports and the wishes admit, changing nothing else.
\<close>

theorem resolve_sound:
  assumes fair: "fair_pick pick"
  shows "(d_browser d = [] \<longrightarrow> resolve d avail os_of pick = Some (d, True)) \<and>
    (d_browser d \<noteq> [] \<longrightarrow> (\<nexists>b v. available_pair d avail os_of b v) \<longrightarrow>
       resolve d avail os_of pick = Some (d, False)) \<and>
    (d_browser d \<noteq> [] \<longrightarrow> (\<exists>b v. available_pair d avail os_of b v) \<longrightarrow>
       (\<exists>b v. available_pair d avail os_of b v \<and>
          resolve d avail os_of pick =
            Some (d\<lparr>d_browser := [b], d_os := (if d_os d = [] then [] else [v])\<rparr>, True)))"
  by (rule resolve_outcome [OF fair, of d avail os_of]) (simp, simp, blast)

theorem resolve_sound_witness:
  "resolve (zero_directive\<lparr>d_browser := [''edge''], d_os := [''ios'']\<rparr>) [''edge'']
     (\<lambda>_. [''windows'']) (\<lambda>_ _. 0) =
   Some (zero_directive\<lparr>d_browser := [''edge''], d_os := [''ios'']\<rparr>, False)"
proof -
  let ?d = "zero_directive\<lparr>d_browser := [''edge''], d_os := [''ios'']\<rparr>"
  have "fair_pick (\<lambda>_ _. 0)" by (simp add: fair_pick_def)
  moreover have "\<nexists>b v. available_pair ?d [''edge''] (\<lambda>_. [''windows'']) b v"
    by (auto simp: available_pair_def admits_def)
  moreover have "d_browser ?d \<noteq> []" by simp
  ultimately show ?thesis using resolve_sound [of "\<lambda>_ _. 0" ?d "[''edge'']" "\<lambda>_. [''windows'']"]
    by blast
qed

lemma resolve_cases:
  assumes "fair_pick pick" "resolve d avail os_of pick = Some (d', True)" "d_browser d \<noteq> []"
  obtains b v where "available_pair d avail os_of b v"
    "d' = d\<lparr>d_browser := [b], d_os := (if d_os d = [] then [] else [v])\<rparr>"
  by (rule resolve_outcome [OF assms(1), of d avail os_of]) (use assms(2,3) that in auto)

text \<open>
  The interface between resolving and the catalogue of avail: every browser has an OS, and
  neither a browser nor an OS is called random. The clients of the catalogue use what follows.
\<close>

locale identity_source =
  fixes avail :: "string list" and os_of :: "string \<Rightarrow> string list"
  assumes some_os: "b \<in> set avail \<Longrightarrow> os_of b \<noteq> []"
    and no_random: "''random'' \<notin> set avail" "b \<in> set avail \<Longrightarrow> ''random'' \<notin> set (os_of b)"
begin

text \<open>A pinned pair is resolved to itself: resolving is stable.\<close>

lemma resolve_pinned:
  assumes "fair_pick pick" "b \<in> set avail" "v \<in> set (os_of b)" "d_browser d = [b]" "d_os d = [v]"
  shows "resolve d avail os_of pick = Some (d, True)"
proof -
  have p: "available_pair d avail os_of b v"
    using assms by (simp add: available_pair_def admits_def)
  have u: "available_pair d avail os_of b' v' \<Longrightarrow> b' = b \<and> v' = v" for b' v'
    using assms no_random by (auto simp: available_pair_def admits_def)
  show ?thesis
    using assms(1)
  proof (cases rule: resolve_outcome [of pick d avail os_of])
    case (pins b' v')
    with u [of b' v'] assms(4,5) show ?thesis by simp
  qed (use p in auto)
qed

text \<open>Without an OS wish, any available browser wish can be met.\<close>

lemma resolve_no_os:
  assumes "fair_pick pick" "d_os d = []" "\<exists>b \<in> set avail. admits (d_browser d) b"
  shows "\<exists>d'. resolve d avail os_of pick = Some (d', True)"
proof (cases "d_browser d = []")
  case False
  from assms(3) obtain b where "b \<in> set avail" "admits (d_browser d) b" by blast
  with some_os [of b] assms(2) obtain v where "available_pair d avail os_of b v"
    by (cases "os_of b") (auto simp: available_pair_def admits_def)
  with False show ?thesis
    by (cases rule: resolve_outcome [OF assms(1), of d avail os_of]) auto
qed (simp add: resolve_def)

text \<open>A resolved directive is resolved again to itself, so remembering it is enough.\<close>

lemma resolve_idem:
  assumes "fair_pick pick" "resolve d avail os_of pick = Some (d', True)" "d_browser d \<noteq> []"
    and "d_os d \<noteq> []" "fair_pick pick'"
  shows "resolve d' avail os_of pick' = Some (d', True)"
proof -
  from resolve_cases [OF assms(1-3)] obtain b v where
    "available_pair d avail os_of b v"
    "d' = d\<lparr>d_browser := [b], d_os := (if d_os d = [] then [] else [v])\<rparr>" .
  with assms(4,5) show ?thesis
    by (intro resolve_pinned) (auto simp: available_pair_def)
qed

end

end
