(* ===== verification/Tip_Families.thy ===== *)
theory Tip_Families
  imports Tip_Resolve
begin

text \<open>
  The browser families (\<^verbatim>\<open>internal/impersonate/profiles.go\<close>), User-Agent inference
  (\<^verbatim>\<open>infer.go\<close>) and the profile catalogue (\<^verbatim>\<open>catalogue.go\<close>). The strings that surf's
  profiles emit are not in the repository: \<open>ua_env\<close> holds them as functions of the OS, and the
  digests of the catalogue take the hash as an argument.
\<close>

section \<open>Families\<close>

datatype agent_kind = ChromeAgent | FirefoxAgent | EdgeAgent

datatype base_kind = ChromeBase | FirefoxBase

record family =
  fm_name :: string
  fm_oses :: "string list"
  fm_base :: base_kind
  fm_hints :: bool
  fm_agent :: agent_kind
  fm_headers :: bool
  fm_detect :: "string list"

record ua_env =
  chrome_ua :: "string \<Rightarrow> string"
  firefox_ua :: "string \<Rightarrow> string"
  sec_ch_ua :: string

definition all_oses :: "string list" where
  "all_oses = [''windows'', ''macos'', ''linux'', ''android'', ''ios'']"

text \<open>The first group of the leftmost match of \<^verbatim>\<open>Chrome/(\d+)\<close>.\<close>

fun chrome_major :: "string \<Rightarrow> string option" where
  "chrome_major [] = None"
| "chrome_major (c # s) =
     (if has_prefix ''Chrome/'' (c # s) \<and> takeWhile is_digit (drop 7 (c # s)) \<noteq> []
      then Some (takeWhile is_digit (drop 7 (c # s))) else chrome_major s)"

text \<open>\<open>None\<close> is the panic of indexing the nil match.\<close>

definition edge_agent :: "ua_env \<Rightarrow> string \<Rightarrow> string option" where
  "edge_agent env os =
     (case chrome_major (chrome_ua env os) of
        None \<Rightarrow> None
      | Some major \<Rightarrow>
          if os = ''android'' then Some (chrome_ua env os @ '' EdgA/'' @ major @ ''.0.0.0'')
          else Some (chrome_ua env os @ '' Edg/'' @ major @ ''.0.0.0''))"

definition agent :: "ua_env \<Rightarrow> family \<Rightarrow> string \<Rightarrow> string option" where
  "agent env f os =
     (case fm_agent f of
        ChromeAgent \<Rightarrow> Some (chrome_ua env os)
      | FirefoxAgent \<Rightarrow> Some (firefox_ua env os)
      | EdgeAgent \<Rightarrow> edge_agent env os)"

text \<open>\<^verbatim>\<open>strings.ReplaceAll\<close> of a text that is not empty.\<close>

function replace_all :: "string \<Rightarrow> string \<Rightarrow> string \<Rightarrow> string" where
  "replace_all old new [] = []"
| "replace_all old new (c # s) =
     (if old \<noteq> [] \<and> has_prefix old (c # s)
      then new @ replace_all old new (drop (length old) (c # s))
      else c # replace_all old new s)"
  by pat_completeness auto
termination
  by (relation "measure (\<lambda>(old, new, s). length s)") auto

definition dquoted :: "string \<Rightarrow> string" where
  "dquoted s = char_of (34 :: nat) # s @ [char_of (34 :: nat)]"

definition edge_headers :: "ua_env \<Rightarrow> string \<Rightarrow> (string \<times> string) list option" where
  "edge_headers env os =
     (case edge_agent env os of
        None \<Rightarrow> None
      | Some ua \<Rightarrow>
          Some [(''User-Agent'', ua),
                (''sec-ch-ua'', replace_all (dquoted ''Google Chrome'') (dquoted ''Microsoft Edge'')
                                  (sec_ch_ua env))])"

definition families :: "(string \<times> family) list" where
  "families =
     [(''chrome'',
       \<lparr>fm_name = ''chrome'', fm_oses = all_oses, fm_base = ChromeBase, fm_hints = True,
        fm_agent = ChromeAgent, fm_headers = False,
        fm_detect = [''Chrome/'', ''CriOS/'', ''Chromium/'']\<rparr>),
      (''firefox'',
       \<lparr>fm_name = ''firefox'', fm_oses = all_oses, fm_base = FirefoxBase, fm_hints = False,
        fm_agent = FirefoxAgent, fm_headers = False, fm_detect = [''Firefox/'', ''FxiOS/'']\<rparr>),
      (''edge'',
       \<lparr>fm_name = ''edge'', fm_oses = [''windows'', ''macos'', ''linux'', ''android''],
        fm_base = ChromeBase, fm_hints = True, fm_agent = EdgeAgent, fm_headers = True,
        fm_detect = [''Edg/'', ''EdgA/'', ''EdgiOS/'']\<rparr>)]"

definition detection_order :: "string list" where
  "detection_order = [''edge'', ''firefox'', ''chrome'']"

definition family_names :: "string list" where
  "family_names = sort (map fst families)"

definition os_list :: "string \<Rightarrow> string list" where
  "os_list browser =
     (case map_of families browser of Some f \<Rightarrow> fm_oses f | None \<Rightarrow> all_oses)"

definition user_agent :: "ua_env \<Rightarrow> string \<Rightarrow> string \<Rightarrow> (string \<times> bool) option" where
  "user_agent env browser os =
     (case map_of families browser of
        None \<Rightarrow> Some ([], False)
      | Some f \<Rightarrow>
          if os \<notin> set (fm_oses f) then Some ([], False)
          else map_option (\<lambda>ua. (ua, True)) (agent env f os))"

section \<open>Inference\<close>

record inference =
  inf_browser :: string
  inf_os :: string

definition no_inference :: inference where
  "no_inference = \<lparr>inf_browser = [], inf_os = []\<rparr>"

definition contains_os :: "string \<Rightarrow> string \<Rightarrow> bool" where
  "contains_os browser os =
     (case map_of families browser of None \<Rightarrow> False | Some f \<Rightarrow> os \<in> set (fm_oses f))"

definition closest :: "string \<Rightarrow> string \<Rightarrow> inference" where
  "closest browser os =
     (if os \<noteq> [] \<and> \<not> contains_os browser os
      then \<lparr>inf_browser = ''chrome'', inf_os = os\<rparr>
      else \<lparr>inf_browser = browser, inf_os = os\<rparr>)"

definition platform :: "string \<Rightarrow> string" where
  "platform ua =
     (if contains ''Android'' ua then ''android''
      else if contains ''iPhone'' ua \<or> contains ''iPad'' ua \<or> contains ''iPod'' ua then ''ios''
      else if contains ''Windows'' ua then ''windows''
      else if contains ''Macintosh'' ua \<or> contains ''Mac OS X'' ua then ''macos''
      else if contains ''Linux'' ua \<or> contains ''X11'' ua then ''linux''
      else [])"

text \<open>The inner loops: \<open>None\<close> is a panic, \<open>Some None\<close> falls through to the next iteration.\<close>

fun exact_os :: "ua_env \<Rightarrow> family \<Rightarrow> string \<Rightarrow> string list \<Rightarrow> string option option" where
  "exact_os env f ua [] = Some None"
| "exact_os env f ua (os # oss) =
     (case agent env f os of
        None \<Rightarrow> None
      | Some a \<Rightarrow> if a = ua then Some (Some os) else exact_os env f ua oss)"

fun exact_family :: "ua_env \<Rightarrow> string \<Rightarrow> string list \<Rightarrow> inference option option" where
  "exact_family env ua [] = Some None"
| "exact_family env ua (b # bs) =
     (case map_of families b of
        None \<Rightarrow> None
      | Some f \<Rightarrow>
          (case exact_os env f ua (fm_oses f) of
             None \<Rightarrow> None
           | Some r \<Rightarrow>
               (case r of
                  Some os \<Rightarrow> Some (Some (inference.make b os))
                | None \<Rightarrow> exact_family env ua bs)))"

fun marker_family :: "string \<Rightarrow> string list \<Rightarrow> inference" where
  "marker_family ua [] = no_inference"
| "marker_family ua (b # bs) =
     (case map_of families b of
        None \<Rightarrow> marker_family ua bs
      | Some f \<Rightarrow>
          if list_ex (\<lambda>marker. contains marker ua) (fm_detect f) then closest b (platform ua)
          else marker_family ua bs)"

definition infer :: "ua_env \<Rightarrow> string \<Rightarrow> inference option" where
  "infer env ua =
     (case exact_family env ua detection_order of
        None \<Rightarrow> None
      | Some (Some i) \<Rightarrow> Some i
      | Some None \<Rightarrow> Some (marker_family ua detection_order))"

section \<open>The catalogue of families\<close>

lemma family_names_eq: "family_names = [''chrome'', ''edge'', ''firefox'']"
  by code_simp

lemma os_list_eq:
  "os_list ''chrome'' = all_oses" "os_list ''firefox'' = all_oses"
  "os_list ''edge'' = [''windows'', ''macos'', ''linux'', ''android'']"
  by (simp_all add: os_list_def families_def)

interpretation tip_ids: identity_source family_names os_list
  by unfold_locales (auto simp: family_names_eq os_list_eq all_oses_def)

definition supported :: "inference \<Rightarrow> bool" where
  "supported i \<longleftrightarrow>
     i = no_inference \<or>
     inf_browser i \<in> set family_names \<and> (inf_os i = [] \<or> inf_os i \<in> set (os_list (inf_browser i)))"

lemma platform_values: "platform ua \<in> set ([] # all_oses)"
  by (simp add: platform_def all_oses_def)

lemma closest_supported: "b \<in> set family_names \<Longrightarrow> os \<in> set ([] # all_oses) \<Longrightarrow> supported (closest b os)"
  by (auto simp: supported_def closest_def contains_os_def family_names_eq os_list_eq families_def
      all_oses_def)

lemma marker_family_supported:
  "set bs \<subseteq> set family_names \<Longrightarrow> supported (marker_family ua bs)"
proof (induction ua bs rule: marker_family.induct)
  case (1 ua)
  show ?case by (simp add: supported_def)
next
  case (2 ua b bs)
  then show ?case
    using closest_supported [of b "platform ua"] platform_values [of ua]
    by (auto split: option.splits)
qed

text \<open>What the program relies on of surf: the Chrome agents Edge is made of carry a version.\<close>

definition chrome_versions :: "ua_env \<Rightarrow> bool" where
  "chrome_versions env = (\<forall>os \<in> set (os_list ''edge''). chrome_major (chrome_ua env os) \<noteq> None)"

lemma agent_defined:
  "chrome_versions env \<Longrightarrow> map_of families b = Some f \<Longrightarrow> os \<in> set (fm_oses f) \<Longrightarrow>
     \<exists>a. agent env f os = Some a"
  by (auto simp: families_def agent_def edge_agent_def chrome_versions_def os_list_eq
      split: if_splits option.splits)

lemma exact_os_Some:
  "\<forall>os \<in> set oss. \<exists>a. agent env f os = Some a \<Longrightarrow>
     (\<exists>r. exact_os env f ua oss = Some r \<and>
        (case r of None \<Rightarrow> \<forall>os \<in> set oss. agent env f os \<noteq> Some ua
         | Some os \<Rightarrow> os \<in> set oss \<and> agent env f os = Some ua))"
  by (induction oss) (auto split: option.splits)

definition emits :: "ua_env \<Rightarrow> string \<Rightarrow> string \<Rightarrow> string \<Rightarrow> bool" where
  "emits env b os ua =
     (\<exists>f. map_of families b = Some f \<and> os \<in> set (fm_oses f) \<and> agent env f os = Some ua)"

lemma exact_family_Some:
  "chrome_versions env \<Longrightarrow> set bs \<subseteq> set family_names \<Longrightarrow>
     (\<exists>r. exact_family env ua bs = Some r \<and>
        (case r of None \<Rightarrow> \<forall>b' \<in> set bs. \<forall>os. \<not> emits env b' os ua
         | Some i \<Rightarrow> inf_browser i \<in> set bs \<and> emits env (inf_browser i) (inf_os i) ua))"
proof (induction bs)
  case (Cons b bs)
  from Cons.prems(2) obtain f where f: "map_of families b = Some f"
    by (auto simp: family_names_eq families_def)
  with Cons.prems(1) have "\<forall>os \<in> set (fm_oses f). \<exists>a. agent env f os = Some a"
    by (blast intro: agent_defined)
  from exact_os_Some [OF this, of ua] obtain r where
    r: "exact_os env f ua (fm_oses f) = Some r"
    "case r of None \<Rightarrow> \<forall>os \<in> set (fm_oses f). agent env f os \<noteq> Some ua
       | Some os \<Rightarrow> os \<in> set (fm_oses f) \<and> agent env f os = Some ua" by blast
  show ?case
  proof (cases r)
    case None
    from Cons obtain r' where "exact_family env ua bs = Some r'"
      "case r' of None \<Rightarrow> \<forall>b' \<in> set bs. \<forall>os. \<not> emits env b' os ua
        | Some i \<Rightarrow> inf_browser i \<in> set bs \<and> emits env (inf_browser i) (inf_os i) ua" by auto
    with None r f show ?thesis by (auto simp: emits_def split: option.splits)
  next
    case (Some os)
    with r f show ?thesis by (auto simp: emits_def inference.defs)
  qed
qed simp

lemma emits_supported: "emits env b os ua \<Longrightarrow> b \<in> set family_names \<and> os \<in> set (os_list b)"
  by (auto simp: emits_def family_names_eq os_list_def families_def split: if_splits)

lemma detection_order_names: "set detection_order = set family_names"
  by (auto simp: detection_order_def family_names_eq)

text \<open>
  C27. Inference never panics and never names a pair the families do not support: it finds
  nothing, or a known browser with no OS or an OS that browser has. When the User-Agent is one
  that some profile emits, the inferred browser and OS emit that very User-Agent, byte for byte.
\<close>

theorem infer_sound:
  assumes "chrome_versions env"
  shows "\<exists>i. infer env ua = Some i \<and> supported i \<and>
           ((\<exists>b os. emits env b os ua) \<longrightarrow> emits env (inf_browser i) (inf_os i) ua)"
proof -
  from exact_family_Some [OF assms, of detection_order ua] obtain r where
    r: "exact_family env ua detection_order = Some r"
    "case r of None \<Rightarrow> \<forall>b \<in> set detection_order. \<forall>os. \<not> emits env b os ua
       | Some i \<Rightarrow> inf_browser i \<in> set detection_order \<and> emits env (inf_browser i) (inf_os i) ua"
    by (auto simp: detection_order_names)
  show ?thesis
  proof (cases r)
    case None
    then have "\<not> emits env b os ua" for b os
      using r(2) emits_supported [of env b os ua] by (auto simp: detection_order_names)
    with None r(1) show ?thesis
      using marker_family_supported [of detection_order ua]
      by (simp add: infer_def detection_order_names)
  next
    case (Some i)
    then have "emits env (inf_browser i) (inf_os i) ua" using r(2) by simp
    with Some r(1) emits_supported [OF this] show ?thesis by (simp add: infer_def supported_def)
  qed
qed

definition demo_env :: ua_env where
  "demo_env = \<lparr>chrome_ua = (\<lambda>os. ''Mozilla/5.0 ('' @ os @ '') Chrome/152.0.0.0''),
               firefox_ua = (\<lambda>os. ''Mozilla/5.0 ('' @ os @ '') Firefox/148.0''),
               sec_ch_ua = []\<rparr>"

lemma demo_versions: "chrome_versions demo_env"
  by code_simp

theorem infer_sound_witness:
  "\<exists>i. infer demo_env ''Mozilla/5.0 (linux) Chrome/152.0.0.0 Edg/152.0.0.0'' = Some i \<and>
       emits demo_env (inf_browser i) (inf_os i) ''Mozilla/5.0 (linux) Chrome/152.0.0.0 Edg/152.0.0.0''"
proof -
  let ?ua = "''Mozilla/5.0 (linux) Chrome/152.0.0.0 Edg/152.0.0.0''"
  have "edge_agent demo_env ''linux'' = Some ?ua" by code_simp
  then have "emits demo_env ''edge'' ''linux'' ?ua"
    by (simp add: emits_def families_def agent_def)
  with infer_sound [OF demo_versions, of ?ua] show ?thesis by blast
qed

end
