(* ===== verification/Tip_Key.thy ===== *)
theory Tip_Key
  imports Tip_Directive Tip_Utf8
begin

text \<open>
  The cache key of a fingerprint spec (\<^verbatim>\<open>Spec.Key\<close> of \<^verbatim>\<open>internal/directive/spec.go\<close>): the
  spec as \<^verbatim>\<open>encoding/json\<close> marshals it, fields in struct order, empty ones omitted. The model
  goes through a JSON value and the encoder's text, escapes included.
\<close>

section \<open>JSON text\<close>

datatype json =
    JStr string
  | JNum nat
  | JTrue
  | JArr "json list"
  | JObj "(string \<times> json) list"

definition hex_digit :: "nat \<Rightarrow> char" where
  "hex_digit n = (if n < 10 then char_of (48 + n) else char_of (87 + n))"

definition backslash :: char where
  "backslash = char_of (92 :: nat)"

definition dquote :: char where
  "dquote = char_of (34 :: nat)"

text \<open>One rune of a string as \<^verbatim>\<open>encoding/json\<close> writes it (HTML escaping on).\<close>

definition esc_byte :: "char \<Rightarrow> string" where
  "esc_byte c =
     (let n = byte c in
      if n = 34 \<or> n = 92 then [backslash, c]
      else if n = 8 then [backslash, CHR ''b'']
      else if n = 12 then [backslash, CHR ''f'']
      else if n = 10 then [backslash, CHR ''n'']
      else if n = 13 then [backslash, CHR ''r'']
      else if n = 9 then [backslash, CHR ''t'']
      else if n < 32 \<or> n = 60 \<or> n = 62 \<or> n = 38 then
        [backslash, CHR ''u'', CHR ''0'', CHR ''0'', hex_digit (n div 16), hex_digit (n mod 16)]
      else [c])"

definition esc_rune :: "rune \<Rightarrow> string" where
  "esc_rune r =
     (case r of
        BadByte _ \<Rightarrow> backslash # ''ufffd''
      | Rune [c] \<Rightarrow> esc_byte c
      | Rune s \<Rightarrow>
          if map byte s = [226, 128, 168] then backslash # ''u2028''
          else if map byte s = [226, 128, 169] then backslash # ''u2029''
          else s)"

definition quote :: "string \<Rightarrow> string" where
  "quote s = dquote # concat (map esc_rune (runes s)) @ [dquote]"

fun render :: "json \<Rightarrow> string" where
  "render (JStr s) = quote s"
| "render (JNum n) = itoa n"
| "render JTrue = ''true''"
| "render (JArr js) = ''['' @ join '','' (map render js) @ '']''"
| "render (JObj kvs) = ''{'' @ join '','' (map (\<lambda>(k, v). quote k @ '':'' @ render v) kvs) @ ''}''"

section \<open>The spec as a JSON value\<close>

text \<open>The omitempty rules: zero values, nil pointers and empty slices are left out.\<close>

definition f_str :: "string \<Rightarrow> string \<Rightarrow> (string \<times> json) list" where
  "f_str name s = (if s = [] then [] else [(name, JStr s)])"

definition f_bool :: "string \<Rightarrow> bool \<Rightarrow> (string \<times> json) list" where
  "f_bool name b = (if b then [(name, JTrue)] else [])"

definition f_num :: "string \<Rightarrow> ('a :: len) word option \<Rightarrow> (string \<times> json) list" where
  "f_num name v = (case v of None \<Rightarrow> [] | Some w \<Rightarrow> [(name, JNum (unat w))])"

definition f_strs :: "string \<Rightarrow> string list \<Rightarrow> (string \<times> json) list" where
  "f_strs name ss = (if ss = [] then [] else [(name, JArr (map JStr ss))])"

definition f_obj :: "string \<Rightarrow> ('a \<Rightarrow> json) \<Rightarrow> 'a option \<Rightarrow> (string \<times> json) list" where
  "f_obj name enc v = (case v of None \<Rightarrow> [] | Some x \<Rightarrow> [(name, enc x)])"

definition http2_json :: "http2 \<Rightarrow> json" where
  "http2_json h = JObj
     (f_num ''headertablesize'' (h2_header_table_size h) @
      f_num ''enablepush'' (h2_enable_push h) @
      f_num ''maxconcurrentstreams'' (h2_max_concurrent_streams h) @
      f_num ''initialwindowsize'' (h2_initial_window_size h) @
      f_num ''maxframesize'' (h2_max_frame_size h) @
      f_num ''maxheaderlistsize'' (h2_max_header_list_size h) @
      f_num ''norfc7540priorities'' (h2_no_rfc7540_priorities h) @
      f_num ''connectionflow'' (h2_connection_flow h) @
      f_num ''initialstreamid'' (h2_initial_stream_id h))"

definition http3_json :: "http3 \<Rightarrow> json" where
  "http3_json h = JObj
     (f_num ''qpackmaxtablecapacity'' (h3_qpack_max_table_capacity h) @
      f_num ''maxfieldsectionsize'' (h3_max_field_section_size h) @
      f_num ''qpackblockedstreams'' (h3_qpack_blocked_streams h) @
      f_num ''enableconnectprotocol'' (h3_enable_connect_protocol h) @
      f_num ''settingsh3datagram'' (h3_settings_h3_datagram h) @
      f_num ''h3datagram'' (h3_h3_datagram h) @
      f_num ''enablewebtransport'' (h3_enable_webtransport h) @
      f_bool ''grease'' (h3_grease h) @
      f_strs ''order'' (h3_order h))"

definition spec_json :: "spec \<Rightarrow> json" where
  "spec_json s = JObj
     (f_str ''browser'' (s_browser s) @
      f_str ''os'' (s_os s) @
      f_str ''ja'' (s_ja s) @
      f_obj ''http2settings'' http2_json (s_http2 s) @
      f_obj ''http3settings'' http3_json (s_http3 s) @
      f_str ''forcehttp'' (s_force_http s) @
      f_str ''proxy'' (s_proxy s) @
      f_str ''dns'' (s_dns s) @
      f_str ''dnsovertls'' (s_dns_over_tls s) @
      f_str ''interfaceaddr'' (s_interface_addr s) @
      f_bool ''securetls'' (s_secure_tls s) @
      f_bool ''disablekeepalive'' (s_disable_keep_alive s) @
      f_bool ''h2c'' (s_h2c s))"

definition spec_key :: "spec \<Rightarrow> string" where
  "spec_key s = render (spec_json s)"

section \<open>Reading the text back\<close>

definition hex_val :: "char \<Rightarrow> nat" where
  "hex_val c = (let n = byte c in if n < 58 then n - 48 else n - 87)"

text \<open>A decoder of one escaped rune, the inverse of the encoder on runes that are valid.\<close>

definition unesc_escape :: "char \<Rightarrow> string \<Rightarrow> rune \<times> string" where
  "unesc_escape e s =
     (if e = CHR ''b'' then (Rune [char_of (8 :: nat)], s)
      else if e = CHR ''f'' then (Rune [char_of (12 :: nat)], s)
      else if e = CHR ''n'' then (Rune [char_of (10 :: nat)], s)
      else if e = CHR ''r'' then (Rune [char_of (13 :: nat)], s)
      else if e = CHR ''t'' then (Rune [char_of (9 :: nat)], s)
      else if e = CHR ''u'' then
        (let h = take 4 s in
         if h = ''2028'' then (Rune (map char_of [226 :: nat, 128, 168]), drop 4 s)
         else if h = ''2029'' then (Rune (map char_of [226 :: nat, 128, 169]), drop 4 s)
         else (Rune [char_of (16 * hex_val (h ! 2) + hex_val (h ! 3))], drop 4 s))
      else (Rune [e], s))"

definition unesc :: "string \<Rightarrow> rune \<times> string" where
  "unesc s =
     (case s of
        [] \<Rightarrow> (Rune [], [])
      | c # t \<Rightarrow>
          if c = backslash then unesc_escape (hd t) (tl t)
          else (Rune (take (rune_len s) s), drop (rune_len s) s))"

lemma byte_char_of [simp]: "n < 256 \<Longrightarrow> byte (char_of n) = n"
  by (simp add: byte_def of_char_of)

lemma byte_less [simp]: "byte c < 256"
  by (simp add: byte_def)

lemma byte_eqI: "byte c = byte d \<Longrightarrow> c = d"
  by (simp add: byte_def)

lemma char_of_byte [simp]: "char_of (byte c) = c"
  by (simp add: byte_def)

lemma char_of_eq_iff: "n < 256 \<Longrightarrow> char_of n = c \<longleftrightarrow> n = (of_char c :: nat)"
  by (metis of_char_of byte_def byte_char_of char_of_byte)

lemma eq_char_of_iff: "n < 256 \<Longrightarrow> c = char_of n \<longleftrightarrow> n = (of_char c :: nat)"
  by (metis char_of_eq_iff)

lemma byte_literals [simp]: "byte backslash = 92" "byte dquote = 34"
  by (simp_all add: backslash_def dquote_def)

lemma hex_digit_val [simp]: "n < 16 \<Longrightarrow> hex_val (hex_digit n) = n"
  by (simp add: hex_val_def hex_digit_def Let_def)

lemma hex_digit_not_2: "n < 16 \<Longrightarrow> hex_digit n \<noteq> backslash"
  by (auto simp: hex_digit_def dest!: arg_cong [where f = byte])

lemma unesc_esc_byte:
  assumes "byte c < 128"
  shows "unesc (esc_byte c @ x) = (Rune [c], x)"
proof -
  have c: "c = char_of (byte c)" by simp
  consider "byte c \<in> {34, 92, 8, 12, 10, 13, 9}"
    | "byte c \<notin> {34, 92, 8, 12, 10, 13, 9}" "byte c < 32 \<or> byte c = 60 \<or> byte c = 62 \<or> byte c = 38"
    | "byte c \<notin> {34, 92, 8, 12, 10, 13, 9}" "\<not> (byte c < 32 \<or> byte c = 60 \<or> byte c = 62 \<or> byte c = 38)"
    by blast
  then show ?thesis
  proof cases
    case 1
    then show ?thesis
      by (elim insertE emptyE; subst c; subst (2) c)
        (simp_all add: esc_byte_def unesc_def unesc_escape_def Let_def char_of_eq_iff)
  next
    case 2
    have lt: "byte c div 16 < 16" by (simp add: div_less_iff_less_mult)
    have "16 * (byte c div 16) + byte c mod 16 = byte c" by simp
    with 2 lt show ?thesis
      by (simp add: esc_byte_def unesc_def unesc_escape_def Let_def)
  next
    case 3
    then have nb: "c \<noteq> backslash" by auto
    have "rune_len (c # x) = 1" using assms by (simp add: first_info_def tail_ok_def)
    with 3 nb show ?thesis
      by (simp add: esc_byte_def unesc_def Let_def del: rune_len.simps)
  qed
qed

lemma esc_byte_head: "byte c < 128 \<Longrightarrow> \<exists>d t. esc_byte c = d # t \<and> d \<noteq> dquote"
  by (auto simp: esc_byte_def Let_def byte_eqI dest: arg_cong [where f = byte])

lemma unesc_esc_rune:
  assumes "is_rune t"
  shows "unesc (esc_rune (Rune t) @ x) = (Rune t, x)"
proof (cases "length t = 1")
  case True
  then obtain c where t: "t = [c]" by (cases t) auto
  with assms have "byte c < 128"
    by (auto simp: is_rune_Cons first_info_def tail_ok_def split: if_splits list.splits)
  then show ?thesis using unesc_esc_byte [of c x] t by (simp add: esc_rune_def)
next
  case False
  with assms obtain c d u where t: "t = c # d # u"
    by (cases t; cases "tl t") (auto simp: is_rune_def)
  have big: "194 \<le> byte c"
    using is_rune_ascii [of c "d # u"] is_rune_nonascii [of c "d # u"] assms t by auto
  have map_inj: "map byte t = map byte s \<Longrightarrow> t = s" for s
    by (rule map_injective) (auto intro: inj_onI byte_eqI)
  consider "map byte t = [226, 128, 168]" | "map byte t = [226, 128, 169]"
    | "map byte t \<noteq> [226, 128, 168]" "map byte t \<noteq> [226, 128, 169]" by blast
  then show ?thesis
  proof cases
    case 1
    then have "t = map char_of [226 :: nat, 128, 168]" by (intro map_inj) simp
    then show ?thesis using 1 t by (simp add: esc_rune_def unesc_def unesc_escape_def Let_def)
  next
    case 2
    then have "t = map char_of [226 :: nat, 128, 169]" by (intro map_inj) simp
    then show ?thesis using 2 t by (simp add: esc_rune_def unesc_def unesc_escape_def Let_def)
  next
    case 3
    have "c \<noteq> backslash" using big by auto
    moreover have "rune_len (t @ x) = length t" by (rule rune_len_append [OF assms])
    moreover have "esc_rune (Rune t) = t" using 3 t by (auto simp: esc_rune_def)
    ultimately show ?thesis using t by (simp add: unesc_def del: rune_len.simps)
  qed
qed

lemma esc_rune_head: "is_rune t \<Longrightarrow> \<exists>d u. esc_rune (Rune t) = d # u \<and> d \<noteq> dquote"
proof (cases "length t = 1")
  case True
  assume t: "is_rune t"
  from True obtain c where c: "t = [c]" by (cases t) auto
  with t have "byte c < 128"
    by (auto simp: is_rune_Cons first_info_def tail_ok_def split: if_splits list.splits)
  with esc_byte_head [of c] c show ?thesis by (simp add: esc_rune_def)
next
  case False
  assume a: "is_rune t"
  with False obtain c d u where t: "t = c # d # u"
    by (cases t; cases "tl t") (auto simp: is_rune_def)
  have "194 \<le> byte c"
    using is_rune_ascii [of c "d # u"] is_rune_nonascii [of c "d # u"] a t by auto
  then have "c \<noteq> dquote" by auto
  moreover have "backslash \<noteq> dquote" by (auto dest: arg_cong [where f = byte])
  ultimately show ?thesis using t by (simp add: esc_rune_def)
qed

definition good_runes :: "rune list \<Rightarrow> bool" where
  "good_runes rs = (\<forall>r \<in> set rs. \<exists>t. r = Rune t \<and> is_rune t)"

lemma good_runes_valid: "valid_utf8 s \<Longrightarrow> good_runes (runes s)"
  unfolding good_runes_def valid_utf8_def
  by (auto split: rune.splits dest: runes_is_rune) (metis rune.exhaust runes_is_rune)

lemma esc_runes_unique:
  assumes "good_runes rs" "good_runes rs'"
    and "concat (map esc_rune rs) @ dquote # x = concat (map esc_rune rs') @ dquote # y"
  shows "rs = rs' \<and> x = y"
  using assms
proof (induction rs arbitrary: rs')
  case Nil
  then show ?case
  proof (cases rs')
    case (Cons r rs'')
    with Nil.prems obtain t where "r = Rune t" "is_rune t" by (auto simp: good_runes_def)
    with esc_rune_head [of t] Nil.prems Cons show ?thesis by auto
  qed simp
next
  case (Cons r rs)
  from Cons.prems obtain t where t: "r = Rune t" "is_rune t" by (auto simp: good_runes_def)
  show ?case
  proof (cases rs')
    case Nil
    with esc_rune_head [of t] Cons.prems t show ?thesis by auto
  next
    case (Cons r' rs'')
    with Cons.prems obtain t' where t': "r' = Rune t'" "is_rune t'" by (auto simp: good_runes_def)
    let ?u = "concat (map esc_rune rs) @ dquote # x"
    let ?v = "concat (map esc_rune rs'') @ dquote # y"
    have "esc_rune r @ ?u = esc_rune r' @ ?v" using Cons.prems(3) Cons by simp
    then have "(r, ?u) = (r', ?v)"
      by (metis t t' unesc_esc_rune)
    moreover have "good_runes rs" "good_runes rs''"
      using Cons.prems Cons by (auto simp: good_runes_def)
    ultimately show ?thesis using Cons.IH [of rs''] Cons by simp
  qed
qed

lemma quote_unique:
  assumes "valid_utf8 s" "valid_utf8 t" "quote s @ x = quote t @ y"
  shows "s = t \<and> x = y"
proof -
  have "runes s = runes t \<and> x = y"
    using assms by (intro esc_runes_unique) (auto simp: quote_def good_runes_valid)
  then show ?thesis using valid_utf8_runes_eq assms by blast
qed

section \<open>The rendering is injective\<close>

definition stops :: "string \<Rightarrow> bool" where
  "stops x = (x = [] \<or> \<not> is_digit (hd x))"

text \<open>A comma-separated list up to its closing character is read back uniquely, if its items are.\<close>

lemma join_unique:
  assumes "\<And>a b u v. a \<in> set xs \<Longrightarrow> b \<in> set ys \<Longrightarrow> stops u \<Longrightarrow> stops v \<Longrightarrow>
             f a @ u = f b @ v \<Longrightarrow> a = b \<and> u = v"
    and "\<And>a. a \<in> set xs \<union> set ys \<Longrightarrow> f a \<noteq> [] \<and> hd (f a) \<noteq> cl"
    and "\<not> is_digit cl" "cl \<noteq> CHR '',''"
    and "join '','' (map f xs) @ cl # x = join '','' (map f ys) @ cl # y"
  shows "xs = ys \<and> x = y"
  using assms
proof (induction xs arbitrary: ys)
  case Nil
  then show ?case
  proof (cases ys)
    case (Cons b bs)
    then have "f b \<noteq> []" "hd (f b) \<noteq> cl" using Nil.prems(2) [of b] by auto
    with Nil.prems(5) Cons show ?thesis by (cases bs; cases "f b") auto
  qed simp
next
  case (Cons a as)
  have fa: "f a \<noteq> []" "hd (f a) \<noteq> cl" using Cons.prems(2) [of a] by auto
  have comma: "\<not> is_digit CHR '',''" by (simp add: is_digit_def)
  show ?case
  proof (cases ys)
    case Nil
    with Cons.prems(5) fa show ?thesis by (cases as; cases "f a") auto
  next
    case (Cons b bs)
    define ra where "ra = (if as = [] then cl # x else '','' @ join '','' (map f as) @ cl # x)"
    define rb where "rb = (if bs = [] then cl # y else '','' @ join '','' (map f bs) @ cl # y)"
    have "f a @ ra = f b @ rb"
      using Cons.prems(5) Cons by (auto simp: ra_def rb_def join_Cons)
    moreover have "stops ra" "stops rb"
      using Cons.prems(3) comma by (auto simp: stops_def ra_def rb_def)
    ultimately have ab: "a = b" "ra = rb"
      using Cons.prems(1) [of a b ra rb] Cons by auto
    have "as = bs \<and> x = y"
    proof (cases "as = [] \<or> bs = []")
      case True
      with ab(2) Cons.prems(4) show ?thesis by (auto simp: ra_def rb_def split: if_splits)
    next
      case False
      with ab(2) have "join '','' (map f as) @ cl # x = join '','' (map f bs) @ cl # y"
        by (simp add: ra_def rb_def)
      then show ?thesis
        using Cons.prems(1-4) Cons by (intro Cons.IH) auto
    qed
    with ab Cons show ?thesis by simp
  qed
qed

fun json_ok :: "json \<Rightarrow> bool" where
  "json_ok (JStr s) = valid_utf8 s"
| "json_ok (JNum n) = True"
| "json_ok JTrue = True"
| "json_ok (JArr js) = list_all json_ok js"
| "json_ok (JObj kvs) = list_all (\<lambda>(k, v). valid_utf8 k \<and> json_ok v) kvs"

lemma quote_not_Nil [simp]: "quote s \<noteq> []" "hd (quote s) = dquote" "quote s @ x = dquote # tl (quote s) @ x"
  by (simp_all add: quote_def)

definition head_class :: "json \<Rightarrow> nat" where
  "head_class j = (case j of JStr _ \<Rightarrow> 0 | JNum _ \<Rightarrow> 1 | JTrue \<Rightarrow> 2 | JArr _ \<Rightarrow> 3 | JObj _ \<Rightarrow> 4)"

definition char_class :: "char \<Rightarrow> nat" where
  "char_class c =
     (if c = dquote then 0 else if is_digit c then 1 else if c = CHR ''t'' then 2
      else if c = CHR ''['' then 3 else if c = CHR ''{'' then 4 else 5)"

lemma render_head: "render j \<noteq> [] \<and> char_class (hd (render j)) = head_class j"
proof (cases j)
  case (JNum n)
  have d: "is_digit (hd (itoa n))" by (rule itoa_digits [of _ n]) simp
  then have "hd (itoa n) \<noteq> dquote" by (auto simp: is_digit_def dquote_def)
  with JNum d show ?thesis by (simp add: char_class_def head_class_def)
qed (simp_all add: char_class_def head_class_def is_digit_def dquote_def eq_char_of_iff
      char_of_eq_iff del: quote_not_Nil(3) add: quote_not_Nil(1,2) [unfolded dquote_def])

lemma itoa_unique:
  assumes "stops x" "stops y" "itoa m @ x = itoa n @ y"
  shows "m = n \<and> x = y"
proof -
  have "takeWhile is_digit (itoa k @ z) = itoa k" if "stops z" for k z
    using that itoa_digits [of _ k]
    by (cases z) (auto simp: stops_def takeWhile_append takeWhile_eq_all_conv)
  then have "itoa m = itoa n" using assms by metis
  with assms(3) show ?thesis by simp
qed

lemma closers:
  "\<not> is_digit CHR '']''" "\<not> is_digit CHR ''}''" "char_class CHR '']'' = 5" "char_class CHR ''}'' = 5"
  by (simp_all add: is_digit_def char_class_def dquote_def eq_char_of_iff)

lemma render_unique:
  "json_ok j \<Longrightarrow> json_ok j' \<Longrightarrow> stops x \<Longrightarrow> stops y \<Longrightarrow> render j @ x = render j' @ y \<Longrightarrow> j = j' \<and> x = y"
proof (induction j arbitrary: j' x y)
  case (JStr s)
  have "head_class j' = 0"
    using render_head [of "JStr s"] render_head [of j'] JStr.prems(5)
    by (metis hd_append2 head_class_def json.case(1))
  then obtain t where "j' = JStr t" by (cases j') (auto simp: head_class_def)
  with JStr.prems quote_unique [of s t x y] show ?case by (simp del: quote_not_Nil)
next
  case (JNum n)
  have "head_class j' = 1"
    using render_head [of "JNum n"] render_head [of j'] JNum.prems(5)
    by (metis hd_append2 head_class_def json.case(2))
  then obtain m where "j' = JNum m" by (cases j') (auto simp: head_class_def)
  with JNum.prems itoa_unique [of x y n m] show ?case by simp
next
  case JTrue
  have "head_class j' = 2"
    using render_head [of JTrue] render_head [of j'] JTrue.prems(5)
    by (metis hd_append2 head_class_def json.case(3))
  then have "j' = JTrue" by (cases j') (auto simp: head_class_def)
  with JTrue.prems show ?case by simp
next
  case (JArr js)
  have "head_class j' = 3"
    using render_head [of "JArr js"] render_head [of j'] JArr.prems(5)
    by (metis hd_append2 head_class_def json.case(4))
  then obtain js' where j': "j' = JArr js'" by (cases j') (auto simp: head_class_def)
  have "js = js' \<and> x = y"
  proof (rule join_unique [of js js' render "CHR '']''"])
    show "a = b \<and> u = v" if "a \<in> set js" "b \<in> set js'" "stops u" "stops v"
      "render a @ u = render b @ v" for a b u v
      using JArr.IH [of a b u v] JArr.prems(1,2) j' that by (auto simp: list_all_iff)
    show "render a \<noteq> [] \<and> hd (render a) \<noteq> CHR '']''" for a
      using render_head [of a] closers(3) by (cases a) (auto simp: head_class_def)
  qed (use JArr.prems(5) j' closers in auto)
  with j' show ?case by simp
next
  case (JObj kvs)
  have "head_class j' = 4"
    using render_head [of "JObj kvs"] render_head [of j'] JObj.prems(5)
    by (metis hd_append2 head_class_def json.case(5))
  then obtain kvs' where j': "j' = JObj kvs'" by (cases j') (auto simp: head_class_def)
  let ?f = "\<lambda>(k, v). quote k @ '':'' @ render v"
  have "kvs = kvs' \<and> x = y"
  proof (rule join_unique [of kvs kvs' ?f "CHR ''}''"])
    fix a b u v
    assume ab: "a \<in> set kvs" "b \<in> set kvs'" "stops u" "stops v" "?f a @ u = ?f b @ v"
    obtain k w k' w' where p: "a = (k, w)" "b = (k', w')" by force
    have ok: "valid_utf8 k" "valid_utf8 k'" "json_ok w" "json_ok w'"
      using ab JObj.prems(1,2) j' p by (auto simp: list_all_iff)
    have "quote k @ ('':'' @ render w @ u) = quote k' @ ('':'' @ render w' @ v)"
      using ab(5) p by (simp del: quote_not_Nil)
    from quote_unique [OF ok(1,2) this] have k: "k = k'" "render w @ u = render w' @ v" by auto
    have "w = w' \<and> u = v"
      using JObj.IH [of "(k, w)" w w' u v] ab(1,3,4) p ok k(2) by simp
    with k p show "a = b \<and> u = v" by simp
  next
    show "?f a \<noteq> [] \<and> hd (?f a) \<noteq> CHR ''}''" for a
      by (cases a) (simp add: dquote_def char_of_eq_iff)
  qed (use JObj.prems(5) j' closers in \<open>auto simp del: quote_not_Nil\<close>)
  with j' show ?case by simp
qed

lemma render_inject:
  assumes "json_ok j" "json_ok j'"
  shows "render j = render j' \<longleftrightarrow> j = j'"
  using render_unique [OF assms, of "[]" "[]"] by (auto simp: stops_def)

section \<open>The key determines the spec\<close>

lemma field_keys [simp]:
  "k \<noteq> n \<Longrightarrow> k \<notin> fst ` set (f_str n s)"
  "k \<noteq> n \<Longrightarrow> k \<notin> fst ` set (f_bool n b)"
  "k \<noteq> n \<Longrightarrow> k \<notin> fst ` set (f_num n v)"
  "k \<noteq> n \<Longrightarrow> k \<notin> fst ` set (f_strs n ss)"
  "k \<noteq> n \<Longrightarrow> k \<notin> fst ` set (f_obj n enc ov)"
  by (auto simp: f_str_def f_bool_def f_num_def f_strs_def f_obj_def split: option.splits)

text \<open>A field in front of fields with other names is read back, whether it was omitted or not.\<close>

lemma field_cancel:
  assumes "n \<notin> fst ` set r" "n \<notin> fst ` set r'"
  shows "f_str n s @ r = f_str n s' @ r' \<longleftrightarrow> s = s' \<and> r = r'"
    and "f_bool n b @ r = f_bool n b' @ r' \<longleftrightarrow> b = b' \<and> r = r'"
    and "f_num n v @ r = f_num n v' @ r' \<longleftrightarrow> v = v' \<and> r = r'"
    and "f_strs n ss @ r = f_strs n ss' @ r' \<longleftrightarrow> ss = ss' \<and> r = r'"
    and "(\<And>x y. enc x = enc y \<longleftrightarrow> x = y) \<Longrightarrow>
           f_obj n enc ov @ r = f_obj n enc ov' @ r' \<longleftrightarrow> ov = ov' \<and> r = r'"
  using assms
  by (auto simp: f_str_def f_bool_def f_num_def f_strs_def f_obj_def inj_map_eq_map inj_def
      word_unat_eq_iff [symmetric] split: option.splits)

lemmas field_cancel_last =
  field_cancel [where r = "[]" and r' = "[]", simplified]

lemma http2_json_inject: "http2_json g = http2_json h \<longleftrightarrow> g = h"
  by (auto simp: http2_json_def field_cancel field_cancel_last image_Un intro: http2.equality)

lemma http3_json_inject: "http3_json g = http3_json h \<longleftrightarrow> g = h"
  by (auto simp: http3_json_def field_cancel field_cancel_last image_Un intro: http3.equality)

lemma spec_json_inject: "spec_json s = spec_json t \<longleftrightarrow> s = t"
  by (auto simp: spec_json_def field_cancel field_cancel_last image_Un http2_json_inject
      http3_json_inject intro: spec.equality)

text \<open>All the text of the spec is valid UTF-8.\<close>

definition spec_utf8 :: "spec \<Rightarrow> bool" where
  "spec_utf8 s =
     (list_all valid_utf8 [s_browser s, s_os s, s_ja s, s_force_http s, s_proxy s, s_dns s,
        s_dns_over_tls s, s_interface_addr s] \<and>
      (case s_http3 s of None \<Rightarrow> True | Some h \<Rightarrow> list_all valid_utf8 (h3_order h)))"

lemma field_ok [simp]:
  "list_all (\<lambda>(k, v). valid_utf8 k \<and> json_ok v) (f_str n s) \<longleftrightarrow> s = [] \<or> valid_utf8 n \<and> valid_utf8 s"
  "list_all (\<lambda>(k, v). valid_utf8 k \<and> json_ok v) (f_bool n b) \<longleftrightarrow> \<not> b \<or> valid_utf8 n"
  "list_all (\<lambda>(k, v). valid_utf8 k \<and> json_ok v) (f_num n w) \<longleftrightarrow> w = None \<or> valid_utf8 n"
  "list_all (\<lambda>(k, v). valid_utf8 k \<and> json_ok v) (f_strs n ss) \<longleftrightarrow>
     ss = [] \<or> valid_utf8 n \<and> list_all valid_utf8 ss"
  "list_all (\<lambda>(k, v). valid_utf8 k \<and> json_ok v) (f_obj n enc ov) \<longleftrightarrow>
     (case ov of None \<Rightarrow> True | Some x \<Rightarrow> valid_utf8 n \<and> json_ok (enc x))"
  by (auto simp: f_str_def f_bool_def f_num_def f_strs_def f_obj_def split: option.splits)
    (auto simp: list_all_iff)

lemma field_names_valid:
  "list_all valid_utf8 [''headertablesize'', ''enablepush'', ''maxconcurrentstreams'',
     ''initialwindowsize'', ''maxframesize'', ''maxheaderlistsize'', ''norfc7540priorities'',
     ''connectionflow'', ''initialstreamid'', ''qpackmaxtablecapacity'', ''maxfieldsectionsize'',
     ''qpackblockedstreams'', ''enableconnectprotocol'', ''settingsh3datagram'', ''h3datagram'',
     ''enablewebtransport'', ''grease'', ''order'', ''browser'', ''os'', ''ja'', ''http2settings'',
     ''http3settings'', ''forcehttp'', ''proxy'', ''dns'', ''dnsovertls'', ''interfaceaddr'',
     ''securetls'', ''disablekeepalive'', ''h2c'']"
  unfolding list_all_iff by (intro ballI valid_utf8_ascii) (auto simp: byte_def)

lemma spec_json_ok: "spec_utf8 s \<Longrightarrow> json_ok (spec_json s)"
  using field_names_valid
  by (auto simp: spec_json_def spec_utf8_def http2_json_def http3_json_def split: option.splits)

text \<open>
  C15. Two specs of valid UTF-8 text have the same cache key only if they are the same spec: the
  cache never hands a request a client built for another fingerprint, proxy or resolver.
\<close>

theorem spec_key_injective:
  assumes "spec_utf8 s" "spec_utf8 t"
  shows "spec_key s = spec_key t \<longleftrightarrow> s = t"
  by (simp add: spec_key_def render_inject spec_json_ok assms spec_json_inject)

text \<open>Two specs that differ only in the resolver, where neither text is valid UTF-8.\<close>

definition dns_spec :: "string \<Rightarrow> spec" where
  "dns_spec dns =
     \<lparr>s_browser = [], s_os = [], s_ja = [], s_http2 = None, s_http3 = None, s_force_http = [],
      s_proxy = [], s_dns = dns, s_dns_over_tls = [], s_interface_addr = [], s_secure_tls = False,
      s_disable_keep_alive = False, s_h2c = False\<rparr>"

theorem spec_key_injective_witness:
  "spec_key (dns_spec ''1.1.1.1:53'') \<noteq> spec_key (dns_spec ''8.8.8.8:53'')"
proof -
  have "spec_utf8 (dns_spec ''1.1.1.1:53'')" "spec_utf8 (dns_spec ''8.8.8.8:53'')"
    by code_simp+
  then show ?thesis using spec_key_injective by (auto simp: dns_spec_def)
qed

text \<open>
  Without that restriction keys collide: the encoder writes every invalid byte as the same
  replacement escape, so two resolver addresses that pass the host:port check and differ in such
  a byte share one cache key, and with it one client.
\<close>

theorem spec_key_collision:
  "host_port (char_of (254 :: nat) # '':53'') \<and> host_port (char_of (255 :: nat) # '':53'') \<and>
   dns_spec (char_of (254 :: nat) # '':53'') \<noteq> dns_spec (char_of (255 :: nat) # '':53'') \<and>
   spec_key (dns_spec (char_of (254 :: nat) # '':53'')) =
     spec_key (dns_spec (char_of (255 :: nat) # '':53''))"
proof (intro conjI)
  show "spec_key (dns_spec (char_of (254 :: nat) # '':53'')) =
      spec_key (dns_spec (char_of (255 :: nat) # '':53''))"
    by code_simp
  show "dns_spec (char_of (254 :: nat) # '':53'') \<noteq> dns_spec (char_of (255 :: nat) # '':53'')"
    by (simp add: dns_spec_def char_of_eq_iff of_char_of)
qed code_simp+

end
