(* ===== verification/Tip_Catalogue.thy ===== *)
theory Tip_Catalogue
  imports Tip_Families Tip_Key
begin

text \<open>
  The profile catalogue (\<^verbatim>\<open>internal/impersonate/catalogue.go\<close>): one profile per family and
  OS, its 12-digit id the start of a hash over what the profile emits, and lookup by id. SHA-256
  and surf's profile tables are arguments.
\<close>

section \<open>Fingerprint digest\<close>

text \<open>
  The calls surf makes on the recorder while it configures HTTP/2. The printed forms of the
  priority values are strings of the library's types.
\<close>

datatype h2_call =
    HeaderTableSize u32 | EnablePush u32 | MaxConcurrentStreams u32 | InitialWindowSize u32
  | MaxFrameSize u32 | MaxHeaderListSize u32 | NoRFC7540Priorities u32 | ConnectionFlow u32
  | InitialStreamID u32 | PriorityParam string | PriorityFrames string

definition rec_add :: "string \<Rightarrow> string \<Rightarrow> string list \<Rightarrow> string list" where
  "rec_add nm v parts = parts @ [nm @ ''='' @ v]"

definition dec32 :: "u32 \<Rightarrow> string" where
  "dec32 v = itoa (unat v)"

fun record_call :: "h2_call \<Rightarrow> string list \<Rightarrow> string list" where
  "record_call (HeaderTableSize v) = rec_add ''hts'' (dec32 v)"
| "record_call (EnablePush v) = rec_add ''push'' (dec32 v)"
| "record_call (MaxConcurrentStreams v) = rec_add ''mcs'' (dec32 v)"
| "record_call (InitialWindowSize v) = rec_add ''iws'' (dec32 v)"
| "record_call (MaxFrameSize v) = rec_add ''mfs'' (dec32 v)"
| "record_call (MaxHeaderListSize v) = rec_add ''mhls'' (dec32 v)"
| "record_call (NoRFC7540Priorities v) = rec_add ''norfc'' (dec32 v)"
| "record_call (ConnectionFlow v) = rec_add ''flow'' (dec32 v)"
| "record_call (InitialStreamID v) = rec_add ''sid'' (dec32 v)"
| "record_call (PriorityParam v) = rec_add ''prio'' v"
| "record_call (PriorityFrames v) = rec_add ''frames'' v"

definition recorder_string :: "string list \<Rightarrow> string" where
  "recorder_string parts = join '';'' parts"

text \<open>A variant: the hello's cipher suites and extension types, when it is written out.\<close>

record variant =
  vr_hello_spec :: "(16 word list \<times> string list) option"
  vr_hello_id :: string
  vr_configure_h2 :: "h2_call list"

definition fingerprint_digest :: "variant \<Rightarrow> string" where
  "fingerprint_digest v =
     (case vr_hello_spec v of
        Some (suites, exts) \<Rightarrow>
          concat (map (\<lambda>s. itoa (unat s) @ '','') suites) @ concat (map (\<lambda>e. e @ '';'') exts)
      | None \<Rightarrow> vr_hello_id v) @
     recorder_string (fold record_call (vr_configure_h2 v) [])"

section \<open>Profiles\<close>

record surf_env = ua_env +
  os_mobile :: "string \<Rightarrow> bool"
  os_mobile_hint :: "string \<Rightarrow> string"
  os_platform_hint :: "string \<Rightarrow> string"
  chrome_variants :: "bool \<Rightarrow> variant"
  firefox_variants :: "bool \<Rightarrow> variant"

definition family_variant :: "surf_env \<Rightarrow> family \<Rightarrow> bool \<Rightarrow> variant" where
  "family_variant env f mobile =
     (case fm_base f of
        ChromeBase \<Rightarrow> chrome_variants env mobile
      | FirefoxBase \<Rightarrow> firefox_variants env mobile)"

record profile =
  pr_id :: string
  pr_browser :: string
  pr_os :: string
  pr_mobile :: bool
  pr_fidelity :: string
  pr_user_agent :: string
  pr_sec_ch_ua :: string
  pr_sec_ch_ua_platform :: string
  pr_sec_ch_ua_mobile :: string
  pr_family :: string
  pr_platform :: string

definition official_names :: "(string \<times> string) list" where
  "official_names =
     [(''chrome'', ''Chrome''), (''firefox'', ''Firefox''), (''edge'', ''Edge''),
      (''windows'', ''Windows''), (''macos'', ''MacOS''), (''linux'', ''Linux''),
      (''android'', ''Android''), (''ios'', ''IOS'')]"

definition lookup_str :: "(string \<times> string) list \<Rightarrow> string \<Rightarrow> string" where
  "lookup_str m k = (case map_of m k of Some v \<Rightarrow> v | None \<Rightarrow> [])"

definition hex_encode :: "8 word list \<Rightarrow> string" where
  "hex_encode bs = concat (map (\<lambda>b. [hex_digit (unat b div 16), hex_digit (unat b mod 16)]) bs)"

text \<open>
  \<open>sha\<close> is SHA-256. A family whose agent panics gives \<open>None\<close>; so does a family whose headers
  do, which is Edge's only.
\<close>

definition profile_hints :: "surf_env \<Rightarrow> family \<Rightarrow> string \<Rightarrow> (string \<times> string \<times> string) option" where
  "profile_hints env f os =
     (if \<not> fm_hints f then Some ([], [], [])
      else if fm_headers f then
        map_option (\<lambda>hs. (lookup_str hs ''sec-ch-ua'', os_platform_hint env os, os_mobile_hint env os))
          (edge_headers (ua_env.truncate env) os)
      else Some (sec_ch_ua env, os_platform_hint env os, os_mobile_hint env os))"

definition profile_for :: "(string \<Rightarrow> 8 word list) \<Rightarrow> surf_env \<Rightarrow> family \<Rightarrow> string \<Rightarrow> profile option" where
  "profile_for sha env f os =
     (case agent (ua_env.truncate env) f os of
        None \<Rightarrow> None
      | Some ua \<Rightarrow>
          (case profile_hints env f os of
             None \<Rightarrow> None
           | Some (brands, plat, mob) \<Rightarrow>
               let identity =
                 join [char_of (10 :: nat)]
                   [fm_name f, os, ua, brands, plat, mob,
                    fingerprint_digest (family_variant env f (os_mobile env os))]
               in Some
                 \<lparr>pr_id = take 12 (hex_encode (sha identity)),
                  pr_browser = lookup_str official_names (fm_name f),
                  pr_os = lookup_str official_names os,
                  pr_mobile = os_mobile env os,
                  pr_fidelity = (if os = ''ios'' then ''low'' else ''high''),
                  pr_user_agent = ua, pr_sec_ch_ua = brands, pr_sec_ch_ua_platform = plat,
                  pr_sec_ch_ua_mobile = mob, pr_family = fm_name f, pr_platform = os\<rparr>))"

section \<open>The catalogue\<close>

record catalogue =
  ct_revision :: string
  ct_profiles :: "profile list"
  ct_by_id :: "string \<rightharpoonup> profile"

fun add_profiles ::
  "(string \<Rightarrow> 8 word list) \<Rightarrow> surf_env \<Rightarrow> (family \<times> string) list \<Rightarrow> catalogue \<times> string \<Rightarrow>
   (catalogue \<times> string) option" where
  "add_profiles sha env [] st = Some st"
| "add_profiles sha env ((f, os) # todo) (c, written) =
     (case profile_for sha env f os of
        None \<Rightarrow> None
      | Some p \<Rightarrow>
          add_profiles sha env todo
            (c\<lparr>ct_profiles := ct_profiles c @ [p], ct_by_id := (ct_by_id c)(pr_id p \<mapsto> p)\<rparr>,
             written @ pr_id p))"

definition catalogue_entries :: "(family \<times> string) list" where
  "catalogue_entries =
     concat (map (\<lambda>b. case map_of families b of
                        None \<Rightarrow> [] | Some f \<Rightarrow> map (\<lambda>os. (f, os)) (fm_oses f)) family_names)"

definition build_catalogue :: "(string \<Rightarrow> 8 word list) \<Rightarrow> surf_env \<Rightarrow> catalogue option" where
  "build_catalogue sha env =
     map_option (\<lambda>(c, written). c\<lparr>ct_revision := take 12 (hex_encode (sha written))\<rparr>)
       (add_profiles sha env catalogue_entries
          (\<lparr>ct_revision = [], ct_profiles = [], ct_by_id = Map.empty\<rparr>, []))"

definition lookup_profile :: "catalogue \<Rightarrow> string \<Rightarrow> profile option" where
  "lookup_profile c pid = ct_by_id c (to_lower pid)"

text \<open>The facts of the table the proofs use, so that the table itself is never unfolded in them.\<close>

definition family_of :: "string \<Rightarrow> family" where
  "family_of b = the (map_of families b)"

lemma family_of_simps:
  "map_of families ''chrome'' = Some (family_of ''chrome'')"
  "map_of families ''edge'' = Some (family_of ''edge'')"
  "map_of families ''firefox'' = Some (family_of ''firefox'')"
  "fm_name (family_of ''chrome'') = ''chrome''" "fm_name (family_of ''edge'') = ''edge''"
  "fm_name (family_of ''firefox'') = ''firefox''"
  "fm_oses (family_of ''chrome'') = all_oses" "fm_oses (family_of ''firefox'') = all_oses"
  "fm_oses (family_of ''edge'') = [''windows'', ''macos'', ''linux'', ''android'']"
  "\<not> fm_headers (family_of ''chrome'')" "\<not> fm_headers (family_of ''firefox'')"
  "fm_agent (family_of ''edge'') = EdgeAgent"
  by (simp_all add: family_of_def families_def)

lemma catalogue_entries_eq:
  "catalogue_entries =
     map (Pair (family_of ''chrome'')) all_oses @
     map (Pair (family_of ''edge'')) [''windows'', ''macos'', ''linux'', ''android''] @
     map (Pair (family_of ''firefox'')) all_oses"
  by (simp add: catalogue_entries_def family_names_eq family_of_simps)

lemma catalogue_pairs:
  "map (\<lambda>(f, os). (fm_name f, os)) catalogue_entries =
     concat (map (\<lambda>b. map (Pair b) (os_list b)) family_names)"
  by (simp add: catalogue_entries_eq family_of_simps family_names_eq os_list_eq all_oses_def)

lemma entries_cases:
  assumes "(f, os) \<in> set catalogue_entries"
  obtains b where "b \<in> {''chrome'', ''edge'', ''firefox''}" "f = family_of b" "os \<in> set (fm_oses f)"
proof -
  from assms consider "(f, os) \<in> Pair (family_of ''chrome'') ` set all_oses"
    | "(f, os) \<in> Pair (family_of ''edge'') ` set [''windows'', ''macos'', ''linux'', ''android'']"
    | "(f, os) \<in> Pair (family_of ''firefox'') ` set all_oses"
    unfolding catalogue_entries_eq set_append set_map Un_iff by blast
  then show thesis
  proof cases
    case 1
    then show ?thesis by (intro that [of "''chrome''"]) (blast, blast, simp add: image_iff family_of_simps)
  next
    case 2
    then show ?thesis by (intro that [of "''edge''"]) (blast, blast, auto simp: family_of_simps)
  next
    case 3
    then show ?thesis by (intro that [of "''firefox''"]) (blast, blast, simp add: image_iff family_of_simps)
  qed
qed

lemma entries_ok: "(f, os) \<in> set catalogue_entries \<Longrightarrow>
    map_of families (fm_name f) = Some f \<and> os \<in> set (fm_oses f)"
  by (erule entries_cases) (auto simp: family_of_simps)

lemma entries_headers: "(f, os) \<in> set catalogue_entries \<Longrightarrow> fm_headers f \<Longrightarrow> fm_agent f = EdgeAgent"
  by (erule entries_cases) (auto simp: family_of_simps)

lemma hex_digit_hex: "n < 16 \<Longrightarrow> is_hex_lower (hex_digit n)"
proof (cases "n < 10")
  case True
  then show ?thesis by (simp add: hex_digit_def is_hex_lower_def is_digit_def Let_def of_char_of)
next
  case False
  assume "n < 16"
  with False have "n \<in> {10, 11, 12, 13, 14, 15}" by auto
  moreover have "is_hex_lower (hex_digit 10)" "is_hex_lower (hex_digit 11)"
    "is_hex_lower (hex_digit 12)" "is_hex_lower (hex_digit 13)" "is_hex_lower (hex_digit 14)"
    "is_hex_lower (hex_digit 15)" by code_simp+
  ultimately show ?thesis by auto
qed

lemma hex_encode_hex: "list_all is_hex_lower (hex_encode bs)"
proof (induction bs)
  case (Cons b bs)
  have "unat b < 256" using unsigned_less [of b] by simp
  then have "unat b div 16 < 16" by (simp add: less_mult_imp_div_less)
  then show ?case using Cons by (simp add: hex_encode_def hex_digit_hex)
qed (simp add: hex_encode_def)

lemma hex_encode_length: "length (hex_encode bs) = 2 * length bs"
  by (induction bs) (simp_all add: hex_encode_def)

lemma is_hex_lower_char: "is_hex_lower ch \<Longrightarrow> lower_char ch = ch"
  by (auto simp: is_hex_lower_def is_digit_def Let_def lower_char_def)

lemma hex_lower: "list_all is_hex_lower s \<Longrightarrow> to_lower s = s"
  by (induction s) (auto simp: is_hex_lower_char)

lemma list_all_take: "list_all P xs \<Longrightarrow> list_all P (take n xs)"
  by (metis append_take_drop_id list_all_append)

lemma profile_id_digest: "length bs = 32 \<Longrightarrow> profile_id (take 12 (hex_encode bs))"
  by (simp add: profile_id_def hex_encode_length hex_encode_hex list_all_take)

text \<open>What a profile says, and that building it does not panic.\<close>

definition describes :: "surf_env \<Rightarrow> profile \<Rightarrow> family \<Rightarrow> string \<Rightarrow> bool" where
  "describes env p f os =
     (pr_family p = fm_name f \<and> pr_platform p = os \<and>
      agent (ua_env.truncate env) f os = Some (pr_user_agent p) \<and>
      pr_mobile p = os_mobile env os \<and> (pr_fidelity p = ''low'' \<longleftrightarrow> os = ''ios''))"

lemma profile_for_ok:
  assumes "chrome_versions (ua_env.truncate env)" "(f, os) \<in> set catalogue_entries"
    and "\<And>s. length (sha s) = 32"
  obtains p where "profile_for sha env f os = Some p" "describes env p f os" "profile_id (pr_id p)"
proof -
  from entries_ok [OF assms(2)] agent_defined [OF assms(1)] obtain ua
    where ua: "agent (ua_env.truncate env) f os = Some ua" by blast
  have "\<exists>hs. profile_hints env f os = Some hs"
  proof (cases "fm_headers f")
    case True
    then have "fm_agent f = EdgeAgent" using entries_headers [OF assms(2)]
      by simp
    with ua show ?thesis by (auto simp: profile_hints_def edge_headers_def agent_def)
  qed (simp add: profile_hints_def)
  then obtain brands plat mob where "profile_hints env f os = Some (brands, plat, mob)" by auto
  with ua show ?thesis
    by (intro that) (auto simp: profile_for_def Let_def describes_def profile_id_digest assms(3)
      split: if_splits)
qed

lemma add_profiles_eq:
  "list_all2 (\<lambda>p (f, os). profile_for sha env f os = Some p) ps todo \<Longrightarrow>
     \<exists>w. add_profiles sha env todo (c, written) =
       Some (c\<lparr>ct_profiles := ct_profiles c @ ps,
                ct_by_id := fold (\<lambda>p m. m(pr_id p \<mapsto> p)) ps (ct_by_id c)\<rparr>, w)"
proof (induction todo arbitrary: ps c written)
  case (Cons x todo)
  obtain f os where x: "x = (f, os)" by (cases x)
  with Cons.prems obtain p qs where ps: "ps = p # qs" "profile_for sha env f os = Some p"
    "list_all2 (\<lambda>p (f, os). profile_for sha env f os = Some p) qs todo"
    by (auto simp: list_all2_Cons2)
  from Cons.IH [OF ps(3), of "c\<lparr>ct_profiles := ct_profiles c @ [p], ct_by_id := (ct_by_id c)(pr_id p \<mapsto> p)\<rparr>"
      "written @ pr_id p"]
  show ?case by (simp add: x ps)
qed simp

lemma profiles_exist:
  assumes "chrome_versions (ua_env.truncate env)" "\<And>s. length (sha s) = 32"
    and "set todo \<subseteq> set catalogue_entries"
  shows "\<exists>ps. list_all2 (\<lambda>p (f, os). profile_for sha env f os = Some p) ps todo \<and>
      list_all2 (\<lambda>p (f, os). describes env p f os \<and> profile_id (pr_id p)) ps todo"
  using assms(3)
proof (induction todo)
  case (Cons x todo)
  obtain f os where x: "x = (f, os)" by (cases x)
  with Cons.prems have "(f, os) \<in> set catalogue_entries" by simp
  from profile_for_ok [of env f os sha, OF assms(1) this assms(2)] obtain p where
    p: "profile_for sha env f os = Some p" "describes env p f os" "profile_id (pr_id p)" by metis
  from Cons obtain ps where
    "list_all2 (\<lambda>p (f, os). profile_for sha env f os = Some p) ps todo"
    "list_all2 (\<lambda>p (f, os). describes env p f os \<and> profile_id (pr_id p)) ps todo" by auto
  with p x show ?case by (intro exI [of _ "p # ps"]) simp
qed simp

lemma fold_ids: "fold (\<lambda>p m. m(pr_id p \<mapsto> p)) ps Map.empty i = find (\<lambda>p. pr_id p = i) (rev ps)"
proof (induction ps rule: rev_induct)
  case (snoc p ps)
  then show ?case by simp
qed simp

lemma describes_pairs:
  "list_all2 (\<lambda>p (f, os). describes env p f os \<and> profile_id (pr_id p)) ps todo \<Longrightarrow>
     map (\<lambda>p. (pr_family p, pr_platform p)) ps = map (\<lambda>(f, os). (fm_name f, os)) todo"
  by (induction rule: list_all2_induct) (auto simp: describes_def)

text \<open>
  C26. Building the catalogue never panics. It lists exactly one profile per family and OS, in the
  order of the family names; each describes its pair, with the User-Agent the family emits there,
  and has a 12-digit lower-case hex id, a value the Profile directive accepts. Lookup ignores
  letter case and finds exactly the listed ids: the last profile listed under an id.
\<close>

theorem catalogue_sound:
  assumes versions: "chrome_versions (ua_env.truncate env)" and sha: "\<And>s. length (sha s) = 32"
  shows "\<exists>c. build_catalogue sha env = Some c \<and>
      list_all2 (\<lambda>p (f, os). describes env p f os \<and> profile_id (pr_id p))
        (ct_profiles c) catalogue_entries \<and>
      map (\<lambda>p. (pr_family p, pr_platform p)) (ct_profiles c) =
        concat (map (\<lambda>b. map (Pair b) (os_list b)) family_names) \<and>
      (\<forall>pid. lookup_profile c pid = find (\<lambda>p. pr_id p = to_lower pid) (rev (ct_profiles c)))"
proof -
  from profiles_exist [OF versions, of sha catalogue_entries, OF sha] obtain ps where
    ps: "list_all2 (\<lambda>p (f, os). profile_for sha env f os = Some p) ps catalogue_entries"
    "list_all2 (\<lambda>p (f, os). describes env p f os \<and> profile_id (pr_id p)) ps catalogue_entries"
    by blast
  from add_profiles_eq [OF ps(1), of "\<lparr>ct_revision = [], ct_profiles = [], ct_by_id = Map.empty\<rparr>"]
  obtain w where "add_profiles sha env catalogue_entries
      (\<lparr>ct_revision = [], ct_profiles = [], ct_by_id = Map.empty\<rparr>, []) =
      Some (\<lparr>ct_revision = [], ct_profiles = ps,
             ct_by_id = fold (\<lambda>p m. m(pr_id p \<mapsto> p)) ps Map.empty\<rparr>, w)"
    by auto
  with ps(2) describes_pairs [OF ps(2)] show ?thesis
    by (simp only: build_catalogue_def lookup_profile_def catalogue_pairs fold_ids option.map
        prod.case) (simp add: fold_ids)
qed

text \<open>When no two profiles share an id, every id finds its own profile, in any spelling.\<close>

lemma find_rev_distinct:
  "distinct (map pr_id ps) \<Longrightarrow> p \<in> set ps \<Longrightarrow> find (\<lambda>q. pr_id q = pr_id p) (rev ps) = Some p"
proof (induction ps rule: rev_induct)
  case (snoc q ps)
  then show ?case by (cases "p = q") (auto simp: image_iff)
qed simp

definition demo_surf :: surf_env where
  "demo_surf =
     ua_env.extend demo_env
       (surf_env.fields (\<lambda>os. os = ''android'' \<or> os = ''ios'') (\<lambda>os. ''?0'') (\<lambda>os. os)
          (\<lambda>m. \<lparr>vr_hello_spec = None, vr_hello_id = ''c'', vr_configure_h2 = [HeaderTableSize 65536]\<rparr>)
          (\<lambda>m. \<lparr>vr_hello_spec = Some ([4865], [''SNI'']), vr_hello_id = [], vr_configure_h2 = []\<rparr>))"

theorem catalogue_sound_witness:
  "\<exists>c. build_catalogue (\<lambda>s. replicate 32 171) demo_surf = Some c \<and> length (ct_profiles c) = 14"
proof -
  have "chrome_versions (ua_env.truncate demo_surf)"
    using demo_versions by (simp add: demo_surf_def surf_env.defs ua_env.defs chrome_versions_def)
  from catalogue_sound [OF this, of "\<lambda>s. replicate 32 171"] obtain c where
    c: "build_catalogue (\<lambda>s. replicate 32 171) demo_surf = Some c"
    "list_all2 (\<lambda>p (f, os). describes demo_surf p f os \<and> profile_id (pr_id p))
        (ct_profiles c) catalogue_entries" by auto
  have "length catalogue_entries = 14"
    by (simp add: catalogue_entries_eq all_oses_def)
  with list_all2_lengthD [OF c(2)] c(1) show ?thesis by auto
qed

end
