(* ===== verification/Tip_Context.thy ===== *)
theory Tip_Context
  imports Tip_Parse
begin

text \<open>
  What happens to a request's headers after impersonation (\<^verbatim>\<open>internal/impersonate/context.go\<close>):
  the headers named by Keep get their original values back, and the outbound header lines are
  captured. The names of the two keys under which the HTTP library keeps its header order are
  arguments; \<open>header\<close> is the library's header map.
\<close>

record keep_ctx =
  k_original :: header
  k_names :: "string list"

record capture =
  cap_headers :: "string list"
  cap_connected :: bool

record request_ctx =
  ctx_keep :: "keep_ctx option"
  ctx_capture :: "capture option"

definition with_keep :: "request_ctx \<Rightarrow> header \<Rightarrow> string list \<Rightarrow> request_ctx" where
  "with_keep ctx original ns = ctx\<lparr>ctx_keep := Some \<lparr>k_original = original, k_names = ns\<rparr>\<rparr>"

definition with_capture :: "request_ctx \<Rightarrow> capture \<Rightarrow> request_ctx" where
  "with_capture ctx c = ctx\<lparr>ctx_capture := Some c\<rparr>"

definition keep_restore :: "header \<Rightarrow> string list \<Rightarrow> header \<Rightarrow> header" where
  "keep_restore original ns h =
     fold (\<lambda>name h. fold (h_add name) (h_values original name) (h_del name h)) ns h"

section \<open>Header lines\<close>

definition header_lines :: "header \<Rightarrow> string \<Rightarrow> string list" where
  "header_lines h key = map (\<lambda>v. to_lower key @ '': '' @ v) (raw_values h key)"

definition emit :: "header \<Rightarrow> string \<Rightarrow> string set \<times> string list \<Rightarrow> string set \<times> string list" where
  "emit h name st =
     (case st of
        (seen, out) \<Rightarrow>
          let key = canonical_key name in
          if key \<in> seen then (seen, out) else (insert key seen, out @ header_lines h key))"

definition lines :: "string \<Rightarrow> string \<Rightarrow> header \<Rightarrow> string list" where
  "lines order_key porder_key h =
     (let st = fold (emit h) (raw_values h order_key) ({order_key, porder_key}, []);
          rest = filter (\<lambda>key. key \<notin> fst st) (map fst h)
      in snd (fold (emit h) (sort rest) st))"

definition finalize ::
  "string \<Rightarrow> string \<Rightarrow> request_ctx \<Rightarrow> header \<Rightarrow> header \<times> capture option" where
  "finalize order_key porder_key ctx h =
     (let h' = (case ctx_keep ctx of
                  Some k \<Rightarrow> keep_restore (k_original k) (k_names k) h
                | None \<Rightarrow> h)
      in (h', map_option (\<lambda>c. c\<lparr>cap_headers := lines order_key porder_key h'\<rparr>) (ctx_capture ctx)))"

section \<open>Keeping headers\<close>

text \<open>
  C24. The headers named by Keep leave with exactly the values they arrived with, in order, in
  place of whatever impersonation gave them (also when they arrived with none), and every other
  header leaves as impersonation made it. The map stays one with a single entry per name.
\<close>

theorem keep_restores:
  assumes "ctx_keep ctx = Some k"
  shows "raw_values (fst (finalize ok pk ctx h)) n =
      (if n \<in> canonical_key ` set (k_names k) then raw_values (k_original k) n else raw_values h n)"
  using assms hdr.vals_restore [of "raw_values (k_original k)" "k_names k" h n]
  by (simp add: finalize_def keep_restore_def h_values_def Let_def)

theorem keep_restores_witness:
  "raw_values (fst (finalize ''o'' ''p''
      (with_keep \<lparr>ctx_keep = None, ctx_capture = None\<rparr> [(''Accept'', [''a'', ''b''])] [''accept''])
      [(''Accept'', [''x'']), (''Host'', [''h''])])) ''Accept'' = [''a'', ''b'']"
proof -
  let ?k = "\<lparr>k_original = [(''Accept'', [''a'', ''b''])], k_names = [''accept'']\<rparr>"
  let ?c = "with_keep \<lparr>ctx_keep = None, ctx_capture = None\<rparr> (k_original ?k) (k_names ?k)"
  have c: "canonical_key ''accept'' = ''Accept''" by code_simp
  have "ctx_keep ?c = Some ?k" by (simp add: with_keep_def)
  from keep_restores [OF this, of "''o''" "''p''" "[(''Accept'', [''x'']), (''Host'', [''h''])]" "''Accept''"]
  show ?thesis by (simp add: c raw_values_def)
qed

text \<open>
  A directive header named by Keep is not removed from the outbound request: it is stripped
  before impersonation and then restored from the copy of the headers taken before.
\<close>

theorem keep_restores_directive_header:
  assumes "name \<in> set ns" "is_tip name" "ctx_keep ctx = Some \<lparr>k_original = original, k_names = ns\<rparr>"
  shows "raw_values (fst (finalize ok pk ctx (strip original))) (canonical_key name) =
    h_values original name"
  using assms hdr.vals_restore [of "raw_values original" ns "strip original" "canonical_key name"]
  by (simp add: finalize_def keep_restore_def h_values_def Let_def)

theorem keep_restores_directive_header_witness:
  "raw_values (fst (finalize ''o'' ''p''
      (with_keep \<lparr>ctx_keep = None, ctx_capture = None\<rparr> [(''X-Tip-Proxy'', [''http://u:pw@p:1''])] [''x-tip-proxy''])
      (strip [(''X-Tip-Proxy'', [''http://u:pw@p:1''])]))) ''X-Tip-Proxy'' = [''http://u:pw@p:1'']"
proof -
  let ?h = "[(''X-Tip-Proxy'', [''http://u:pw@p:1''])]"
  let ?c = "with_keep \<lparr>ctx_keep = None, ctx_capture = None\<rparr> ?h [''x-tip-proxy'']"
  have c: "canonical_key ''x-tip-proxy'' = ''X-Tip-Proxy''" "is_tip ''x-tip-proxy''" by code_simp+
  have "ctx_keep ?c = Some \<lparr>k_original = ?h, k_names = [''x-tip-proxy'']\<rparr>" by (simp add: with_keep_def)
  from keep_restores_directive_header [OF _ c(2) this, of "''o''" "''p''"] show ?thesis
    by (simp add: c h_values_def raw_values_def)
qed

section \<open>The captured lines\<close>

text \<open>The names emitted for the first time, in order.\<close>

fun fresh_keys :: "string set \<Rightarrow> string list \<Rightarrow> string list" where
  "fresh_keys seen [] = []"
| "fresh_keys seen (name # ns) =
     (let key = canonical_key name in
      if key \<in> seen then fresh_keys seen ns else key # fresh_keys (insert key seen) ns)"

lemma fold_emit:
  "fold (emit h) ns (seen, out) =
     (seen \<union> canonical_key ` set ns, out @ concat (map (header_lines h) (fresh_keys seen ns)))"
  by (induction ns arbitrary: seen out) (auto simp: emit_def Let_def)

lemma fresh_keys_set: "set (fresh_keys seen ns) = canonical_key ` set ns - seen"
  by (induction ns arbitrary: seen) (auto simp: Let_def)

lemma fresh_keys_distinct: "distinct (fresh_keys seen ns)"
  by (induction ns arbitrary: seen) (auto simp: Let_def fresh_keys_set)

lemma fresh_keys_id:
  "distinct ks \<Longrightarrow> \<forall>k \<in> set ks. canonical_key k = k \<and> k \<notin> seen \<Longrightarrow> fresh_keys seen ks = ks"
proof (induction ks arbitrary: seen)
  case (Cons k ks)
  then have "\<forall>x \<in> set ks. canonical_key x = x \<and> x \<notin> insert k seen" by auto
  with Cons show ?case by (simp add: Let_def)
qed simp

lemma mset_concat_map_support:
  assumes "distinct xs" "distinct ys" "set ys \<subseteq> set xs" "\<forall>x \<in> set xs - set ys. g x = []"
  shows "mset (concat (map g xs)) = mset (concat (map g ys))"
proof -
  have eq: "mset (concat (map g zs)) = (\<Sum>z \<in> set zs. mset (g z))" if "distinct zs" for zs
    using that by (induction zs) auto
  have "(\<Sum>x \<in> set xs. mset (g x)) = (\<Sum>y \<in> set ys. mset (g y))"
    using assms(3,4) by (intro sum.mono_neutral_right) auto
  with eq assms(1,2) show ?thesis by simp
qed

text \<open>
  C25. For a header map in canonical form the capture holds every header line exactly once, and
  no line of the order bookkeeping: first the names of the recorded order, in that order, then
  the remaining ones sorted by name. It does not depend on the order the map is visited in.
\<close>

theorem lines_complete:
  assumes wf: "header_wf h" and canon: "\<forall>k \<in> set (map fst h). canonical_key k = k"
    and okeys: "canonical_key order_key = order_key" "canonical_key porder_key = porder_key"
  shows "mset (lines order_key porder_key h) =
      mset (concat (map (header_lines h) (filter (\<lambda>k. k \<notin> {order_key, porder_key}) (map fst h)))) \<and>
    lines order_key porder_key h =
      concat (map (header_lines h) (fresh_keys {order_key, porder_key} (raw_values h order_key))) @
      concat (map (header_lines h)
        (sort (filter (\<lambda>k. k \<notin> {order_key, porder_key} \<union> canonical_key ` set (raw_values h order_key))
          (map fst h)))) \<and>
    (mset h' = mset h \<longrightarrow> lines order_key porder_key h' = lines order_key porder_key h)"
proof -
  let ?seen = "{order_key, porder_key}"
  let ?first = "fresh_keys ?seen (raw_values h order_key)"
  let ?rest = "filter (\<lambda>k. k \<notin> ?seen \<union> canonical_key ` set (raw_values h order_key)) (map fst h)"
  have d: "distinct (map fst h)" using wf by (simp add: header_wf_def)
  have eq: "lines order_key porder_key h =
      concat (map (header_lines h) ?first) @ concat (map (header_lines h) (sort ?rest))"
    unfolding lines_def Let_def fold_emit fst_conv snd_conv using d canon
    by (subst fresh_keys_id) (auto simp: distinct_filter)
  have dist: "distinct (?first @ sort ?rest)"
    using d by (auto simp: fresh_keys_distinct fresh_keys_set distinct_filter)
  have miss: "k \<notin> fst ` set h \<Longrightarrow> header_lines h k = []" for k
    by (auto simp: header_lines_def raw_values_def split: option.splits
        dest: map_of_SomeD intro: rev_image_eqI)
  have "mset (concat (map (header_lines h) (?first @ sort ?rest))) =
      mset (concat (map (header_lines h) (filter (\<lambda>k. k \<notin> ?seen) (map fst h))))"
  proof (rule mset_concat_map_support [OF dist])
    show "distinct (filter (\<lambda>k. k \<notin> ?seen) (map fst h))" using d by (rule distinct_filter)
    show "set (filter (\<lambda>k. k \<notin> ?seen) (map fst h)) \<subseteq> set (?first @ sort ?rest)"
      by (auto simp: fresh_keys_set)
    show "\<forall>k \<in> set (?first @ sort ?rest) - set (filter (\<lambda>k. k \<notin> ?seen) (map fst h)).
        header_lines h k = []"
      using miss by (auto simp: fresh_keys_set)
  qed
  moreover have "lines order_key porder_key h' = lines order_key porder_key h" if "mset h' = mset h"
  proof -
    have "distinct (map fst h')" using that d
      by (metis mset_map mset_eq_imp_distinct_iff)
    then have "map_of h' = map_of h" using that d by (metis map_of_permute)
    then have raw: "raw_values h' = raw_values h" by (simp add: raw_values_def fun_eq_iff)
    then have "header_lines h' = header_lines h" by (simp add: header_lines_def fun_eq_iff)
    then have e: "emit h' = emit h" by (intro ext) (simp only: emit_def)
    have "mset (filter P (map fst h')) = mset (filter P (map fst h))" for P
      using that by (metis mset_filter mset_map)
    then have "sort (filter P (map fst h')) = sort (filter P (map fst h))" for P
      by (metis properties_for_sort mset_sort sorted_sort)
    then show ?thesis unfolding lines_def Let_def raw e by simp
  qed
  ultimately show ?thesis using eq by simp
qed

theorem lines_complete_witness:
  "lines ''Header-Order:'' ''PHeader-Order:''
     [(''X'', [''1'']), (''B'', [''2'', ''3'']), (''A'', [''4'']), (''Header-Order:'', [''b''])] =
   lines ''Header-Order:'' ''PHeader-Order:''
     [(''A'', [''4'']), (''X'', [''1'']), (''B'', [''2'', ''3'']), (''Header-Order:'', [''b''])]"
proof -
  let ?h = "[(''A'', [''4'']), (''X'', [''1'']), (''B'', [''2'', ''3'']), (''Header-Order:'', [''b''])]"
  have "header_wf ?h" by (simp add: header_wf_def)
  moreover have "\<forall>k \<in> set (map fst ?h). canonical_key k = k" by code_simp
  moreover have "canonical_key ''Header-Order:'' = ''Header-Order:''"
    "canonical_key ''PHeader-Order:'' = ''PHeader-Order:''" by code_simp+
  ultimately show ?thesis
    using lines_complete [of ?h "''Header-Order:''" "''PHeader-Order:''"
      "[(''X'', [''1'']), (''B'', [''2'', ''3'']), (''A'', [''4'']), (''Header-Order:'', [''b''])]"]
    by (simp add: add_mset_commute)
qed

end
