(* ===== verification/Tip_Handler.thy ===== *)
theory Tip_Handler
  imports Tip_Encoding Tip_Resolve Tip_Catalogue Tip_Context
begin

text \<open>
  One request through the proxy: from the handler (\<^verbatim>\<open>internal/proxy/handler.go\<close>) over the round
  trip (\<^verbatim>\<open>roundtrip.go\<close>) to the moment its body is closed. The server's state is passed along;
  the cache of clients is known only by its two operations. A result \<open>None\<close> is a panic.
\<close>

section \<open>State\<close>

record request =
  rq_method :: string
  rq_url :: url
  rq_host :: string
  rq_header :: header

record identity =
  id_browser :: "string list"
  id_os :: "string list"

type_synonym picks = "string \<rightharpoonup> identity"

record req_state =
  st_tunnel :: "nat option"
  st_directive :: directive
  st_spec :: spec
  st_accept :: "string list"
  st_original :: "header option"
  st_capture :: "capture option"
  st_bytes_in :: nat
  st_method :: string
  st_host :: string
  st_path :: string
  st_scheme :: string

record request_event =
  ev_host :: string
  ev_method :: string
  ev_path :: string
  ev_browser :: string
  ev_route :: string
  ev_status :: int
  ev_bytes_in :: nat
  ev_bytes_out :: nat

datatype observation =
    RequestStarted
  | RequestFinished request_event
  | ValidationFailed string
  | UpstreamError string string
  | TunnelOpened

text \<open>The tunnels are shared by reference: a tunnel is a number, its picks are in the state.\<close>

record 's server =
  sv_active :: int
  sv_draining :: bool
  sv_tunnels :: "picks list"
  sv_events :: "observation list"
  sv_clients :: 's

text \<open>
  What the handler is built with: the options it reads, the policy, the libraries' parsers, the
  catalogue, the random source, the observer's routes and the source of clients.
\<close>

record ('s, 'c) handler_env =
  he_policy :: policy
  he_timeout :: int
  he_encoding :: string
  he_zog :: zog
  he_url_parse :: url_parser
  he_agents :: ua_env
  he_catalogue :: catalogue
  he_pick :: "nat \<Rightarrow> nat \<Rightarrow> nat"
  he_route :: "string \<Rightarrow> string \<Rightarrow> string"
  he_codecs :: codecs
  he_get :: "spec \<Rightarrow> 's \<Rightarrow> (string, 'c) result \<times> 's"
  he_release :: "'c \<Rightarrow> 's \<Rightarrow> 's"

definition observe :: "observation list \<Rightarrow> 's server \<Rightarrow> 's server" where
  "observe es sv = sv\<lparr>sv_events := sv_events sv @ es\<rparr>"

section \<open>Sticky identities\<close>

definition tunnel_pick :: "nat \<Rightarrow> string \<Rightarrow> 's server \<Rightarrow> identity option" where
  "tunnel_pick t key sv = (sv_tunnels sv ! t) key"

definition remember :: "nat \<Rightarrow> string \<Rightarrow> identity \<Rightarrow> 's server \<Rightarrow> 's server" where
  "remember t key i sv = sv\<lparr>sv_tunnels := (sv_tunnels sv)[t := (sv_tunnels sv ! t)(key \<mapsto> i)]\<rparr>"

definition wish_key :: "directive \<Rightarrow> string" where
  "wish_key d = join '','' (d_browser d) @ '':'' @ join '','' (d_os d)"

definition resolve_in ::
  "(nat \<Rightarrow> nat \<Rightarrow> nat) \<Rightarrow> nat option \<Rightarrow> directive \<Rightarrow> 's server \<Rightarrow> (directive \<times> bool \<times> 's server) option" where
  "resolve_in pick t d sv =
     (case (case t of None \<Rightarrow> None | Some n \<Rightarrow> tunnel_pick n (wish_key d) sv) of
        Some i \<Rightarrow> Some (d\<lparr>d_browser := id_browser i, d_os := id_os i\<rparr>, True, sv)
      | None \<Rightarrow>
          (case resolve d family_names os_list pick of
             None \<Rightarrow> None
           | Some (d', ok) \<Rightarrow>
               if \<not> ok then Some (d, False, sv)
               else
                 (let sv' = (case t of
                     None \<Rightarrow> sv
                   | Some n \<Rightarrow>
                       if d_browser d' \<noteq> []
                       then remember n (wish_key d) \<lparr>id_browser = d_browser d', id_os = d_os d'\<rparr> sv
                       else sv)
                  in Some (d', True, sv'))))"

section \<open>Requests\<close>

definition is_web_socket_upgrade :: "header \<Rightarrow> bool" where
  "is_web_socket_upgrade h = equal_fold (h_get h ''Upgrade'') ''websocket''"

definition upgrade :: "request \<Rightarrow> request" where
  "upgrade req =
     (let u = (rq_url req)\<lparr>u_scheme := ''https''\<rparr> in
      if url_port u \<noteq> ''80'' then req\<lparr>rq_url := u\<rparr>
      else
        (let host = url_hostname u;
             bracketed = (if CHR '':'' \<in> set host then ''['' @ host @ '']'' else host);
             req' = req\<lparr>rq_url := u\<lparr>u_host := bracketed\<rparr>\<rparr>
         in case split_host_port (rq_host req) of
              Some (h, p) \<Rightarrow> if p = ''80'' then req'\<lparr>rq_host := h\<rparr> else req'
            | None \<Rightarrow> req'))"

definition finish ::
  "('s, 'c) handler_env \<Rightarrow> req_state \<Rightarrow> int \<Rightarrow> nat \<Rightarrow> 's server \<Rightarrow> 's server" where
  "finish env st status bytes_out sv =
     (let ev = \<lparr>ev_host = st_host st, ev_method = st_method st, ev_path = st_path st,
                ev_browser = s_browser (st_spec st), ev_route = he_route env (st_host st) (st_path st),
                ev_status = status, ev_bytes_in = st_bytes_in st, ev_bytes_out = bytes_out\<rparr>
      in (observe [RequestFinished ev] sv)\<lparr>sv_active := sv_active sv - 1\<rparr>)"

text \<open>The hook a response body runs when it is closed first: cancel, release, finish.\<close>

record 'c finish_hook =
  hk_client :: 'c
  hk_state :: req_state
  hk_status :: int

definition run_hook ::
  "('s, 'c) handler_env \<Rightarrow> 'c finish_hook \<Rightarrow> nat \<Rightarrow> 's server \<Rightarrow> 's server" where
  "run_hook env hk bytes_out sv =
     finish env (hk_state hk) (hk_status hk) bytes_out
       (sv\<lparr>sv_clients := he_release env (hk_client hk) (sv_clients sv)\<rparr>)"

datatype ('c, 'f) handled =
    Answered "'f body response"
  | Forwarded request 'c req_state

definition reject ::
  "('s, 'c) handler_env \<Rightarrow> request \<Rightarrow> req_state \<Rightarrow> string list \<Rightarrow> issue list \<Rightarrow> 's server \<Rightarrow>
   'f body response \<times> 's server" where
  "reject env req st failed is sv =
     (teapot NoBody (rq_method req) is, finish env st 418 0 (observe (map ValidationFailed failed) sv))"

definition zero_spec :: spec where
  "zero_spec = spec_of zero_directive"

definition request_state :: "nat option \<Rightarrow> request \<Rightarrow> req_state" where
  "request_state t req =
     \<lparr>st_tunnel = t, st_directive = zero_directive, st_spec = zero_spec, st_accept = [],
      st_original = None, st_capture = None, st_bytes_in = 0, st_method = rq_method req,
      st_host = url_hostname (rq_url req), st_path = u_path (rq_url req),
      st_scheme = u_scheme (rq_url req)\<rparr>"

text \<open>What the profile, the User-Agent and an upgrade make of the directive.\<close>

definition infer_identity :: "ua_env \<Rightarrow> header \<Rightarrow> directive \<Rightarrow> directive option" where
  "infer_identity agents h d =
     (if d_match d \<and> \<not> from_request d ''browser'' then
        map_option (\<lambda>i.
          if inf_browser i \<noteq> [] then
            (let d1 = d\<lparr>d_browser := [inf_browser i]\<rparr> in
             if inf_os i \<noteq> [] \<and> \<not> from_request d ''os'' then d1\<lparr>d_os := [inf_os i]\<rparr> else d1)
          else d)
        (infer agents (h_get h ''User-Agent''))
      else Some d)"

definition force_upgrade :: "header \<Rightarrow> directive \<Rightarrow> directive" where
  "force_upgrade h d =
     (if d_force_http d = [] \<and> is_web_socket_upgrade h then d\<lparr>d_force_http := ''1''\<rparr> else d)"

definition profile_identity :: "catalogue \<Rightarrow> directive \<Rightarrow> directive option" where
  "profile_identity cat d =
     (if d_profile d = [] then Some d
      else map_option (\<lambda>p. d\<lparr>d_browser := [pr_family p], d_os := [pr_platform p]\<rparr>)
             (lookup_profile cat (d_profile d)))"

section \<open>The handler\<close>

text \<open>From a resolved directive on: the state, the stripped request and its client.\<close>

definition with_directive :: "request \<Rightarrow> directive \<Rightarrow> directive \<Rightarrow> req_state \<Rightarrow> req_state" where
  "with_directive req d resolved st =
     st\<lparr>st_directive := resolved, st_spec := spec_of resolved,
        st_accept := accept_encodings (h_values (rq_header req) ''Accept-Encoding''),
        st_original := (if d_keep d \<noteq> [] then Some (rq_header req) else None),
        st_scheme := (if d_scheme d = ''https'' then ''https'' else st_scheme st)\<rparr>"

definition outgoing :: "directive \<Rightarrow> request \<Rightarrow> request" where
  "outgoing d req =
     (let req' = req\<lparr>rq_header := strip (rq_header req)\<rparr> in
      if d_scheme d = ''https'' then upgrade req' else req')"

definition take_client ::
  "('s, 'c) handler_env \<Rightarrow> request \<Rightarrow> directive \<Rightarrow> directive \<Rightarrow> req_state \<Rightarrow> 's server \<Rightarrow>
   ('c, 'f) handled \<times> 's server" where
  "take_client env req d resolved st sv =
     (let st' = with_directive req d resolved st; req' = outgoing d req in
      case he_get env (st_spec st') (sv_clients sv) of
        (Inl e, cl) \<Rightarrow>
          (case reject env req' st' [''Build''] [\<lparr>i_path = [], i_message = redact_userinfo e\<rparr>]
                  (sv\<lparr>sv_clients := cl\<rparr>) of
             (resp, sv') \<Rightarrow> (Answered resp, sv'))
      | (Inr c, cl) \<Rightarrow> (Forwarded req' c st', sv\<lparr>sv_clients := cl\<rparr>))"

definition unavailable_message :: "directive \<Rightarrow> string" where
  "unavailable_message d =
     join '','' (d_os d) @ '' is not available for '' @ join '','' (d_browser d)"

definition handle_directive ::
  "('s, 'c) handler_env \<Rightarrow> nat option \<Rightarrow> request \<Rightarrow> req_state \<Rightarrow> directive \<Rightarrow> 's server \<Rightarrow>
   (('c, 'f) handled \<times> 's server) option" where
  "handle_directive env t req st d sv =
     (case profile_identity (he_catalogue env) d of
        None \<Rightarrow>
          (case reject env req st [''Profile'']
                  [\<lparr>i_path = ''Profile'', i_message = ''unknown, fetch /profiles again''\<rparr>] sv of
             (resp, sv') \<Rightarrow>
               Some (Answered (resp\<lparr>rs_header := h_set ''X-Tip-Profiles-Revision''
                       (ct_revision (he_catalogue env)) (rs_header resp)\<rparr>), sv'))
      | Some d1 \<Rightarrow>
          (case infer_identity (he_agents env) (rq_header req) d1 of
             None \<Rightarrow> None
           | Some d2 \<Rightarrow>
               let d3 = force_upgrade (rq_header req) d2 in
               (case resolve_in (he_pick env) t d3 sv of
                  None \<Rightarrow> None
                | Some (resolved, ok, sv') \<Rightarrow>
                    if \<not> ok then
                      (case reject env req st [''Os'']
                              [\<lparr>i_path = ''Os'', i_message = unavailable_message d3\<rparr>] sv' of
                         (resp, sv'') \<Rightarrow> Some (Answered resp, sv''))
                    else Some (take_client env req d3 resolved st sv'))))"

definition on_request ::
  "('s, 'c) handler_env \<Rightarrow> nat option \<Rightarrow> request \<Rightarrow> 's server \<Rightarrow>
   (('c, 'f) handled \<times> 's server) option" where
  "on_request env t req sv =
     (if sv_draining sv then Some (Answered (unavailable NoBody (rq_method req)), sv)
      else
        (let sv1 = observe [RequestStarted] (sv\<lparr>sv_active := sv_active sv + 1\<rparr>);
             st = request_state t req
         in case parse (he_zog env) (he_url_parse env) (rq_header req) (he_policy env) of
              ParsePanic \<Rightarrow> None
            | ParseIssues is \<Rightarrow>
                (case reject env req st (map (\<lambda>i. fst (cut CHR ''.'' (i_path i))) is) is sv1 of
                   (resp, sv2) \<Rightarrow> Some (Answered resp, sv2))
            | ParseOk d \<Rightarrow> handle_directive env t req st d sv1))"

section \<open>The round trip\<close>

text \<open>The time the request may take: the server's own, unless the directive asks for less.\<close>

definition effective_timeout :: "int \<Rightarrow> int \<Rightarrow> int" where
  "effective_timeout server_timeout t =
     (if 0 < t \<and> (server_timeout = 0 \<or> t < server_timeout) then t else server_timeout)"

definition timer :: "int \<Rightarrow> int option" where
  "timer timeout = (if 0 < timeout then Some timeout else None)"

definition trip_context :: "req_state \<Rightarrow> request_ctx" where
  "trip_context st =
     (let ctx = with_capture \<lparr>ctx_keep = None, ctx_capture = None\<rparr> \<lparr>cap_headers = [], cap_connected = False\<rparr>
      in case st_original st of
           Some original \<Rightarrow> with_keep ctx original (d_keep (st_directive st))
         | None \<Rightarrow> ctx)"

definition outbound_body :: "'f body option \<Rightarrow> 'f body option" where
  "outbound_body b = map_option (\<lambda>b. Replayable (count_reads b) False) b"

text \<open>
  What surf's transport did with the request: its response or error, what it captured, the memo of
  the hop it dialled, and the bytes of the request body it read by the time the request ends.
\<close>

record 'f trip =
  tr_result :: "(gerror, 'f body response) result"
  tr_capture :: capture
  tr_memo :: memo
  tr_bytes_in :: nat

definition relay_response ::
  "('s, 'c) handler_env \<Rightarrow> 'c \<Rightarrow> req_state \<Rightarrow> 'c finish_hook body response \<Rightarrow> 'c finish_hook body response" where
  "relay_response env c st resp =
     (let resp1 = resp\<lparr>rs_header := strip (rs_header resp), rs_body := count_reads (rs_body resp)\<rparr>;
          resp2 = (if rs_status resp1 = 101 then resp1
                   else negotiate (he_codecs env) (he_encoding env) (st_accept st) resp1)
      in resp2\<lparr>rs_body := on_close (rs_body resp2)
           \<lparr>hk_client = c, hk_state = st, hk_status = rs_status resp2\<rparr>\<rparr>)"

definition failure_of :: "req_state \<Rightarrow> capture \<Rightarrow> failure_ctx" where
  "failure_of st c =
     \<lparr>fc_host = st_host st, fc_proxy = s_proxy (st_spec st), fc_connected = cap_connected c\<rparr>"

definition round_trip ::
  "('s, 'c) handler_env \<Rightarrow> 'c finish_hook trip \<Rightarrow> request \<Rightarrow> 'c \<Rightarrow> req_state \<Rightarrow> 's server \<Rightarrow>
   ('c finish_hook body response \<times> 's server) option" where
  "round_trip env tr req c st sv =
     (let st' = st\<lparr>st_capture := Some (tr_capture tr), st_bytes_in := tr_bytes_in tr\<rparr> in
      case tr_result tr of
        Inr resp \<Rightarrow> Some (relay_response env c st' resp, sv)
      | Inl err \<Rightarrow>
          let sv1 = sv\<lparr>sv_clients := he_release env c (sv_clients sv)\<rparr> in
          (case diagnose (he_url_parse env) err (failure_of st' (tr_capture tr)) (Some (tr_memo tr)) of
             None \<Rightarrow> None
           | Some d \<Rightarrow>
               (case upstream_failure NoBody (rq_method req) d err of
                  None \<Rightarrow> None
                | Some resp \<Rightarrow>
                    Some (resp, finish env st' (rs_status resp) 0
                      (observe [UpstreamError (st_host st) (dg_kind d)] sv1)))))"

section \<open>What is logged\<close>

text \<open>\<^verbatim>\<open>strings.Cut\<close> with a separator of several bytes.\<close>

fun cut_at :: "string \<Rightarrow> string \<Rightarrow> string \<times> string \<times> bool" where
  "cut_at sep [] = (if sep = [] then ([], [], True) else ([], [], False))"
| "cut_at sep (c # s) =
     (if has_prefix sep (c # s) then ([], drop (length sep) (c # s), True)
      else (case cut_at sep s of (a, b, found) \<Rightarrow> (c # a, b, found)))"

definition log_outbound ::
  "bool \<Rightarrow> (string \<Rightarrow> string \<Rightarrow> string) \<Rightarrow> req_state \<Rightarrow> string list option" where
  "log_outbound debug redact st =
     (case st_capture st of
        None \<Rightarrow> None
      | Some c \<Rightarrow>
          if \<not> debug then None
          else Some (map (\<lambda>line. case cut_at '': '' line of
                 (name, value, _) \<Rightarrow> name @ '': '' @ redact name value) (cap_headers c)))"

definition attrs :: "diagnosis \<Rightarrow> req_state \<Rightarrow> (string \<times> string) list" where
  "attrs d st =
     [(''host'', st_host st), (''path'', st_path st), (''kind'', dg_kind d), (''error'', dg_message d)] @
     (if dg_phase d \<noteq> PhaseNone then [(''phase'', phase_text (dg_phase d))] else []) @
     (case dg_verdict d of Some v \<Rightarrow> [(''proxy_status'', int_text (vd_status v))] | None \<Rightarrow> [])"

definition short_key :: "(string \<Rightarrow> 8 word list) \<Rightarrow> string \<Rightarrow> string" where
  "short_key sha key = hex_encode (take 6 (sha key))"

section \<open>A request from beginning to end\<close>

fun run_events ::
  "('s, 'c) handler_env \<Rightarrow> nat \<Rightarrow> 'c finish_hook close_event list \<Rightarrow> 's server \<Rightarrow> 's server" where
  "run_events env out [] sv = sv"
| "run_events env out (SourceClosed # es) sv = run_events env out es sv"
| "run_events env out (Fired hk # es) sv = run_events env out es (run_hook env hk out sv)"

text \<open>
  The life of one request: the handler, the round trip \<open>tr\<close> when it is forwarded, and what the
  client does with the response's body; \<open>out\<close> is what the body's counter says when it is closed.
\<close>

definition life ::
  "('s, 'c) handler_env \<Rightarrow> nat option \<Rightarrow> request \<Rightarrow> 'c finish_hook trip \<Rightarrow> body_op list \<Rightarrow> nat \<Rightarrow>
   's server \<Rightarrow> 's server option" where
  "life env t req tr ops out sv =
     (case on_request env t req sv of
        None \<Rightarrow> None
      | Some (Answered resp, sv1) \<Rightarrow>
          (case run_body ops (rs_body resp) of (p, es, b) \<Rightarrow> Some (run_events env out es sv1))
      | Some (Forwarded req' c st, sv1) \<Rightarrow>
          (case round_trip env tr req' c st sv1 of
             None \<Rightarrow> None
           | Some (resp, sv2) \<Rightarrow>
               (case run_body ops (rs_body resp) of (p, es, b) \<Rightarrow> Some (run_events env out es sv2))))"

section \<open>Accounts\<close>

text \<open>What has to balance: requests in progress, and those begun and ended as the observer saw it.\<close>

fun is_finished :: "observation \<Rightarrow> bool" where
  "is_finished (RequestFinished ev) = True"
| "is_finished _ = False"

definition started :: "'s server \<Rightarrow> nat" where
  "started sv = length (filter (\<lambda>e. e = RequestStarted) (sv_events sv))"

definition finished :: "'s server \<Rightarrow> nat" where
  "finished sv = length (filter is_finished (sv_events sv))"

lemma observe_simps [simp]:
  "sv_active (observe es sv) = sv_active sv" "sv_clients (observe es sv) = sv_clients sv"
  "sv_tunnels (observe es sv) = sv_tunnels sv" "sv_draining (observe es sv) = sv_draining sv"
  "started (observe es sv) = started sv + length (filter (\<lambda>e. e = RequestStarted) es)"
  "finished (observe es sv) = finished sv + length (filter is_finished es)"
  by (simp_all add: observe_def started_def finished_def)

lemma server_updates [simp]:
  "started (sv\<lparr>sv_active := a\<rparr>) = started sv" "started (sv\<lparr>sv_clients := cl\<rparr>) = started sv"
  "started (sv\<lparr>sv_tunnels := ts\<rparr>) = started sv"
  "finished (sv\<lparr>sv_active := a\<rparr>) = finished sv" "finished (sv\<lparr>sv_clients := cl\<rparr>) = finished sv"
  "finished (sv\<lparr>sv_tunnels := ts\<rparr>) = finished sv"
  by (simp_all add: started_def finished_def)

lemma finish_simps [simp]:
  "sv_active (finish env st status out sv) = sv_active sv - 1"
  "sv_clients (finish env st status out sv) = sv_clients sv"
  "sv_tunnels (finish env st status out sv) = sv_tunnels sv"
  "sv_draining (finish env st status out sv) = sv_draining sv"
  "started (finish env st status out sv) = started sv"
  "finished (finish env st status out sv) = finished sv + 1"
  by (simp_all add: finish_def Let_def)

text \<open>A request between two states: begun or not, ended or not, with the difference still active.\<close>

definition moved :: "nat \<Rightarrow> nat \<Rightarrow> 's server \<Rightarrow> 's server \<Rightarrow> bool" where
  "moved begun ended sv sv' \<longleftrightarrow>
     sv_active sv' = sv_active sv + int begun - int ended \<and> started sv' = started sv + begun \<and>
     finished sv' = finished sv + ended \<and> sv_draining sv' = sv_draining sv"

lemma moved_refl [simp]: "moved 0 0 sv sv"
  by (simp add: moved_def)

lemma moved_trans: "moved a b sv sv1 \<Longrightarrow> moved c d sv1 sv2 \<Longrightarrow> moved (a + c) (b + d) sv sv2"
  by (simp add: moved_def)

lemma moved_finish: "moved 0 1 sv (finish env st status out sv)"
  by (simp add: moved_def)

lemma filter_failed [simp]:
  "filter is_finished (map ValidationFailed xs) = []"
  "filter (\<lambda>e. e = RequestStarted) (map ValidationFailed xs) = []"
  by (induction xs) auto

lemma reject_moved:
  "reject env req st failed is sv = (resp, sv') \<Longrightarrow>
   moved 0 1 sv sv' \<and> sv_clients sv' = sv_clients sv \<and> rs_body resp = NoBody"
  by (auto simp: reject_def moved_def teapot_def synthetic_def)

lemma remember_simps [simp]:
  "sv_active (remember t key i sv) = sv_active sv" "sv_clients (remember t key i sv) = sv_clients sv"
  "sv_draining (remember t key i sv) = sv_draining sv" "started (remember t key i sv) = started sv"
  "finished (remember t key i sv) = finished sv"
  by (simp_all add: remember_def)

lemma resolve_in_moved:
  "resolve_in pick t d sv = Some (d', ok, sv') \<Longrightarrow> moved 0 0 sv sv' \<and> sv_clients sv' = sv_clients sv"
  by (auto simp: resolve_in_def moved_def Let_def split: option.splits if_splits prod.splits)

lemma run_events_sources: "(\<And>hk. Fired hk \<notin> set es) \<Longrightarrow> run_events env out (es @ es') sv = run_events env out es' sv"
proof (induction es)
  case (Cons e es)
  then show ?case by (cases e) auto
qed simp

lemma hookless_events: "hookless b \<Longrightarrow> close_body b = (es, b') \<Longrightarrow> Fired hk \<notin> set es"
  by (induction b arbitrary: es b') (auto split: prod.splits)

lemma run_no_body: "run_body ops NoBody = (p, es, b) \<Longrightarrow> es = []"
proof (induction ops arbitrary: p es b)
  case (Cons op ops)
  then show ?case by (cases op) (auto split: prod.splits)
qed simp

text \<open>Closing a hooked body, once or several times, runs its hook once.\<close>

lemma run_events_hooked:
  assumes "hookless b" and run: "run_body ops (on_close b hk) = (p, es, b')"
  shows "run_events env out es sv = (if closes ops = 0 then sv else run_hook env hk out sv)"
proof -
  let ?u = "fst (close_body b)"
  have "es = close_events ?u (closes ops) False hk"
    using run_hooked [OF assms(1) refl run [unfolded wrappers(1)]] by simp
  moreover have u: "Fired h \<notin> set ?u" for h
    using hookless_events [OF assms(1)] by (cases "close_body b") auto
  moreover have "run_events env out (concat (replicate k ?u)) s = s" for k s
  proof -
    have "Fired h \<notin> set (concat (replicate k ?u))" for h using u by (induction k) auto
    from run_events_sources [of "concat (replicate k ?u)" env out "[]" s, OF this] show ?thesis by simp
  qed
  ultimately show ?thesis by (simp add: close_events_once run_events_sources)
qed

text \<open>
  The source of clients as the server relies on it: a client it is handed has one holder more,
  a release takes one away, and nothing else changes a count.
\<close>

locale client_source =
  fixes inv :: "'s \<Rightarrow> bool"
    and get :: "spec \<Rightarrow> 's \<Rightarrow> (string, 'c) result \<times> 's"
    and release :: "'c \<Rightarrow> 's \<Rightarrow> 's"
    and refs :: "'s \<Rightarrow> 'c \<Rightarrow> int"
  assumes get_ok: "inv s \<Longrightarrow> get sp s = (Inr c, s') \<Longrightarrow> inv s' \<and> refs s' = (refs s)(c := refs s c + 1)"
    and get_error: "inv s \<Longrightarrow> get sp s = (Inl e, s') \<Longrightarrow> inv s' \<and> refs s' = refs s"
    and release_held: "inv s \<Longrightarrow> 0 < refs s c \<Longrightarrow>
      inv (release c s) \<and> refs (release c s) = (refs s)(c := refs s c - 1)"
    and refs_nonneg: "inv s \<Longrightarrow> 0 \<le> refs s c"
begin

lemma take_client_accounts:
  assumes env: "he_get env = get" and inv: "inv (sv_clients sv)"
    and step: "take_client env req d resolved st sv = (h :: ('c, 'f) handled, sv')"
  shows "case h of
      Answered resp \<Rightarrow> moved 0 1 sv sv' \<and> inv (sv_clients sv') \<and>
        refs (sv_clients sv') = refs (sv_clients sv) \<and> rs_body resp = NoBody
    | Forwarded req' c st' \<Rightarrow> moved 0 0 sv sv' \<and> inv (sv_clients sv') \<and>
        refs (sv_clients sv') = (refs (sv_clients sv))(c := refs (sv_clients sv) c + 1)"
proof -
  obtain r cl where get: "get (spec_of resolved) (sv_clients sv) = (r, cl)" by fastforce
  have spec: "st_spec (with_directive req d resolved st) = spec_of resolved" by (simp add: with_directive_def)
  show ?thesis
  proof (cases r)
    case (Inl e)
    obtain resp :: "'f body response" and sv2 where rej: "reject env (outgoing d req) (with_directive req d resolved st) [''Build'']
        [\<lparr>i_path = [], i_message = redact_userinfo e\<rparr>] (sv\<lparr>sv_clients := cl\<rparr>) = (resp, sv2)"
      by fastforce
    from step env get Inl rej have h: "h = Answered resp" "sv' = sv2"
      by (auto simp: take_client_def Let_def spec split: prod.splits)
    from reject_moved [OF rej] have "moved 0 1 sv sv2" "sv_clients sv2 = cl" "rs_body resp = NoBody"
      by (auto simp: moved_def)
    with h get_error [OF inv get [unfolded Inl]] show ?thesis by simp
  next
    case (Inr c)
    from step env get Inr have "h = Forwarded (outgoing d req) c (with_directive req d resolved st)"
      "sv' = sv\<lparr>sv_clients := cl\<rparr>" by (auto simp: take_client_def Let_def spec)
    with get_ok [OF inv get [unfolded Inr]] show ?thesis by (simp add: moved_def)
  qed
qed

definition answered_or_held :: "'s server \<Rightarrow> ('c, 'f) handled \<Rightarrow> 's server \<Rightarrow> nat \<Rightarrow> bool" where
  "answered_or_held sv h sv' n \<longleftrightarrow> inv (sv_clients sv') \<and>
     (case h of
        Answered resp \<Rightarrow> moved n n sv sv' \<and> refs (sv_clients sv') = refs (sv_clients sv) \<and>
          rs_body resp = NoBody
      | Forwarded req' c st' \<Rightarrow> moved n 0 sv sv' \<and>
          refs (sv_clients sv') = (refs (sv_clients sv))(c := refs (sv_clients sv) c + 1))"

lemma handle_directive_accounts:
  assumes env: "he_get env = get" and inv: "inv (sv_clients sv)" and begun: "moved 1 0 sv0 sv"
    and same: "sv_clients sv = sv_clients sv0"
    and step: "handle_directive env t req st d sv = Some (h :: ('c, 'f) handled, sv')"
  shows "answered_or_held sv0 h sv' 1"
proof -
  have rejected: "answered_or_held sv0 (Answered resp') sv3 1"
    if "reject env r st' failed iss sv2 = (resp :: 'f body response, sv3)" "moved 0 0 sv sv2"
      "sv_clients sv2 = sv_clients sv" "rs_body resp' = rs_body resp" for r st' failed iss sv2 resp resp' sv3
    using reject_moved [OF that(1)] that(2-4) begun same inv
    by (auto simp: answered_or_held_def moved_def)
  show ?thesis
  proof (cases "profile_identity (he_catalogue env) d")
    case None
    obtain resp :: "'f body response" and sv3 where rej: "reject env req st [''Profile'']
        [\<lparr>i_path = ''Profile'', i_message = ''unknown, fetch /profiles again''\<rparr>] sv = (resp, sv3)"
      by fastforce
    from step None rej have h: "sv' = sv3" "h = Answered (resp\<lparr>rs_header :=
        h_set ''X-Tip-Profiles-Revision'' (ct_revision (he_catalogue env)) (rs_header resp)\<rparr>)"
      by (auto simp: handle_directive_def)
    show ?thesis unfolding h by (rule rejected [OF rej]) simp_all
  next
    case (Some d1)
    with step obtain d2 where d2: "infer_identity (he_agents env) (rq_header req) d1 = Some d2"
      by (auto simp: handle_directive_def split: option.splits)
    let ?d3 = "force_upgrade (rq_header req) d2"
    from step Some d2 obtain resolved ok sv2 where res: "resolve_in (he_pick env) t ?d3 sv = Some (resolved, ok, sv2)"
      by (auto simp: handle_directive_def Let_def split: option.splits)
    note mv = resolve_in_moved [OF res]
    show ?thesis
    proof (cases ok)
      case True
      with step Some d2 res have "take_client env req ?d3 resolved st sv2 = (h, sv')"
        by (auto simp: handle_directive_def Let_def)
      from take_client_accounts [OF env _ this] mv inv have "case h of
          Answered resp \<Rightarrow> moved 0 1 sv2 sv' \<and> inv (sv_clients sv') \<and>
            refs (sv_clients sv') = refs (sv_clients sv2) \<and> rs_body resp = NoBody
        | Forwarded req' c st' \<Rightarrow> moved 0 0 sv2 sv' \<and> inv (sv_clients sv') \<and>
            refs (sv_clients sv') = (refs (sv_clients sv2))(c := refs (sv_clients sv2) c + 1)"
        by simp
      with mv begun same show ?thesis
        by (cases h) (auto simp: answered_or_held_def moved_def)
    next
      case False
      obtain resp :: "'f body response" and sv3 where rej: "reject env req st [''Os'']
          [\<lparr>i_path = ''Os'', i_message = unavailable_message ?d3\<rparr>] sv2 = (resp, sv3)" by fastforce
      from step Some d2 res False rej have h: "h = Answered resp" "sv' = sv3"
        by (auto simp: handle_directive_def Let_def)
      show ?thesis unfolding h by (rule rejected [OF rej]) (simp_all add: mv)
    qed
  qed
qed

lemma on_request_accounts:
  assumes env: "he_get env = get" and inv: "inv (sv_clients sv)"
    and step: "on_request env t req sv = Some (h :: ('c, 'f) handled, sv')"
  shows "answered_or_held sv h sv' (if sv_draining sv then 0 else 1)"
proof (cases "sv_draining sv")
  case True
  with step inv show ?thesis
    by (auto simp: on_request_def answered_or_held_def unavailable_def synthetic_def)
next
  case False
  let ?sv1 = "observe [RequestStarted] (sv\<lparr>sv_active := sv_active sv + 1\<rparr>)"
  have begun: "moved 1 0 sv ?sv1" "sv_clients ?sv1 = sv_clients sv" by (simp_all add: moved_def)
  show ?thesis
  proof (cases "parse (he_zog env) (he_url_parse env) (rq_header req) (he_policy env)")
    case ParsePanic
    with step False show ?thesis by (simp add: on_request_def Let_def)
  next
    case (ParseIssues iss)
    obtain resp :: "'f body response" and sv2 where rej: "reject env req (request_state t req)
        (map (\<lambda>i. fst (cut CHR ''.'' (i_path i))) iss) iss ?sv1 = (resp, sv2)" by fastforce
    with step False ParseIssues have "h = Answered resp" "sv' = sv2"
      by (auto simp: on_request_def Let_def)
    with reject_moved [OF rej] begun inv False show ?thesis
      by (auto simp: answered_or_held_def moved_def)
  next
    case (ParseOk d)
    with step False have "handle_directive env t req (request_state t req) d ?sv1 = Some (h, sv')"
      by (simp add: on_request_def Let_def)
    from handle_directive_accounts [OF env _ begun this] inv False show ?thesis by simp
  qed
qed

lemma run_hook_accounts:
  assumes "he_release env = release" "inv (sv_clients sv)" "0 < refs (sv_clients sv) (hk_client hk)"
  shows "moved 0 1 sv (run_hook env hk out sv) \<and> inv (sv_clients (run_hook env hk out sv)) \<and>
    refs (sv_clients (run_hook env hk out sv)) =
      (refs (sv_clients sv))(hk_client hk := refs (sv_clients sv) (hk_client hk) - 1)"
  using assms release_held by (simp add: run_hook_def moved_def)

lemma round_trip_accounts:
  assumes env: "he_release env = release" and inv: "inv (sv_clients sv)" and held: "0 < refs (sv_clients sv) c"
    and step: "round_trip env tr req c st sv = Some (resp, sv')"
  shows "case tr_result tr of
      Inl err \<Rightarrow> moved 0 1 sv sv' \<and> inv (sv_clients sv') \<and> rs_body resp = NoBody \<and>
        refs (sv_clients sv') = (refs (sv_clients sv))(c := refs (sv_clients sv) c - 1)
    | Inr r \<Rightarrow> sv' = sv \<and>
        (hookless (rs_body r) \<longrightarrow>
          (\<exists>b hk. hookless b \<and> rs_body resp = on_close b hk \<and> hk_client hk = c))"
proof (cases "tr_result tr")
  case (Inl err)
  let ?st = "st\<lparr>st_capture := Some (tr_capture tr), st_bytes_in := tr_bytes_in tr\<rparr>"
  let ?sv1 = "sv\<lparr>sv_clients := release c (sv_clients sv)\<rparr>"
  from step Inl env obtain d where
    up: "upstream_failure NoBody (rq_method req) d err = Some resp"
    and sv': "sv' = finish env ?st (rs_status resp) 0 (observe [UpstreamError (st_host st) (dg_kind d)] ?sv1)"
    by (auto simp: round_trip_def Let_def split: option.splits)
  have "rs_body resp = NoBody" using up by (auto simp: upstream_failure_def synthetic_def split: option.splits)
  then show ?thesis using Inl sv' release_held [OF inv held] by (simp add: moved_def)
next
  case (Inr r)
  let ?r1 = "r\<lparr>rs_header := strip (rs_header r), rs_body := count_reads (rs_body r)\<rparr>"
  let ?r2 = "if rs_status ?r1 = 101 then ?r1
    else negotiate (he_codecs env) (he_encoding env) (st_accept st) ?r1"
  have "hookless (rs_body ?r2)" if "hookless (rs_body r)"
    using that negotiate_hookless [of ?r1] by (simp add: wrappers)
  moreover have "sv' = sv" "\<exists>hk. rs_body resp = on_close (rs_body ?r2) hk \<and> hk_client hk = c"
    using Inr step by (auto simp: round_trip_def relay_response_def Let_def)
  ultimately show ?thesis unfolding Inr by auto
qed

text \<open>The whole life of a request.\<close>

definition life_balance :: "'s server \<Rightarrow> 's server \<Rightarrow> bool \<Rightarrow> bool" where
  "life_balance sv sv' ended \<longleftrightarrow> inv (sv_clients sv') \<and>
     (if sv_draining sv then moved 0 0 sv sv' \<and> refs (sv_clients sv') = refs (sv_clients sv)
      else if ended then moved 1 1 sv sv' \<and> refs (sv_clients sv') = refs (sv_clients sv)
      else moved 1 0 sv sv' \<and>
        (\<exists>c. refs (sv_clients sv') = (refs (sv_clients sv))(c := refs (sv_clients sv) c + 1)))"

lemma life_accounts:
  assumes env: "he_get env = get" "he_release env = release" and inv: "inv (sv_clients sv)"
    and upstream: "\<And>r. tr_result tr = Inr r \<Longrightarrow> hookless (rs_body r)"
    and life: "life env t req tr ops out sv = Some sv'"
  shows "life_balance sv sv' True \<or> closes ops = 0 \<and> life_balance sv sv' False"
proof -
  from life obtain h sv1 where on: "on_request env t req sv = Some (h :: ('c, 'c finish_hook) handled, sv1)"
    by (auto simp: life_def split: option.splits)
  note acc = on_request_accounts [OF env(1) inv on]
  show ?thesis
  proof (cases h)
    case (Answered resp)
    with acc have "rs_body resp = NoBody" by (simp add: answered_or_held_def)
    with life on Answered have "sv' = sv1"
      by (auto simp: life_def dest!: run_no_body split: prod.splits)
    with acc Answered show ?thesis by (auto simp: answered_or_held_def life_balance_def)
  next
    case (Forwarded req' c st)
    with acc have sv1: "inv (sv_clients sv1)" "0 < refs (sv_clients sv1) c"
      "refs (sv_clients sv1) = (refs (sv_clients sv))(c := refs (sv_clients sv) c + 1)"
      "moved (if sv_draining sv then 0 else 1) 0 sv sv1"
      using refs_nonneg [OF inv, of c] by (auto simp: answered_or_held_def)
    have live: "\<not> sv_draining sv" using on Forwarded by (auto simp: on_request_def)
    from life on Forwarded obtain resp sv2 where rt: "round_trip env tr req' c st sv1 = Some (resp, sv2)"
      by (auto simp: life_def split: option.splits)
    note racc = round_trip_accounts [OF env(2) sv1(1,2) rt]
    obtain p es b where run: "run_body ops (rs_body resp) = (p, es, b)" using prod_cases3 by blast
    with life on Forwarded rt have sv': "sv' = run_events env out es sv2" by (simp add: life_def)
    show ?thesis
    proof (cases "tr_result tr")
      case (Inl err)
      with racc have r: "moved 0 1 sv1 sv2" "inv (sv_clients sv2)" "rs_body resp = NoBody"
        "refs (sv_clients sv2) = refs (sv_clients sv)" using sv1(3) by (auto simp: fun_eq_iff)
      from r(3) run sv' have "sv' = sv2" by (auto dest!: run_no_body)
      with r sv1(4) live moved_trans [of 1 0 sv sv1 0 1 sv2] show ?thesis by (simp add: life_balance_def)
    next
      case (Inr r)
      with racc upstream obtain b0 hk where ok: "sv2 = sv1" "hookless b0" "rs_body resp = on_close b0 hk"
        "hk_client hk = c" by auto
      from run_events_hooked [OF ok(2) run [unfolded ok(3)], of env out sv1] sv' ok(1)
      have sv'': "sv' = (if closes ops = 0 then sv1 else run_hook env hk out sv1)" by simp
      from run_hook_accounts [OF env(2) sv1(1), of hk out] sv1(2) ok(4)
      have hook: "moved 0 1 sv1 (run_hook env hk out sv1)" "inv (sv_clients (run_hook env hk out sv1))"
        "refs (sv_clients (run_hook env hk out sv1)) = refs (sv_clients sv)"
        using sv1(3) by (auto simp: fun_eq_iff)
      show ?thesis
        using sv'' sv1 hook live moved_trans [OF sv1(4) hook(1)] by (auto simp: life_balance_def)
    qed
  qed
qed

end

section \<open>One identity per tunnel\<close>

definition clean_name :: "string \<Rightarrow> bool" where
  "clean_name v = (v \<noteq> [] \<and> CHR '','' \<notin> set v \<and> CHR '':'' \<notin> set v)"

definition clean_wishes :: "directive \<Rightarrow> bool" where
  "clean_wishes d = (list_all clean_name (d_browser d) \<and> list_all clean_name (d_os d))"

lemma join_clean:
  assumes "list_all clean_name xs" "list_all clean_name ys" "join '','' xs = join '','' ys"
  shows "xs = ys"
proof -
  have nil: "join '','' zs \<noteq> []" if "zs \<noteq> []" "list_all clean_name zs" for zs
    using that by (cases zs; cases "tl zs") (auto simp: clean_name_def)
  have split: "split_on CHR '','' (join '','' zs) = zs" if "zs \<noteq> []" "list_all clean_name zs" for zs
    using that by (intro split_on_join) (auto simp: list_all_iff clean_name_def)
  show ?thesis
  proof (cases "xs = [] \<or> ys = []")
    case True
    have "xs = []" if "ys = []" using nil [of xs] assms that by (cases "xs = []") simp_all
    moreover have "ys = []" if "xs = []" using nil [of ys] assms that by (cases "ys = []") simp_all
    ultimately show ?thesis using True by blast
  next
    case False
    then have "xs = split_on CHR '','' (join '','' xs)" using split [of xs] assms(1) by simp
    also have "\<dots> = split_on CHR '','' (join '','' ys)" by (simp only: assms(3))
    also have "\<dots> = ys" using False split [of ys] assms(2) by simp
    finally show ?thesis .
  qed
qed

lemma join_no_colon: "list_all clean_name xs \<Longrightarrow> CHR '':'' \<notin> set (join '','' xs)"
proof (induction xs)
  case (Cons x xs)
  then show ?case by (cases xs) (auto simp: clean_name_def)
qed simp

lemma wish_key_eq:
  assumes "clean_wishes d" "clean_wishes d'"
  shows "wish_key d = wish_key d' \<longleftrightarrow> d_browser d = d_browser d' \<and> d_os d = d_os d'"
proof
  assume "wish_key d = wish_key d'"
  then have eq: "join '','' (d_browser d) @ CHR '':'' # join '','' (d_os d) =
      join '','' (d_browser d') @ CHR '':'' # join '','' (d_os d')" by (simp add: wish_key_def)
  have cut: "cut CHR '':'' (join '','' (d_browser x) @ CHR '':'' # join '','' (d_os x)) =
      (join '','' (d_browser x), join '','' (d_os x), True)" if "clean_wishes x" for x
    using that by (simp add: cut_found clean_wishes_def join_no_colon)
  have "(join '','' (d_browser d), join '','' (d_os d), True) =
      (join '','' (d_browser d'), join '','' (d_os d'), True)"
    by (rule trans [OF trans [OF cut [OF assms(1), symmetric] arg_cong [OF eq, of "cut CHR '':''"]]
          cut [OF assms(2)]])
  then have "join '','' (d_browser d) = join '','' (d_browser d')" "join '','' (d_os d) = join '','' (d_os d')"
    by blast+
  with assms show "d_browser d = d_browser d' \<and> d_os d = d_os d'"
    by (auto simp: clean_wishes_def intro: join_clean)
qed (simp add: wish_key_def)

text \<open>What a tunnel may remember: for wishes that name a browser, a pair they admit.\<close>

definition identity_for :: "directive \<Rightarrow> identity \<Rightarrow> bool" where
  "identity_for d i \<longleftrightarrow>
     (\<exists>b v. available_pair d family_names os_list b v \<and> id_browser i = [b] \<and>
        id_os i = (if d_os d = [] then [] else [v]))"

definition picks_ok :: "picks \<Rightarrow> bool" where
  "picks_ok m \<longleftrightarrow>
     (\<forall>key i. m key = Some i \<longrightarrow>
        (\<exists>d. clean_wishes d \<and> d_browser d \<noteq> [] \<and> wish_key d = key \<and> identity_for d i))"

lemma picks_ok_known:
  assumes "picks_ok m" "m (wish_key d) = Some i" "clean_wishes d"
  shows "identity_for d i \<and> d_browser d \<noteq> []"
proof -
  from assms obtain d' where "clean_wishes d'" "d_browser d' \<noteq> []" "wish_key d' = wish_key d" "identity_for d' i"
    by (auto simp: picks_ok_def)
  moreover from this assms(3) have "d_browser d' = d_browser d \<and> d_os d' = d_os d" using wish_key_eq by blast
  ultimately show ?thesis by (simp add: identity_for_def available_pair_def)
qed

lemma picks_ok_remember:
  "picks_ok m \<Longrightarrow> clean_wishes d \<Longrightarrow> d_browser d \<noteq> [] \<Longrightarrow> identity_for d i \<Longrightarrow> picks_ok (m(wish_key d \<mapsto> i))"
  by (auto simp: picks_ok_def)


definition demo_server :: "unit server" where
  "demo_server =
     \<lparr>sv_active = 0, sv_draining = False, sv_tunnels = [Map.empty], sv_events = [], sv_clients = ()\<rparr>"

definition any_browser :: directive where
  "any_browser = zero_directive\<lparr>d_browser := [''random'']\<rparr>"


text \<open>
  The two sections of a tunnel's lock are apart: two requests that both find nothing remembered
  choose for themselves, and may leave with different identities.
\<close>

lemma tunnel_race:
  "tunnel_pick 0 (wish_key any_browser) demo_server = None"
  "map_option (d_browser \<circ> fst) (resolve_in (\<lambda>_ _. 0) (Some 0) any_browser demo_server) = Some [''chrome'']"
  "map_option (d_browser \<circ> fst) (resolve_in (\<lambda>_ _. 1) (Some 0) any_browser demo_server) = Some [''edge'']"
  by code_simp+

section \<open>What is forwarded\<close>

lemma strip_no_tip: "(n, vs) \<in> set (strip h) \<Longrightarrow> \<not> is_tip n"
  by (auto simp: strip_def)

lemma upgrade_header [simp]: "rq_header (upgrade req) = rq_header req" "rq_method (upgrade req) = rq_method req"
  by (simp_all add: upgrade_def Let_def split: option.split)

lemma upgrade_scheme [simp]: "u_scheme (rq_url (upgrade req)) = ''https''"
  by (simp add: upgrade_def Let_def split: option.split)

text \<open>What resolving and inferring leave alone: everything but browser, OS and the HTTP version.\<close>

definition same_wishes :: "directive \<Rightarrow> directive \<Rightarrow> bool" where
  "same_wishes d d' \<longleftrightarrow>
     d_proxy d' = d_proxy d \<and> d_keep d' = d_keep d \<and> d_scheme d' = d_scheme d \<and> d_ja d' = d_ja d \<and>
     d_dns d' = d_dns d \<and> d_timeout d' = d_timeout d \<and> d_secure_tls d' = d_secure_tls d"

lemma same_wishes_simps [simp]:
  "same_wishes d d" "same_wishes d (d\<lparr>d_browser := bs\<rparr>)" "same_wishes d (d\<lparr>d_browser := bs, d_os := os\<rparr>)"
  "same_wishes d (d\<lparr>d_os := os\<rparr>)" "same_wishes d (d\<lparr>d_force_http := v\<rparr>)"
  by (simp_all add: same_wishes_def)

lemma same_wishes_trans: "same_wishes d d1 \<Longrightarrow> same_wishes d1 d2 \<Longrightarrow> same_wishes d d2"
  by (simp add: same_wishes_def)

lemma same_wishes_steps:
  "profile_identity cat d = Some d1 \<Longrightarrow> same_wishes d d1 \<and> d_force_http d1 = d_force_http d"
  "infer_identity agents h d = Some d1 \<Longrightarrow> same_wishes d d1 \<and> d_force_http d1 = d_force_http d"
  "resolve d av os pick = Some (d1, ok) \<Longrightarrow> same_wishes d d1 \<and> d_force_http d1 = d_force_http d"
  by (auto simp: profile_identity_def infer_identity_def resolve_def Let_def split: if_splits option.splits)

lemma resolve_in_wishes:
  "resolve_in pick t d sv = Some (d', ok, sv') \<Longrightarrow> same_wishes d d' \<and> d_force_http d' = d_force_http d"
  by (auto simp: resolve_in_def Let_def dest!: same_wishes_steps(3) split: option.splits if_splits)


definition no_catalogue :: catalogue where
  "no_catalogue = \<lparr>ct_revision = [], ct_profiles = [], ct_by_id = Map.empty\<rparr>"

definition demo_handler :: "(unit, unit) handler_env" where
  "demo_handler =
     \<lparr>he_policy = empty_policy, he_timeout = 0, he_encoding = ''negotiate'', he_zog = plain_zog,
      he_url_parse = (\<lambda>_. None),
      he_agents = demo_env, he_catalogue = no_catalogue, he_pick = (\<lambda>_ _. 0), he_route = (\<lambda>_ _. []),
      he_codecs = demo_codecs, he_get = (\<lambda>_ s. (Inr (), s)), he_release = (\<lambda>_ s. s)\<rparr>"

definition demo_request :: request where
  "demo_request =
     \<lparr>rq_method = ''GET'', rq_url = \<lparr>u_scheme = ''http'', u_user = None, u_host = ''h'', u_path = ''/''\<rparr>,
      rq_host = ''h'', rq_header = [(''Accept'', [''a''])]\<rparr>"


section \<open>Upgrading to https\<close>

text \<open>
  Upgrading a request keeps the host it goes to, also when that is an IPv6 address, drops port 80
  from its URL and no other port, and changes nothing else but the Host header, and that only when
  it names port 80 too.
\<close>

theorem upgrade_sound:
  assumes "take 1 (url_hostname (rq_url req)) \<noteq> ''[''"
  shows "u_scheme (rq_url (upgrade req)) = ''https'' \<and>
    url_hostname (rq_url (upgrade req)) = url_hostname (rq_url req) \<and>
    url_port (rq_url (upgrade req)) = (if url_port (rq_url req) = ''80'' then [] else url_port (rq_url req)) \<and>
    u_path (rq_url (upgrade req)) = u_path (rq_url req) \<and> u_user (rq_url (upgrade req)) = u_user (rq_url req) \<and>
    rq_header (upgrade req) = rq_header req \<and> rq_method (upgrade req) = rq_method req \<and>
    (rq_host (upgrade req) = rq_host req \<or>
     url_port (rq_url req) = ''80'' \<and> split_host_port (rq_host req) = Some (rq_host (upgrade req), ''80''))"
proof -
  let ?h = "url_hostname (rq_url req)"
  let ?u = "(rq_url req)\<lparr>u_scheme := ''https''\<rparr>"
  have same: "url_port ?u = url_port (rq_url req)" "url_hostname ?u = ?h"
    by (simp_all add: url_port_def url_hostname_def)
  let ?b = "if CHR '':'' \<in> set ?h then ''['' @ ?h @ '']'' else ?h"
  have b: "url_split_host_port ?b = (?h, [])"
  proof (cases "CHR '':'' \<in> set ?h")
    case True
    then obtain p q where h: "?h = p @ CHR '':'' # q" "CHR '':'' \<notin> set q" by (metis split_list_last)
    have "last_index CHR '':'' (''['' @ p @ CHR '':'' # q @ '']'') = Some (Suc (length p))"
      using last_index_append [of "CHR '':''" "q @ '']''" "''['' @ p"] h(2) by simp
    moreover have "\<not> valid_optional_port (CHR '':'' # q @ '']'')"
      by (auto simp: valid_optional_port_def list_all_iff is_digit_def)
    ultimately show ?thesis
      using True unfolding h(1) by (simp add: url_split_host_port_def has_prefix_def has_suffix_def)
  next
    case False
    with assms show ?thesis by (simp add: url_split_plain(1))
  qed
  show ?thesis
  proof (cases "url_port (rq_url req) = ''80''")
    case True
    then have "rq_url (upgrade req) = ?u\<lparr>u_host := ?b\<rparr>"
      by (simp add: upgrade_def Let_def same split: option.split)
    with True b show ?thesis
      by (auto simp: url_hostname_def url_port_def) (auto simp: upgrade_def Let_def same split: option.splits)
  next
    case False
    then have "upgrade req = req\<lparr>rq_url := ?u\<rparr>" by (simp add: upgrade_def Let_def same)
    with False same show ?thesis by simp
  qed
qed

definition v6_request :: request where
  "v6_request =
     \<lparr>rq_method = ''GET'', rq_url = \<lparr>u_scheme = ''http'', u_user = None, u_host = ''[::1]:80'', u_path = ''/''\<rparr>,
      rq_host = ''[::1]:80'', rq_header = []\<rparr>"

theorem upgrade_sound_witness:
  "url_hostname (rq_url (upgrade v6_request)) = ''::1'' \<and> url_port (rq_url (upgrade v6_request)) = []"
proof -
  have "url_hostname (rq_url v6_request) = ''::1''" "url_port (rq_url v6_request) = ''80''" by code_simp+
  with upgrade_sound [of v6_request] show ?thesis by simp
qed

text \<open>The Host header of the same request loses its brackets and is no longer a host.\<close>

lemma upgrade_drops_brackets:
  "u_host (rq_url (upgrade v6_request)) = ''[::1]''" "rq_host (upgrade v6_request) = ''::1''"
  by code_simp+

end
