(* ===== verification/Tip_Metrics.thy ===== *)
theory Tip_Metrics
  imports Tip_Routes Tip_Handler
begin

text \<open>
  The counters the observer's calls move (\<^verbatim>\<open>internal/metrics/metrics.go\<close>, \<^verbatim>\<open>cmd/tip/observer.go\<close>).
  The Prometheus client is known by what it accepts: label names when a vector is registered and
  label values when one of its series is taken; it panics otherwise, which is \<open>None\<close>.
\<close>

section \<open>Counters\<close>

record collectors =
  co_requests :: bool
  co_latency :: bool
  co_bandwidth :: bool
  co_upstream_errors :: bool
  co_validation_errors :: bool
  co_clients :: bool
  co_tunnels :: bool

text \<open>
  What the Prometheus client accepts: the label names of a new vector, and for a vector's name and label
  names the values of a series.
\<close>

record prometheus =
  pr_names :: "string list \<Rightarrow> bool"
  pr_values :: "string \<Rightarrow> string list \<Rightarrow> string list \<Rightarrow> bool"

text \<open>
  A metric's series are told apart by its labels; a gauge or counter without labels has one. The
  buckets of the histogram are not modelled: it counts its observations.
\<close>

record metrics =
  me_collectors :: collectors
  me_matcher :: matcher
  me_series :: "string \<times> string list \<Rightarrow> int"

definition with_captures :: "matcher \<Rightarrow> string list \<Rightarrow> string list" where
  "with_captures m fixed = fixed @ ma_captures m"

datatype metrics_result = BadRoutes route_error | MetricsPanic | MetricsReady metrics

definition vector_labels :: "matcher \<Rightarrow> string \<Rightarrow> string list" where
  "vector_labels m name =
     (if name = ''tip_requests_total'' then with_captures m [''host'', ''method'', ''status'', ''browser'', ''route'']
      else if name = ''tip_request_duration_seconds'' then with_captures m [''host'', ''route'']
      else if name = ''tip_bandwidth_bytes_total'' then with_captures m [''host'', ''route'', ''direction'']
      else if name = ''tip_upstream_errors_total'' then [''host'', ''kind'']
      else if name = ''tip_validation_errors_total'' then [''directive'']
      else if name = ''tip_client_builds_total'' then [''browser'', ''os'']
      else [])"

definition vectors :: "collectors \<Rightarrow> string list" where
  "vectors c =
     (if co_requests c then [''tip_requests_total''] else []) @
     (if co_latency c then [''tip_request_duration_seconds''] else []) @
     (if co_bandwidth c then [''tip_bandwidth_bytes_total''] else []) @
     (if co_upstream_errors c then [''tip_upstream_errors_total''] else []) @
     (if co_validation_errors c then [''tip_validation_errors_total''] else []) @
     (if co_clients c then [''tip_client_builds_total''] else [])"

definition new_metrics :: "prometheus \<Rightarrow> collectors \<Rightarrow> route list \<Rightarrow> metrics_result" where
  "new_metrics prom c rs =
     (case new_matcher rs of
        Inl e \<Rightarrow> BadRoutes e
      | Inr m \<Rightarrow>
          if list_all (\<lambda>name. pr_names prom (vector_labels m name)) (vectors c)
          then MetricsReady \<lparr>me_collectors = c, me_matcher = m, me_series = (\<lambda>_. 0)\<rparr>
          else MetricsPanic)"

definition add_series :: "string \<Rightarrow> string list \<Rightarrow> int \<Rightarrow> metrics \<Rightarrow> metrics" where
  "add_series name ls n m =
     m\<lparr>me_series := (me_series m)((name, ls) := me_series m (name, ls) + n)\<rparr>"

text \<open>\<^verbatim>\<open>WithLabelValues\<close>, then adding.\<close>

definition add_labelled :: "prometheus \<Rightarrow> string \<Rightarrow> string list \<Rightarrow> int \<Rightarrow> metrics \<Rightarrow> metrics option" where
  "add_labelled prom name vs n m =
     (if pr_values prom name (vector_labels (me_matcher m) name) vs then Some (add_series name vs n m) else None)"

definition captured_values :: "matcher \<Rightarrow> labels \<Rightarrow> string list \<Rightarrow> string list" where
  "captured_values m found fixed =
     fixed @ map (\<lambda>name. case found name of Some v \<Rightarrow> v | None \<Rightarrow> []) (ma_captures m)"

definition bind_if :: "bool \<Rightarrow> ('m \<Rightarrow> 'm option) \<Rightarrow> 'm option \<Rightarrow> 'm option" where
  "bind_if on f m = (case m of None \<Rightarrow> None | Some x \<Rightarrow> if on then f x else Some x)"

definition count_request ::
  "prometheus \<Rightarrow> (string list \<Rightarrow> string list) \<Rightarrow> string \<Rightarrow> request_event \<Rightarrow> metrics \<Rightarrow> metrics option" where
  "count_request prom vals rt ev m =
     map_option (add_series ''tip_requests_inflight'' [] (-1))
       (add_labelled prom ''tip_requests_total''
          (vals [ev_host ev, ev_method ev, int_text (ev_status ev), ev_browser ev, rt]) 1 m)"

definition count_bandwidth ::
  "prometheus \<Rightarrow> (string list \<Rightarrow> string list) \<Rightarrow> string \<Rightarrow> request_event \<Rightarrow> metrics \<Rightarrow> metrics option" where
  "count_bandwidth prom vals rt ev m =
     Option.bind
       (add_labelled prom ''tip_bandwidth_bytes_total'' (vals [ev_host ev, rt, ''in''])
          (int (ev_bytes_in ev)) m)
       (add_labelled prom ''tip_bandwidth_bytes_total'' (vals [ev_host ev, rt, ''out''])
          (int (ev_bytes_out ev)))"

definition request_finished :: "prometheus \<Rightarrow> request_event \<Rightarrow> metrics \<Rightarrow> metrics option" where
  "request_finished prom ev m =
     (let c = me_collectors m;
          (rt, found) = match_route (me_matcher m) (ev_host ev) (ev_path ev);
          vals = captured_values (me_matcher m) found
      in bind_if (co_bandwidth c) (count_bandwidth prom vals rt ev)
           (bind_if (co_latency c)
              (add_labelled prom ''tip_request_duration_seconds'' (vals [ev_host ev, rt]) 1)
              (bind_if (co_requests c) (count_request prom vals rt ev) (Some m))))"

definition metrics_route :: "metrics \<Rightarrow> string \<Rightarrow> string \<Rightarrow> string" where
  "metrics_route m host path = fst (match_route (me_matcher m) host path)"

fun observed :: "prometheus \<Rightarrow> observation \<Rightarrow> metrics \<Rightarrow> metrics option" where
  "observed prom RequestStarted m =
     Some (if co_requests (me_collectors m) then add_series ''tip_requests_inflight'' [] 1 m else m)"
| "observed prom (RequestFinished ev) m = request_finished prom ev m"
| "observed prom (ValidationFailed d) m =
     bind_if (co_validation_errors (me_collectors m))
       (add_labelled prom ''tip_validation_errors_total'' [d] 1) (Some m)"
| "observed prom (UpstreamError host kind) m =
     bind_if (co_upstream_errors (me_collectors m))
       (add_labelled prom ''tip_upstream_errors_total'' [host, kind] 1) (Some m)"
| "observed prom TunnelOpened m =
     Some (if co_tunnels (me_collectors m) then add_series ''tip_tunnels_total'' [] 1 m else m)"

text \<open>The cache's calls; a build names the browser and OS of its spec.\<close>

definition client_built :: "prometheus \<Rightarrow> string \<Rightarrow> string \<Rightarrow> metrics \<Rightarrow> metrics option" where
  "client_built prom browser os m =
     bind_if (co_clients (me_collectors m))
       (\<lambda>m. map_option (add_series ''tip_clients_active'' [] 1)
          (add_labelled prom ''tip_client_builds_total'' [browser, os] 1 m)) (Some m)"

definition client_evicted :: "metrics \<Rightarrow> metrics" where
  "client_evicted m =
     (if co_clients (me_collectors m)
      then add_series ''tip_clients_active'' [] (-1) (add_series ''tip_client_evictions_total'' [] 1 m)
      else m)"

definition cache_hit :: "metrics \<Rightarrow> metrics" where
  "cache_hit m =
     (if co_clients (me_collectors m) then add_series ''tip_client_cache_hits_total'' [] 1 m else m)"

definition cache_miss :: "metrics \<Rightarrow> metrics" where
  "cache_miss m =
     (if co_clients (me_collectors m) then add_series ''tip_client_cache_misses_total'' [] 1 m else m)"

section \<open>What the series say\<close>

text \<open>The charges of an observation: whether the metric is a vector, the series, the amount.\<close>

type_synonym charge = "bool \<times> (string \<times> string list) \<times> int"

definition request_labels :: "metrics \<Rightarrow> request_event \<Rightarrow> string list" where
  "request_labels m ev =
     (let (rt, found) = match_route (me_matcher m) (ev_host ev) (ev_path ev)
      in captured_values (me_matcher m) found
           [ev_host ev, ev_method ev, int_text (ev_status ev), ev_browser ev, rt])"

fun charges :: "metrics \<Rightarrow> observation \<Rightarrow> charge list" where
  "charges m RequestStarted =
     (if co_requests (me_collectors m) then [(False, (''tip_requests_inflight'', []), 1)] else [])"
| "charges m (RequestFinished ev) =
     (let c = me_collectors m;
          (rt, found) = match_route (me_matcher m) (ev_host ev) (ev_path ev);
          vals = captured_values (me_matcher m) found
      in (if co_requests c
          then [(True, (''tip_requests_total'', request_labels m ev), 1), (False, (''tip_requests_inflight'', []), -1)]
          else []) @
         (if co_latency c then [(True, (''tip_request_duration_seconds'', vals [ev_host ev, rt]), 1)] else []) @
         (if co_bandwidth c
          then [(True, (''tip_bandwidth_bytes_total'', vals [ev_host ev, rt, ''in'']), int (ev_bytes_in ev)),
                (True, (''tip_bandwidth_bytes_total'', vals [ev_host ev, rt, ''out'']), int (ev_bytes_out ev))]
          else []))"
| "charges m (ValidationFailed d) =
     (if co_validation_errors (me_collectors m) then [(True, (''tip_validation_errors_total'', [d]), 1)] else [])"
| "charges m (UpstreamError host kind) =
     (if co_upstream_errors (me_collectors m) then [(True, (''tip_upstream_errors_total'', [host, kind]), 1)] else [])"
| "charges m TunnelOpened =
     (if co_tunnels (me_collectors m) then [(False, (''tip_tunnels_total'', []), 1)] else [])"

definition accepted :: "prometheus \<Rightarrow> matcher \<Rightarrow> charge \<Rightarrow> bool" where
  "accepted prom mt ch =
     (case ch of (labelled, (name, vs), n) \<Rightarrow> labelled \<longrightarrow> pr_values prom name (vector_labels mt name) vs)"

fun charged :: "string \<times> string list \<Rightarrow> charge list \<Rightarrow> int" where
  "charged s [] = 0"
| "charged s ((k, s', n) # chs) = (if s' = s then n else 0) + charged s chs"

lemma charged_append: "charged s (xs @ ys) = charged s xs + charged s ys"
  by (induction xs) auto

lemma add_series_simps [simp]:
  "me_matcher (add_series nm ls n m) = me_matcher m" "me_collectors (add_series nm ls n m) = me_collectors m"
  "me_series (add_series nm ls n m) s = me_series m s + (if (nm, ls) = s then n else 0)"
  by (auto simp: add_series_def)

lemma metrics_eqI:
  "me_matcher m = me_matcher m' \<Longrightarrow> me_collectors m = me_collectors m' \<Longrightarrow>
     (\<And>s. me_series m s = me_series m' s) \<Longrightarrow> m = (m' :: metrics)"
  by (cases m, cases m') (simp add: fun_eq_iff)

text \<open>Observing is charging, unless a label is refused.\<close>

lemma observed_charges:
  "observed prom ev m =
     (if list_all (accepted prom (me_matcher m)) (charges m ev)
      then Some (m\<lparr>me_series := \<lambda>s. me_series m s + charged s (charges m ev)\<rparr>) else None)"
proof (cases ev)
  case (RequestFinished r)
  obtain rt found where mr: "match_route (me_matcher m) (ev_host r) (ev_path r) = (rt, found)" by fastforce
  show ?thesis
    unfolding RequestFinished
    by (cases "co_requests (me_collectors m)"; cases "co_latency (me_collectors m)";
        cases "co_bandwidth (me_collectors m)")
      (auto simp: mr request_finished_def count_request_def count_bandwidth_def bind_if_def add_labelled_def
        accepted_def request_labels_def Let_def algebra_simps intro!: metrics_eqI)
qed (auto simp: bind_if_def add_labelled_def accepted_def intro!: metrics_eqI)

lemma request_labels_same: "me_matcher m' = me_matcher m \<Longrightarrow> request_labels m' = request_labels m"
  by (simp add: request_labels_def fun_eq_iff)

lemma charges_same:
  "me_matcher m' = me_matcher m \<Longrightarrow> me_collectors m' = me_collectors m \<Longrightarrow> charges m' ev = charges m ev"
  using request_labels_same [of m' m] by (cases ev) (auto simp: Let_def split: prod.split)

section \<open>The observer as an interface\<close>

text \<open>
  The server and the cache know the metrics as something that takes their events. A history of events is
  taken from the first to the last, and stops at a panic.
\<close>

fun observe_run :: "('ev \<Rightarrow> 'm \<Rightarrow> 'm option) \<Rightarrow> 'ev list \<Rightarrow> 'm \<Rightarrow> 'm option" where
  "observe_run take_event [] m = Some m"
| "observe_run take_event (ev # evs) m = Option.bind (take_event ev m) (observe_run take_event evs)"

text \<open>
  The contract: taking an event adds its charges to the series and changes nothing else, and what an event
  costs depends on the configuration of the metrics alone.
\<close>

locale event_sink =
  fixes take_event :: "'ev \<Rightarrow> metrics \<Rightarrow> metrics option"
    and cost :: "metrics \<Rightarrow> 'ev \<Rightarrow> charge list"
  assumes taken: "take_event ev m = Some m' \<Longrightarrow>
      me_matcher m' = me_matcher m \<and> me_collectors m' = me_collectors m \<and>
      me_series m' s = me_series m s + charged s (cost m ev)"
    and cost_same: "me_matcher m' = me_matcher m \<Longrightarrow> me_collectors m' = me_collectors m \<Longrightarrow> cost m' ev = cost m ev"
begin

lemma run_series:
  "observe_run take_event evs m = Some m' \<Longrightarrow>
     me_matcher m' = me_matcher m \<and> me_collectors m' = me_collectors m \<and>
     me_series m' s = me_series m s + sum_list (map (\<lambda>ev. charged s (cost m ev)) evs)"
proof (induction evs arbitrary: m)
  case (Cons ev evs)
  from Cons.prems obtain m1 where m1: "take_event ev m = Some m1" "observe_run take_event evs m1 = Some m'"
    by (auto simp: bind_eq_Some_conv)
  from taken [OF m1(1)] cost_same [of m1 m] have "cost m1 = cost m" by (simp add: fun_eq_iff)
  with taken [OF m1(1)] Cons.IH [OF m1(2)] show ?case by simp
qed simp

end

abbreviation observe_all :: "prometheus \<Rightarrow> observation list \<Rightarrow> metrics \<Rightarrow> metrics option" where
  "observe_all prom \<equiv> observe_run (observed prom)"

interpretation server_sink: event_sink "observed prom" charges for prom
  by unfold_locales (auto simp: observed_charges split: if_splits intro: charges_same)

lemmas observe_all_series = server_sink.run_series

lemma charged_inflight:
  assumes "co_requests (me_collectors m)"
  shows "charged (''tip_requests_inflight'', []) (charges m ev) =
    (if ev = RequestStarted then 1 else if is_finished ev then -1 else 0)"
  using assms by (cases ev) (auto simp: Let_def charged_append split: prod.split)

lemma charged_requests:
  assumes "co_requests (me_collectors m)"
  shows "charged (''tip_requests_total'', ls) (charges m ev) =
    (case ev of RequestFinished r \<Rightarrow> if request_labels m r = ls then 1 else 0 | _ \<Rightarrow> 0)"
  using assms by (cases ev) (auto simp: Let_def charged_append split: prod.split)

lemma inflight_sum:
  "co_requests (me_collectors m) \<Longrightarrow>
     sum_list (map (\<lambda>ev. charged (''tip_requests_inflight'', []) (charges m ev)) evs) =
       int (length (filter (\<lambda>e. e = RequestStarted) evs)) - int (length (filter is_finished evs))"
  by (induction evs) (auto simp: charged_inflight)

text \<open>
  After any history of observations the gauge of requests in flight has moved by the requests begun
  less those finished, and the counter of a set of labels (host, method, status, browser, route
  and captured parameters) by the number of finished requests with just those.
\<close>

theorem metrics_follow_requests:
  assumes "observe_all prom evs m = Some m'" "co_requests (me_collectors m)"
  shows "me_series m' (''tip_requests_inflight'', []) =
      me_series m (''tip_requests_inflight'', []) +
      int (length (filter (\<lambda>e. e = RequestStarted) evs)) - int (length (filter is_finished evs)) \<and>
    me_series m' (''tip_requests_total'', ls) =
      me_series m (''tip_requests_total'', ls) +
      int (length (filter (\<lambda>e. \<exists>r. e = RequestFinished r \<and> request_labels m r = ls) evs))"
proof -
  note inflight_sum [OF assms(2), of evs]
  moreover have "sum_list (map (\<lambda>ev. charged (''tip_requests_total'', ls) (charges m ev)) evs) =
      int (length (filter (\<lambda>e. \<exists>r. e = RequestFinished r \<and> request_labels m r = ls) evs))"
    unfolding charged_requests [OF assms(2)] by (induction evs) (auto split: observation.split)
  ultimately show ?thesis using observe_all_series [OF assms(1)] by simp
qed

definition all_collectors :: collectors where
  "all_collectors =
     \<lparr>co_requests = True, co_latency = True, co_bandwidth = True, co_upstream_errors = True,
      co_validation_errors = True, co_clients = True, co_tunnels = True\<rparr>"

definition demo_prometheus :: prometheus where
  "demo_prometheus =
     \<lparr>pr_names = (\<lambda>ns. distinct ns), pr_values = (\<lambda>name ns vs. length vs = length ns \<and> list_all valid_utf8 vs \<and>
        \<not> (name = ''tip_request_duration_seconds'' \<and> ''le'' \<in> set ns))\<rparr>"

definition demo_metrics :: metrics where
  "demo_metrics = \<lparr>me_collectors = all_collectors, me_matcher = \<lparr>ma_routes = [], ma_captures = []\<rparr>, me_series = (\<lambda>_. 0)\<rparr>"

definition demo_event :: "string \<Rightarrow> request_event" where
  "demo_event host =
     \<lparr>ev_host = host, ev_method = ''GET'', ev_path = ''/'', ev_browser = ''chrome'', ev_route = [], ev_status = 200,
      ev_bytes_in = 0, ev_bytes_out = 5\<rparr>"

lemma demo_observed: "observe_all demo_prometheus [RequestStarted, TunnelOpened] demo_metrics =
    Some (add_series ''tip_tunnels_total'' [] 1 (add_series ''tip_requests_inflight'' [] 1 demo_metrics))"
  by (simp add: demo_metrics_def all_collectors_def)

theorem metrics_follow_requests_witness:
  "\<exists>m'. observe_all demo_prometheus [RequestStarted, TunnelOpened] demo_metrics = Some m' \<and>
     me_series m' (''tip_requests_inflight'', []) = 1"
  using metrics_follow_requests [OF demo_observed, of "[]"] demo_observed
  by (simp add: demo_metrics_def all_collectors_def)

section \<open>No panic\<close>

fun texts :: "observation \<Rightarrow> string list" where
  "texts (RequestFinished r) = [ev_host r, ev_method r, ev_path r, ev_browser r]"
| "texts (ValidationFailed d) = [d]"
| "texts (UpstreamError host kind) = [host, kind]"
| "texts _ = []"

definition routes_valid :: "route list \<Rightarrow> bool" where
  "routes_valid rs = (\<forall>r \<in> set rs. valid_utf8 (ro_name r) \<and> valid_utf8 (ro_path r))"

lemma valid_segments: "valid_utf8 p \<Longrightarrow> s \<in> set (segments_of p) \<Longrightarrow> valid_utf8 s"
proof -
  assume p: "valid_utf8 p" and s: "s \<in> set (segments_of p)"
  have "valid_utf8 (trim_prefix ''/'' p)"
    using p valid_utf8_split_ascii [of "[]" "CHR ''/''"]
    by (auto simp: trim_prefix_def cut_prefix_some byte_def split: option.splits)
  with s show ?thesis by (auto simp: segments_of_def byte_def intro: valid_utf8_split_on [of "CHR ''/''"])
qed

definition valid_labels :: "labels \<Rightarrow> bool" where
  "valid_labels found = (\<forall>v \<in> ran found. valid_utf8 v)"

lemma valid_bind:
  assumes "fits p s" "valid_utf8 p" "valid_utf8 s" "valid_labels found"
  shows "valid_labels (bind_segment capture (p, s) found)"
proof (cases "cut CHR '':'' p")
  case c: (fields pre name param)
  show ?thesis
  proof (cases param)
    case True
    with c assms(1) obtain v where s: "s = pre @ v" by (auto simp: fits_def)
    from c True have "p = pre @ CHR '':'' # name" by (simp add: cut_found)
    with assms(2) valid_utf8_split_ascii [of pre "CHR '':''" name] have "valid_utf8 pre" by (simp add: byte_def)
    with s assms(3) have "valid_utf8 (drop (length pre) s)" by (simp add: valid_utf8_append)
    with assms(4) c True show ?thesis by (auto simp: bind_segment_def valid_labels_def ran_def)
  next
    case False
    with assms(4) c show ?thesis by (simp add: bind_segment_def)
  qed
qed

lemma valid_bound:
  assumes "path_fits ps segs" "\<forall>p \<in> set ps. valid_utf8 p" "\<forall>s \<in> set segs. valid_utf8 s"
  shows "valid_labels (bound_labels capture ps segs Map.empty)"
proof -
  let ?fixed = "takeWhile (\<lambda>p. p \<noteq> ''*'') ps"
  have "fits p s \<and> valid_utf8 p \<and> valid_utf8 s" if "(p, s) \<in> set (zip ?fixed segs)" for p s
  proof -
    have "fits p s" using assms(1) that
      by (auto simp: path_fits_def Let_def list_all2_conv_all_nth in_set_zip)
    with that assms(2,3) show ?thesis by (meson set_takeWhileD set_zip_leftD set_zip_rightD)
  qed
  moreover have "valid_labels found \<Longrightarrow>
      (\<And>p s. (p, s) \<in> set xs \<Longrightarrow> fits p s \<and> valid_utf8 p \<and> valid_utf8 s) \<Longrightarrow>
      valid_labels (fold (bind_segment capture) xs found)" for xs found
    by (induction xs arbitrary: found) (auto intro: valid_bind)
  moreover have "valid_labels Map.empty" by (simp add: valid_labels_def)
  ultimately show ?thesis unfolding bound_labels_def by blast
qed

lemma match_route_valid:
  assumes "new_matcher rs = Inr mt" "routes_valid rs" "valid_utf8 path"
    and "match_route mt host path = (rt, found)"
  shows "valid_utf8 rt \<and> valid_labels found"
proof -
  have routes: "ma_routes mt = map compile_route rs"
    using assms(1) compile_routes_spec [of rs _ mt] by (auto simp: new_matcher_def)
  show ?thesis
  proof (cases "find (\<lambda>r. match_host (cm_host r) (to_lower host) \<and> path_fits (cm_segments r) (segments_of path))
      (ma_routes mt)")
    case None
    with assms(4) show ?thesis by (auto simp: match_route_def match_routes_first valid_labels_def)
  next
    case (Some c)
    then have "c \<in> set (ma_routes mt)" "path_fits (cm_segments c) (segments_of path)"
      by (auto simp: find_Some_iff)
    with routes obtain r where r: "r \<in> set rs" "c = compile_route r"
      "path_fits (cm_segments c) (segments_of path)" by auto
    from assms(2) r have "valid_utf8 (ro_name r)" "\<forall>p \<in> set (cm_segments c). valid_utf8 p"
      by (auto simp: routes_valid_def compile_route_def intro: valid_segments)
    with r(3) valid_segments [OF assms(3)] valid_bound show ?thesis
      using assms(4) Some by (auto simp: match_route_def match_routes_first r(2)) (auto simp: compile_route_def)
  qed
qed

lemma itoa_ascii: "valid_utf8 (itoa n)"
  using itoa_digits [of _ n] by (intro valid_utf8_ascii) (auto simp: list_all_iff is_digit_def byte_def Let_def, fastforce)

lemma int_text_valid: "valid_utf8 (int_text n)"
  using valid_utf8_append [of "''-''" "itoa (nat (- n))"]
  by (simp add: int_text_def itoa_ascii valid_utf8_ascii byte_def)

text \<open>
  Prometheus accepts the labels of a series when they are as many as the vector has names and are UTF-8
  (and a histogram has no label \<^verbatim>\<open>le\<close>), and panics otherwise. Then no observation of UTF-8 texts panics, whatever routes were configured; and with
  any request metric on, finishing a request whose host is not UTF-8 does.
\<close>

theorem metrics_panic_free:
  assumes prom: "\<And>name ns vs. pr_values prom name ns vs \<longleftrightarrow>
      length vs = length ns \<and> list_all valid_utf8 vs \<and> \<not> (name = ''tip_request_duration_seconds'' \<and> ''le'' \<in> set ns)"
    and routes: "new_matcher rs = Inr (me_matcher m)" "routes_valid rs" "''le'' \<notin> set (ma_captures (me_matcher m))"
  shows "(list_all valid_utf8 (texts ev) \<longrightarrow> observed prom ev m \<noteq> None) \<and>
    (\<not> valid_utf8 (ev_host r) \<and>
       (co_requests (me_collectors m) \<or> co_latency (me_collectors m) \<or> co_bandwidth (me_collectors m)) \<longrightarrow>
     observed prom (RequestFinished r) m = None)"
proof (intro conjI impI)
  assume t: "list_all valid_utf8 (texts ev)"
  show "observed prom ev m \<noteq> None"
  proof (cases ev)
    case (RequestFinished q)
    obtain rt found where mr: "match_route (me_matcher m) (ev_host q) (ev_path q) = (rt, found)" by fastforce
    with t RequestFinished match_route_valid [OF routes(1,2) _ mr] have "valid_utf8 rt" "valid_labels found" by auto
    then have vl: "found name = Some v \<Longrightarrow> valid_utf8 v" for name v by (auto simp: valid_labels_def ran_def)
    have "list_all valid_utf8 (captured_values (me_matcher m) found fixed) = list_all valid_utf8 fixed" for fixed
      by (auto simp: captured_values_def list_all_iff dest: vl split: option.splits)
    moreover have "length (captured_values (me_matcher m) found fixed) =
        length fixed + length (ma_captures (me_matcher m))" for fixed
      by (simp add: captured_values_def)
    moreover have "valid_utf8 ''in''" "valid_utf8 ''out''" by (simp_all add: valid_utf8_ascii byte_def)
    ultimately show ?thesis using t RequestFinished \<open>valid_utf8 rt\<close> routes(3)
      by (auto simp: observed_charges mr accepted_def prom vector_labels_def with_captures_def request_labels_def int_text_valid Let_def)
  qed (use t in \<open>auto simp: observed_charges accepted_def prom vector_labels_def with_captures_def\<close>)
next
  assume bad: "\<not> valid_utf8 (ev_host r) \<and>
    (co_requests (me_collectors m) \<or> co_latency (me_collectors m) \<or> co_bandwidth (me_collectors m))"
  obtain rt found where mr: "match_route (me_matcher m) (ev_host r) (ev_path r) = (rt, found)" by fastforce
  with bad show "observed prom (RequestFinished r) m = None"
    by (auto simp: observed_charges accepted_def prom vector_labels_def with_captures_def request_labels_def captured_values_def Let_def)
qed

theorem metrics_panic_free_witness:
  "observed demo_prometheus (RequestFinished (demo_event ''a.example'')) demo_metrics \<noteq> None \<and>
   observed demo_prometheus (RequestFinished (demo_event [char_of (255 :: nat)])) demo_metrics = None"
proof -
  have prom: "pr_values demo_prometheus name ns vs \<longleftrightarrow>
      length vs = length ns \<and> list_all valid_utf8 vs \<and> \<not> (name = ''tip_request_duration_seconds'' \<and> ''le'' \<in> set ns)"
    for name ns vs by (simp add: demo_prometheus_def)
  have routes: "new_matcher [] = Inr (me_matcher demo_metrics)"
    by (simp add: new_matcher_def demo_metrics_def)
  have valid: "routes_valid []" "''le'' \<notin> set (ma_captures (me_matcher demo_metrics))"
    by (simp_all add: routes_valid_def demo_metrics_def)
  from metrics_panic_free [OF prom routes valid, of "RequestFinished (demo_event ''a.example'')"]
    metrics_panic_free [OF prom routes valid, of RequestStarted "demo_event [char_of (255 :: nat)]"]
  show ?thesis
    by (simp add: demo_event_def valid_utf8_ascii byte_def demo_metrics_def all_collectors_def)
      (simp add: valid_utf8_def first_info_def byte_def byte_in_def)
qed

section \<open>Registering\<close>

text \<open>The label names the code itself gives to a vector that also has the captured ones.\<close>

definition reserved :: "collectors \<Rightarrow> string set" where
  "reserved c =
     (if co_requests c then {''host'', ''method'', ''status'', ''browser'', ''route''} else {}) \<union>
     (if co_latency c then {''host'', ''route''} else {}) \<union>
     (if co_bandwidth c then {''host'', ''route'', ''direction''} else {})"

definition captures_of :: "route list \<Rightarrow> string set" where
  "captures_of rs = \<Union> (set ` ro_capture ` set rs)"

lemma vector_labels_distinct:
  assumes "distinct (ma_captures mt)"
  shows "list_all (\<lambda>name. distinct (vector_labels mt name)) (vectors c) \<longleftrightarrow> set (ma_captures mt) \<inter> reserved c = {}"
  using assms
  by (cases "co_requests c"; cases "co_latency c"; cases "co_bandwidth c")
    (auto simp: vectors_def vector_labels_def with_captures_def reserved_def)

lemma vector_labels_names:
  assumes "\<And>n. n \<in> {''host'', ''method'', ''status'', ''browser'', ''route'', ''direction'', ''kind'', ''directive'', ''os''} \<Longrightarrow> ok n"
  shows "list_all (\<lambda>name. list_all ok (vector_labels mt name)) (vectors c) \<longleftrightarrow>
    \<not> (co_requests c \<or> co_latency c \<or> co_bandwidth c) \<or> list_all ok (ma_captures mt)"
  using assms
  by (cases "co_requests c"; cases "co_latency c"; cases "co_bandwidth c")
    (auto simp: vectors_def vector_labels_def with_captures_def)



end
