(* ===== verification/Tip_Config.thy ===== *)
theory Tip_Config
  imports Tip_Unknown Tip_Metrics
begin

text \<open>
  The configuration (\<^verbatim>\<open>internal/config\<close>): its data, the schema it is checked against, and how a file is
  loaded. The YAML library and the validation library that runs the schema are arguments; what the schema
  accepts is written out here, and that the library runs it is a hypothesis (\<open>config_runs\<close>).
\<close>

section \<open>Data\<close>

text \<open>Durations are nanoseconds. The redacted headers tell an absent list (\<open>None\<close>) from an empty one.\<close>

record server_config =
  sc_listen :: string
  sc_max_connections :: int
  sc_read_header_timeout :: int
  sc_idle_timeout :: int
  sc_max_header_bytes :: int
  sc_shutdown_grace :: int
  sc_serve_ca :: bool
  sc_serve_profiles :: bool

record tls_settings =
  tc_ca_cert :: string
  tc_ca_key :: string
  tc_cert_cache_size :: int
  tc_client_http2 :: bool

record upstream_config =
  uc_verify_certificates :: bool
  uc_timeout :: int

record directives_config =
  dc_defaults :: "(string \<times> string) list"
  dc_deny :: "string list"
  dc_proxy_hosts :: "string list"
  dc_require_proxy :: bool

record clients_config =
  cc_max :: int
  cc_idle_ttl :: int

record encoding_config =
  ec_mode :: string

record auth_config =
  ac_realm :: string
  ac_users :: "(string \<times> string) list"

record logging_config =
  lc_level :: string
  lc_format :: string
  lc_redact :: "string list option"

type_synonym config_collectors = collectors

type_synonym config_route = route

record metrics_config =
  mc_enabled :: bool
  mc_listen :: string
  mc_path :: string
  mc_collectors :: config_collectors
  mc_routes :: "config_route list"

record config =
  cf_server :: server_config
  cf_tls :: tls_settings
  cf_upstream :: upstream_config
  cf_directives :: directives_config
  cf_clients :: clients_config
  cf_encoding :: encoding_config
  cf_auth :: auth_config
  cf_logging :: logging_config
  cf_metrics :: metrics_config

text \<open>The same structures as the search for unknown keys sees them: the tags of the fields, and their types.\<close>

definition config_type :: "(string \<times> gotype) list" where
  "config_type =
     [(''server'', TStruct
        [(''listen'', TScalar), (''max_connections'', TScalar), (''read_header_timeout'', TScalar),
         (''idle_timeout'', TScalar), (''max_header_bytes'', TScalar), (''shutdown_grace'', TScalar),
         (''serve_ca'', TScalar), (''serve_profiles'', TScalar)]),
      (''tls'', TStruct
        [(''ca_cert'', TScalar), (''ca_key'', TScalar), (''cert_cache_size'', TScalar), (''client_http2'', TScalar)]),
      (''upstream'', TStruct [(''verify_certificates'', TScalar), (''timeout'', TScalar)]),
      (''directives'', TStruct
        [(''defaults'', TScalar), (''deny'', TSlice TScalar), (''proxy_hosts'', TSlice TScalar),
         (''require_proxy'', TScalar)]),
      (''clients'', TStruct [(''max'', TScalar), (''idle_ttl'', TScalar)]),
      (''encoding'', TStruct [(''mode'', TScalar)]),
      (''auth'', TStruct [(''realm'', TScalar), (''users'', TScalar)]),
      (''logging'', TStruct [(''level'', TScalar), (''format'', TScalar), (''redact'', TSlice TScalar)]),
      (''metrics'', TStruct
        [(''enabled'', TScalar), (''listen'', TScalar), (''path'', TScalar),
         (''collectors'', TStruct
           [(''requests'', TScalar), (''latency'', TScalar), (''bandwidth'', TScalar), (''upstream_errors'', TScalar),
            (''validation_errors'', TScalar), (''clients'', TScalar), (''tunnels'', TScalar)]),
         (''routes'', TSlice (TStruct
           [(''name'', TScalar), (''host'', TScalar), (''path'', TScalar), (''capture'', TSlice TScalar)]))])]"

section \<open>The schema\<close>

text \<open>The patterns \<^verbatim>\<open>^[a-z][a-z0-9_]*$\<close> and \<^verbatim>\<open>^[a-zA-Z_][a-zA-Z0-9_]*$\<close>.\<close>

definition is_lower :: "char \<Rightarrow> bool" where
  "is_lower c = (let n = of_char c :: nat in 97 \<le> n \<and> n \<le> 122)"

definition route_name :: "string \<Rightarrow> bool" where
  "route_name s =
     (case s of [] \<Rightarrow> False
      | c # t \<Rightarrow> is_lower c \<and> list_all (\<lambda>x. is_lower x \<or> is_digit x \<or> x = CHR ''_'') t)"

definition label_name :: "string \<Rightarrow> bool" where
  "label_name s =
     (case s of [] \<Rightarrow> False
      | c # t \<Rightarrow> (is_alpha c \<or> c = CHR ''_'') \<and> list_all (\<lambda>x. is_alpha x \<or> is_digit x \<or> x = CHR ''_'') t)"

definition default_redact :: "string list" where
  "default_redact = [''Authorization'', ''Proxy-Authorization'', ''Cookie'', ''Set-Cookie'']"

text \<open>The coercer of the durations: only a string will do.\<close>

definition config_duration :: "(nat \<Rightarrow> nat \<Rightarrow> nat \<Rightarrow> nat) \<Rightarrow> yaml \<Rightarrow> (string, int) result" where
  "config_duration frac v =
     (case v of
        YStr s \<Rightarrow>
          (case parse_duration frac s of
             None \<Rightarrow> Inl (''time: invalid duration '' @ quote s)
           | Some d \<Rightarrow> Inr d)
      | _ \<Rightarrow> Inl ''must be a duration with a unit, such as 30s or 1m'')"

datatype ctest =
    MinLen nat | AtLeast int | MoreThan int | AmongTexts "string list" | StartsWith string
  | IsHostPort | IsRouteName | IsLabelName

datatype cfield =
    CString "string option" "ctest list"
  | CRequired "ctest list"
  | CInt "int option" "ctest list"
  | CDuration "int option" "ctest list"
  | CFlag bool
  | CStrings "ctest list"
  | CStringMap "ctest list" "ctest list"
  | CRecords "(string \<times> cfield) list"
  | CStruct "(string \<times> cfield) list"

definition second :: int where
  "second = 1000000000"

definition listen_addr :: "string \<Rightarrow> cfield" where
  "listen_addr def = CString (Some def) [IsHostPort]"

definition string_map :: cfield where
  "string_map = CStringMap [MinLen 1] [MinLen 1]"

definition config_schema :: "(string \<times> cfield) list" where
  "config_schema =
     [(''server'', CStruct
        [(''listen'', listen_addr '':8080''),
         (''maxConnections'', CInt None [AtLeast 0]),
         (''readHeaderTimeout'', CDuration (Some (10 * second)) [MoreThan 0]),
         (''idleTimeout'', CDuration (Some (90 * second)) [MoreThan 0]),
         (''maxHeaderBytes'', CInt (Some (2 ^ 20)) [MoreThan 0]),
         (''shutdownGrace'', CDuration (Some (15 * second)) [MoreThan 0]),
         (''serveCa'', CFlag True),
         (''serveProfiles'', CFlag True)]),
      (''tls'', CStruct
        [(''caCert'', CString (Some ''./ca.pem'') [MinLen 1]),
         (''caKey'', CString (Some ''./ca.key'') [MinLen 1]),
         (''certCacheSize'', CInt (Some 4096) [MoreThan 0]),
         (''clientHttp2'', CFlag False)]),
      (''upstream'', CStruct
        [(''verifyCertificates'', CFlag False),
         (''timeout'', CDuration (Some (30 * second)) [MoreThan 0])]),
      (''directives'', CStruct
        [(''defaults'', string_map),
         (''deny'', CStrings [MinLen 1]),
         (''proxyHosts'', CStrings [MinLen 1]),
         (''requireProxy'', CFlag False)]),
      (''clients'', CStruct
        [(''max'', CInt (Some 4096) [MoreThan 0]),
         (''idleTtl'', CDuration (Some (600 * second)) [MoreThan 0])]),
      (''encoding'', CStruct
        [(''mode'', CString (Some ''negotiate'') [AmongTexts [''negotiate'', ''decode'', ''passthrough'']])]),
      (''auth'', CStruct
        [(''realm'', CString (Some ''tip'') [MinLen 1]),
         (''users'', string_map)]),
      (''logging'', CStruct
        [(''level'', CString (Some ''info'') [AmongTexts [''debug'', ''info'', ''warn'', ''error'']]),
         (''format'', CString (Some ''json'') [AmongTexts [''json'', ''text'']]),
         (''redact'', CStrings [MinLen 1])]),
      (''metrics'', CStruct
        [(''enabled'', CFlag True),
         (''listen'', listen_addr '':9090''),
         (''path'', CString (Some ''/metrics'') [StartsWith ''/'']),
         (''collectors'', CStruct
           [(''requests'', CFlag True), (''latency'', CFlag True), (''bandwidth'', CFlag True),
            (''upstreamErrors'', CFlag True), (''validationErrors'', CFlag True), (''clients'', CFlag True),
            (''tunnels'', CFlag True)]),
         (''routes'', CRecords
           [(''name'', CRequired [IsRouteName]),
            (''host'', CRequired [MinLen 1]),
            (''path'', CRequired [StartsWith ''/'']),
            (''capture'', CStrings [IsLabelName])])])]"

text \<open>The tag of a schema's key, as the Go structure spells it.\<close>

definition snake :: "string \<Rightarrow> string" where
  "snake s = concat (map (\<lambda>c. if lower_char c \<noteq> c then [CHR ''_'', lower_char c] else [c]) s)"

fun tagged :: "cfield \<Rightarrow> gotype" where
  "tagged (CStruct fs) = TStruct (map (\<lambda>(k, f). (snake k, tagged f)) fs)"
| "tagged (CRecords fs) = TSlice (TStruct (map (\<lambda>(k, f). (snake k, tagged f)) fs))"
| "tagged (CStrings ts) = TSlice TScalar"
| "tagged _ = TScalar"

text \<open>
  The schema and the structures it fills agree, key by key: what the search for unknown keys lets pass
  is exactly what the schema reads, at every level, so no known key is ignored and none that the schema reads
  is refused.
\<close>

theorem schema_fits_type: "map (\<lambda>(k, f). (snake k, tagged f)) config_schema = config_type"
  by code_simp

end
