(* ===== verification/Tip_Stores.thy ===== *)
theory Tip_Stores
  imports Tip_Catalogue
begin

unbundle bit_operations_syntax

text \<open>
  What the proxy keeps on disk and in memory for TLS: the cache of minted certificates
  (\<^verbatim>\<open>internal/proxy/certs.go\<close>) and the CA on disk (\<^verbatim>\<open>ca.go\<close>). Key generation, X.509 and PEM are
  arguments, and so is what can go wrong with the file system.
\<close>

section \<open>The certificate cache\<close>

text \<open>The order of the entries is the order of a \<^verbatim>\<open>range\<close> over the map; the victim is the first.\<close>

record 'c cert_store =
  cs_max :: int
  cs_certs :: "(string \<times> 'c) list"

definition new_cert_store :: "int \<Rightarrow> 'c cert_store" where
  "new_cert_store mx = \<lparr>cs_max = mx, cs_certs = []\<rparr>"

definition cert_lookup :: "'c cert_store \<Rightarrow> string \<Rightarrow> 'c option" where
  "cert_lookup st host = map_of (cs_certs st) host"

definition cert_insert :: "string \<Rightarrow> 'c \<Rightarrow> 'c cert_store \<Rightarrow> 'c cert_store" where
  "cert_insert host cert st =
     (let certs = (if cs_max st \<le> int (length (cs_certs st)) then tl (cs_certs st) else cs_certs st) in
      st\<lparr>cs_certs := AList.update host cert certs\<rparr>)"

definition fetch ::
  "(string \<Rightarrow> ('e, 'c) result) \<Rightarrow> string \<Rightarrow> 'c cert_store \<Rightarrow> ('e, 'c) result \<times> 'c cert_store" where
  "fetch gen host st =
     (case cert_lookup st host of
        Some cert \<Rightarrow> (Inr cert, st)
      | None \<Rightarrow>
          (case gen host of
             Inl e \<Rightarrow> (Inl e, st)
           | Inr cert \<Rightarrow> (Inr cert, cert_insert host cert st)))"

text \<open>
  A store that forgets: an insertion is found, every other key keeps its value or loses it, and the
  store never exceeds its bound. A value fetched through it satisfies whatever every value made for
  its key satisfies.
\<close>

locale forgetful_store =
  fixes inv :: "'s \<Rightarrow> bool"
    and lookup :: "'s \<Rightarrow> 'k \<Rightarrow> 'v option"
    and insert_entry :: "'k \<Rightarrow> 'v \<Rightarrow> 's \<Rightarrow> 's"
    and held :: "'s \<Rightarrow> nat"
    and bound :: nat
  assumes inv_insert: "inv s \<Longrightarrow> inv (insert_entry k v s)"
    and lookup_insert: "inv s \<Longrightarrow> lookup (insert_entry k v s) k = Some v"
    and lookup_other: "inv s \<Longrightarrow> k' \<noteq> k \<Longrightarrow>
      lookup (insert_entry k v s) k' = None \<or> lookup (insert_entry k v s) k' = lookup s k'"
    and held_bound: "inv s \<Longrightarrow> held s \<le> bound"
begin

definition memo_fetch :: "('k \<Rightarrow> ('e, 'v) result) \<Rightarrow> 'k \<Rightarrow> 's \<Rightarrow> ('e, 'v) result \<times> 's" where
  "memo_fetch gen k s =
     (case lookup s k of
        Some v \<Rightarrow> (Inr v, s)
      | None \<Rightarrow> (case gen k of Inl e \<Rightarrow> (Inl e, s) | Inr v \<Rightarrow> (Inr v, insert_entry k v s)))"

definition holds_only :: "('k \<Rightarrow> 'v \<Rightarrow> bool) \<Rightarrow> 's \<Rightarrow> bool" where
  "holds_only P s = (\<forall>k v. lookup s k = Some v \<longrightarrow> P k v)"

lemma holds_only_insert: "inv s \<Longrightarrow> holds_only P s \<Longrightarrow> P k v \<Longrightarrow> holds_only P (insert_entry k v s)"
  unfolding holds_only_def
  by (metis lookup_insert lookup_other option.distinct(1) option.inject)

lemma memo_fetch_sound:
  assumes "inv s" "holds_only P s" "\<And>v. gen k = Inr v \<Longrightarrow> P k v"
  shows "inv (snd (memo_fetch gen k s)) \<and> holds_only P (snd (memo_fetch gen k s)) \<and>
    held (snd (memo_fetch gen k s)) \<le> bound \<and>
    (case fst (memo_fetch gen k s) of
       Inl e \<Rightarrow> gen k = Inl e \<and> snd (memo_fetch gen k s) = s
     | Inr v \<Rightarrow> P k v \<and> lookup (snd (memo_fetch gen k s)) k = Some v)"
  using assms
  by (auto simp: memo_fetch_def holds_only_insert inv_insert held_bound lookup_insert
      split: option.split sum.split) (auto simp: holds_only_def)

end

definition certs_ok :: "int \<Rightarrow> 'c cert_store \<Rightarrow> bool" where
  "certs_ok mx st =
     (cs_max st = mx \<and> distinct (map fst (cs_certs st)) \<and> int (length (cs_certs st)) \<le> max 1 mx)"

lemma length_update: "length (AList.update k v xs) = (if k \<in> fst ` set xs then length xs else Suc (length xs))"
  by (induction xs) auto

lemma certs_ok_insert: "certs_ok mx st \<Longrightarrow> certs_ok mx (cert_insert host cert st)"
  by (cases "cs_certs st")
    (auto simp: certs_ok_def cert_insert_def Let_def distinct_update length_update)

lemma cert_lookup_other: "certs_ok mx st \<Longrightarrow> k \<noteq> host \<Longrightarrow>
    cert_lookup (cert_insert host cert st) k = None \<or>
    cert_lookup (cert_insert host cert st) k = cert_lookup st k"
  by (cases "cs_certs st")
    (auto simp: certs_ok_def cert_insert_def cert_lookup_def Let_def update_conv' map_of_eq_None_iff)

interpretation certs: forgetful_store "certs_ok mx" cert_lookup cert_insert
  "\<lambda>st. length (cs_certs st)" "nat (max 1 mx)" for mx
proof (unfold_locales, goal_cases)
  case (1 s k v)
  then show ?case by (rule certs_ok_insert)
next
  case (2 s k v)
  show ?case by (simp add: cert_insert_def cert_lookup_def Let_def update_conv')
next
  case (3 s k' k v)
  then show ?case by (rule cert_lookup_other)
next
  case (4 s)
  then show ?case by (auto simp: certs_ok_def)
qed

lemma fetch_memo: "fetch gen host st = certs.memo_fetch gen host st"
  by (simp add: fetch_def certs.memo_fetch_def)

text \<open>
  Fetches of several connections: the store and the hosts a certificate is being made for, outside the
  lock. \<open>made\<close> says which certificates the generator makes.
\<close>

inductive cert_step ::
  "(string \<Rightarrow> 'c \<Rightarrow> bool) \<Rightarrow> 'c cert_store \<times> string list \<Rightarrow> 'c cert_store \<times> string list \<Rightarrow> bool"
  for made where
  missed: "cert_lookup st host = None \<Longrightarrow> cert_step made (st, gs) (st, host # gs)"
| stored: "host \<in> set gs \<Longrightarrow> made host cert \<Longrightarrow>
     cert_step made (st, gs) (cert_insert host cert st, remove1 host gs)"
| not_made: "host \<in> set gs \<Longrightarrow> cert_step made (st, gs) (st, remove1 host gs)"
| ranged: "mset certs = mset (cs_certs st) \<Longrightarrow> cert_step made (st, gs) (st\<lparr>cs_certs := certs\<rparr>, gs)"

inductive_cases cert_stepE: "cert_step made y y'"

lemma certs_ok_ranged:
  assumes "certs_ok mx st" "mset certs = mset (cs_certs st)"
  shows "certs_ok mx (st\<lparr>cs_certs := certs\<rparr>)" "cert_lookup (st\<lparr>cs_certs := certs\<rparr>) = cert_lookup st"
    and "certs.holds_only P (st\<lparr>cs_certs := certs\<rparr>) = certs.holds_only P st"
proof -
  have m: "mset (map fst certs) = mset (map fst (cs_certs st))" using assms(2) by simp
  have d: "distinct (map fst certs)" "length certs = length (cs_certs st)"
    using mset_eq_imp_distinct_iff [OF m] mset_eq_length [OF assms(2)] assms(1)
    by (simp_all add: certs_ok_def)
  with assms show "certs_ok mx (st\<lparr>cs_certs := certs\<rparr>)" by (simp add: certs_ok_def)
  have "set certs = set (cs_certs st)" using assms(2) by (rule mset_eq_setD)
  then have "map_of certs h = Some c \<longleftrightarrow> map_of (cs_certs st) h = Some c" for h c
    using assms(1) d(1) by (simp add: certs_ok_def)
  then have "map_of certs h = map_of (cs_certs st) h" for h by (metis option.exhaust)
  then show l: "cert_lookup (st\<lparr>cs_certs := certs\<rparr>) = cert_lookup st"
    by (auto simp: cert_lookup_def)
  show "certs.holds_only P (st\<lparr>cs_certs := certs\<rparr>) = certs.holds_only P st"
    unfolding certs.holds_only_def l ..
qed

lemma cert_reachable:
  assumes "(cert_step made)\<^sup>*\<^sup>* (new_cert_store mx, []) y"
  shows "certs_ok mx (fst y) \<and> certs.holds_only made (fst y)"
  using assms
proof (induction rule: rtranclp_induct)
  case base
  show ?case unfolding certs.holds_only_def
    by (simp add: certs_ok_def new_cert_store_def cert_lookup_def)
next
  case (step y z)
  from step.hyps(2) step.IH show ?case
    by (elim cert_stepE)
      (auto simp: certs_ok_insert certs.holds_only_insert certs_ok_ranged)
qed

text \<open>
  C18. However the fetches of several connections interleave, the store holds at most its bound of
  certificates (one, for a bound below one), each made for the host it is under; a fetch returns such
  a certificate, which the store then holds, or the error of the generator, which it does not keep.
\<close>

theorem cert_store_sound:
  assumes reach: "(cert_step made)\<^sup>*\<^sup>* (new_cert_store mx, []) (st, gs)"
    and gen: "\<And>cert. gen host = Inr cert \<Longrightarrow> made host cert"
  shows "int (length (cs_certs st)) \<le> max 1 mx \<and>
    (\<forall>h cert. cert_lookup st h = Some cert \<longrightarrow> made h cert) \<and>
    (case fst (fetch gen host st) of
       Inl e \<Rightarrow> gen host = Inl e \<and> snd (fetch gen host st) = st
     | Inr cert \<Rightarrow> made host cert \<and> cert_lookup (snd (fetch gen host st)) host = Some cert)"
proof -
  from cert_reachable [OF reach] have ok: "certs_ok mx st" "certs.holds_only made st" by auto
  from certs.memo_fetch_sound [where P = made and gen = gen and k = host, OF this gen] show ?thesis
    unfolding fetch_memo using ok by (simp add: certs_ok_def certs.holds_only_def)
qed

theorem cert_store_sound_witness:
  "\<exists>st. fetch (\<lambda>h. Inr h :: (unit, string) result) ''a'' (cert_insert ''b'' ''b'' (new_cert_store 1)) = (Inr ''a'', st) \<and>
    cert_lookup st ''a'' = Some ''a''"
proof -
  let ?made = "\<lambda>h c. h = c"
  let ?st = "cert_insert ''b'' ''b'' (new_cert_store 1)"
  have "cert_step ?made (new_cert_store 1, []) (new_cert_store 1, [''b''])"
    by (rule cert_step.missed) (simp add: cert_lookup_def new_cert_store_def)
  moreover have "cert_step ?made (new_cert_store 1, [''b'']) (?st, remove1 ''b'' [''b''])"
    by (rule cert_step.stored) simp_all
  ultimately have "(cert_step ?made)\<^sup>*\<^sup>* (new_cert_store 1, []) (?st, [])"
    by (metis remove1.simps(2) rtranclp.simps)
  from cert_store_sound [OF this, of "\<lambda>h. Inr h :: (unit, string) result" "''a''"]
  show ?thesis by (cases "fetch (\<lambda>h. Inr h :: (unit, string) result) ''a'' ?st") (auto split: sum.splits)
qed

section \<open>Files\<close>

type_synonym file_mode = "32 word"

record disk_file =
  fi_mode :: file_mode
  fi_data :: string

type_synonym files = "string \<rightharpoonup> disk_file"

text \<open>
  What the operating system does beside the files' contents: faults of \<^verbatim>\<open>Stat\<close> and \<^verbatim>\<open>ReadFile\<close>, the
  umask, and how a write ends: done, refused at the open, or after some bytes.
\<close>

datatype write_outcome = Written | OpenFailed string | CutShort string nat

record os_env =
  oe_stat_fault :: "string \<rightharpoonup> string"
  oe_read_fault :: "string \<rightharpoonup> string"
  oe_write :: "string \<Rightarrow> write_outcome"
  oe_umask :: file_mode

datatype os_error = NotExist | OsError string

definition stat :: "os_env \<Rightarrow> files \<Rightarrow> string \<Rightarrow> (os_error, file_mode) result" where
  "stat env fs path =
     (case oe_stat_fault env path of
        Some e \<Rightarrow> Inl (OsError e)
      | None \<Rightarrow> (case fs path of None \<Rightarrow> Inl NotExist | Some f \<Rightarrow> Inr (fi_mode f)))"

definition read_file :: "os_env \<Rightarrow> files \<Rightarrow> string \<Rightarrow> (os_error, string) result" where
  "read_file env fs path =
     (case oe_read_fault env path of
        Some e \<Rightarrow> Inl (OsError e)
      | None \<Rightarrow> (case fs path of None \<Rightarrow> Inl NotExist | Some f \<Rightarrow> Inr (fi_data f)))"

text \<open>\<^verbatim>\<open>os.WriteFile\<close>: truncates, keeps the mode of a file that exists.\<close>

definition file_with :: "os_env \<Rightarrow> files \<Rightarrow> string \<Rightarrow> string \<Rightarrow> file_mode \<Rightarrow> disk_file" where
  "file_with env fs path data perm =
     \<lparr>fi_mode = (case fs path of None \<Rightarrow> perm AND NOT (oe_umask env) | Some f \<Rightarrow> fi_mode f),
      fi_data = data\<rparr>"

definition write_file ::
  "os_env \<Rightarrow> string \<Rightarrow> string \<Rightarrow> file_mode \<Rightarrow> files \<Rightarrow> os_error option \<times> files" where
  "write_file env path data perm fs =
     (case oe_write env path of
        Written \<Rightarrow> (None, fs(path \<mapsto> file_with env fs path data perm))
      | OpenFailed e \<Rightarrow> (Some (OsError e), fs)
      | CutShort e n \<Rightarrow> (Some (OsError e), fs(path \<mapsto> file_with env fs path (take n data) perm)))"

section \<open>The CA\<close>

datatype ca_error = FromOs os_error | FromCrypto string | WorldReadable string

datatype key_usage = CertSign | CRLSign | DigitalSignature

text \<open>Times relative to the moment of creation: an offset in seconds, and a date offset.\<close>

record ca_template =
  ct_serial :: nat
  ct_common_name :: string
  ct_organization :: "string list"
  ct_not_before :: int
  ct_not_after :: "int \<times> int \<times> int"
  ct_key_usage :: "key_usage list"
  ct_basic_constraints_valid :: bool
  ct_is_ca :: bool

text \<open>Cryptography and PEM, with the randomness already drawn: a key pair is a pair as in \<^verbatim>\<open>X509KeyPair\<close>.\<close>

record 'c crypto_env =
  ce_key :: "(string, string) result"
  ce_serial :: "(string, nat) result"
  ce_certificate :: "ca_template \<Rightarrow> string \<Rightarrow> (string, string) result"
  ce_marshal :: "string \<Rightarrow> (string, string) result"
  ce_pem :: "string \<Rightarrow> string \<Rightarrow> string"
  ce_pair :: "string \<Rightarrow> string \<Rightarrow> (string, 'c) result"

definition ca_template_for :: "nat \<Rightarrow> ca_template" where
  "ca_template_for serial =
     \<lparr>ct_serial = serial, ct_common_name = ''TIP Proxy CA'',
      ct_organization = [''TLS Impersonate Proxy''], ct_not_before = -3600,
      ct_not_after = (10, 0, 0), ct_key_usage = [CertSign, CRLSign, DigitalSignature],
      ct_basic_constraints_valid = True, ct_is_ca = True\<rparr>"

definition write_ca ::
  "os_env \<Rightarrow> 'c crypto_env \<Rightarrow> string \<Rightarrow> string \<Rightarrow> string \<Rightarrow> string \<Rightarrow> files \<Rightarrow>
   (ca_error, 'c) result \<times> files" where
  "write_ca env cr cert_path key_path cert_pem key_pem fs =
     (case write_file env cert_path cert_pem 0x1a4 fs of
        (Some e, fs1) \<Rightarrow> (Inl (FromOs e), fs1)
      | (None, fs1) \<Rightarrow>
          (case write_file env key_path key_pem 0x180 fs1 of
             (Some e, fs2) \<Rightarrow> (Inl (FromOs e), fs2)
           | (None, fs2) \<Rightarrow>
               (case ce_pair cr cert_pem key_pem of
                  Inl e \<Rightarrow> (Inl (FromCrypto e), fs2)
                | Inr ca \<Rightarrow> (Inr ca, fs2))))"

text \<open>The two PEM texts of a new CA.\<close>

definition new_pems :: "'c crypto_env \<Rightarrow> (ca_error, string \<times> string) result" where
  "new_pems cr =
     (case ce_key cr of
        Inl e \<Rightarrow> Inl (FromCrypto e)
      | Inr key \<Rightarrow>
          (case ce_serial cr of
             Inl e \<Rightarrow> Inl (FromCrypto e)
           | Inr serial \<Rightarrow>
               (case ce_certificate cr (ca_template_for serial) key of
                  Inl e \<Rightarrow> Inl (FromCrypto e)
                | Inr der \<Rightarrow>
                    (case ce_marshal cr key of
                       Inl e \<Rightarrow> Inl (FromCrypto e)
                     | Inr key_der \<Rightarrow>
                         Inr (ce_pem cr ''CERTIFICATE'' der, ce_pem cr ''EC PRIVATE KEY'' key_der)))))"

definition create_ca ::
  "os_env \<Rightarrow> 'c crypto_env \<Rightarrow> string \<Rightarrow> string \<Rightarrow> files \<Rightarrow> (ca_error, 'c) result \<times> files" where
  "create_ca env cr cert_path key_path fs =
     (case new_pems cr of
        Inl e \<Rightarrow> (Inl e, fs)
      | Inr (cert_pem, key_pem) \<Rightarrow> write_ca env cr cert_path key_path cert_pem key_pem fs)"

definition load_pair ::
  "os_env \<Rightarrow> 'c crypto_env \<Rightarrow> string \<Rightarrow> string \<Rightarrow> files \<Rightarrow> (ca_error, 'c) result" where
  "load_pair env cr cert_path key_path fs =
     (case read_file env fs cert_path of
        Inl e \<Rightarrow> Inl (FromOs e)
      | Inr cert_pem \<Rightarrow>
          (case read_file env fs key_path of
             Inl e \<Rightarrow> Inl (FromOs e)
           | Inr key_pem \<Rightarrow>
               (case ce_pair cr cert_pem key_pem of
                  Inl e \<Rightarrow> Inl (FromCrypto e)
                | Inr ca \<Rightarrow> Inr ca)))"

definition load_or_create_ca ::
  "os_env \<Rightarrow> 'c crypto_env \<Rightarrow> string \<Rightarrow> string \<Rightarrow> files \<Rightarrow> ((ca_error, 'c) result \<times> bool) \<times> files" where
  "load_or_create_ca env cr cert_path key_path fs =
     (case (stat env fs cert_path, stat env fs key_path) of
        (Inl NotExist, Inl NotExist) \<Rightarrow>
          (case create_ca env cr cert_path key_path fs of (r, fs') \<Rightarrow> ((r, True), fs'))
      | (Inl e, _) \<Rightarrow> ((Inl (FromOs e), False), fs)
      | (Inr _, Inl e) \<Rightarrow> ((Inl (FromOs e), False), fs)
      | (Inr _, Inr mode) \<Rightarrow>
          if mode AND 0x1ff AND 7 \<noteq> 0 then ((Inl (WorldReadable key_path), False), fs)
          else ((load_pair env cr cert_path key_path fs, False), fs))"

text \<open>\<^verbatim>\<open>Fingerprint\<close>: the digest as upper-case pairs.\<close>

fun pairs_from :: "string \<Rightarrow> string list" where
  "pairs_from [] = []"
| "pairs_from [a] = [[a]]"
| "pairs_from (a # b # s) = [a, b] # pairs_from s"

definition fingerprint :: "(string \<Rightarrow> 8 word list) \<Rightarrow> string \<Rightarrow> string" where
  "fingerprint sha der = join '':'' (pairs_from (to_upper (hex_encode (sha der))))"

definition pem_of :: "'c crypto_env \<Rightarrow> string \<Rightarrow> string" where
  "pem_of cr der = ce_pem cr ''CERTIFICATE'' der"

section \<open>What the CA on disk guarantees\<close>

definition no_faults :: "os_env \<Rightarrow> bool" where
  "no_faults env = (oe_stat_fault env = Map.empty \<and> oe_read_fault env = Map.empty)"

lemma write_file_other: "write_file env path data perm fs = (r, fs') \<Longrightarrow> p \<noteq> path \<Longrightarrow> fs' p = fs p"
  by (auto simp: write_file_def split: write_outcome.splits)

lemma write_file_done: "write_file env path data perm fs = (None, fs') \<Longrightarrow>
    fs' = fs(path \<mapsto> file_with env fs path data perm)"
  by (auto simp: write_file_def split: write_outcome.splits)

lemma write_ca_other: "write_ca env cr cp kp cpem kpem fs = (r, fs') \<Longrightarrow> p \<noteq> cp \<Longrightarrow> p \<noteq> kp \<Longrightarrow> fs' p = fs p"
  unfolding write_ca_def
  by (auto dest: write_file_other split: prod.splits option.splits sum.splits) (metis write_file_other)+

lemma create_ca_other: "create_ca env cr cp kp fs = (r, fs') \<Longrightarrow> p \<noteq> cp \<Longrightarrow> p \<noteq> kp \<Longrightarrow> fs' p = fs p"
  by (auto simp: create_ca_def dest: write_ca_other split: sum.splits prod.splits)

lemma create_ca_done:
  assumes "create_ca env cr cp kp fs = (Inr ca, fs')" "fs cp = None" "fs kp = None" "cp \<noteq> kp"
  obtains cpem kpem where
    "fs' = fs(cp \<mapsto> \<lparr>fi_mode = 0x1a4 AND NOT (oe_umask env), fi_data = cpem\<rparr>,
              kp \<mapsto> \<lparr>fi_mode = 0x180 AND NOT (oe_umask env), fi_data = kpem\<rparr>)"
    "ce_pair cr cpem kpem = Inr ca"
proof -
  from assms(1) obtain cpem kpem where "write_ca env cr cp kp cpem kpem fs = (Inr ca, fs')"
    by (auto simp: create_ca_def split: sum.splits prod.splits)
  then obtain fs1 where w: "write_file env cp cpem 0x1a4 fs = (None, fs1)"
    "write_file env kp kpem 0x180 fs1 = (None, fs')" and "ce_pair cr cpem kpem = Inr ca"
    by (auto simp: write_ca_def split: prod.splits option.splits sum.splits)
  with write_file_done [OF w(1)] write_file_done [OF w(2)] assms(2-4) that [of cpem kpem]
  show thesis by (simp add: file_with_def)
qed

lemma private_mode: "(0x180 AND NOT u) AND 0x1ff AND 7 = (0 :: file_mode)"
proof -
  have "(0x180 AND NOT u) AND 0x1ff AND 7 = (0x180 AND 0x1ff AND 7) AND NOT u"
    by (simp only: and.assoc and.commute and.left_commute)
  then show ?thesis by simp
qed

text \<open>
  C19. The CA on disk. A CA is made exactly when neither file exists, so a key is never overwritten, and
  then only the two files change; otherwise nothing does. A CA that is loaded is the pair the files hold,
  and its key is closed to others. A CA that was made is stored with those two files' modes, its
  key private whatever the umask, and every later start loads that same CA.
\<close>

theorem load_or_create_sound:
  assumes load: "load_or_create_ca env cr cp kp fs = ((res, created), fs')" and "cp \<noteq> kp"
  shows "(created \<longleftrightarrow> stat env fs cp = Inl NotExist \<and> stat env fs kp = Inl NotExist) \<and>
    (\<not> created \<longrightarrow> fs' = fs) \<and> (\<forall>p. p \<notin> {cp, kp} \<longrightarrow> fs' p = fs p) \<and>
    (\<forall>ca. res = Inr ca \<and> \<not> created \<longrightarrow> (\<exists>c k. fs cp = Some c \<and> fs kp = Some k \<and>
       fi_mode k AND 0x1ff AND 7 = 0 \<and> ce_pair cr (fi_data c) (fi_data k) = Inr ca)) \<and>
    (\<forall>ca. res = Inr ca \<and> created \<longrightarrow>
       (\<exists>cpem kpem. fs' cp = Some \<lparr>fi_mode = 0x1a4 AND NOT (oe_umask env), fi_data = cpem\<rparr> \<and>
          fs' kp = Some \<lparr>fi_mode = 0x180 AND NOT (oe_umask env), fi_data = kpem\<rparr> \<and>
          ce_pair cr cpem kpem = Inr ca) \<and>
       (\<forall>env'. no_faults env' \<longrightarrow> load_or_create_ca env' cr cp kp fs' = ((Inr ca, False), fs')))"
proof (cases "stat env fs cp = Inl NotExist \<and> stat env fs kp = Inl NotExist")
  case True
  with load have created: "created" and c: "create_ca env cr cp kp fs = (res, fs')"
    by (auto simp: load_or_create_ca_def split: prod.splits)
  from True have none: "fs cp = None" "fs kp = None"
    by (auto simp: stat_def split: option.splits)
  have other: "\<forall>p. p \<notin> {cp, kp} \<longrightarrow> fs' p = fs p" using create_ca_other [OF c] by blast
  have made: "(\<exists>cpem kpem. fs' cp = Some \<lparr>fi_mode = 0x1a4 AND NOT (oe_umask env), fi_data = cpem\<rparr> \<and>
          fs' kp = Some \<lparr>fi_mode = 0x180 AND NOT (oe_umask env), fi_data = kpem\<rparr> \<and>
          ce_pair cr cpem kpem = Inr ca) \<and>
      (no_faults env' \<longrightarrow> load_or_create_ca env' cr cp kp fs' = ((Inr ca, False), fs'))"
    if r: "res = Inr ca" for ca env'
  proof -
    obtain cpem kpem where fs': "fs' = fs(cp \<mapsto> \<lparr>fi_mode = 0x1a4 AND NOT (oe_umask env), fi_data = cpem\<rparr>,
        kp \<mapsto> \<lparr>fi_mode = 0x180 AND NOT (oe_umask env), fi_data = kpem\<rparr>)"
      and pair: "ce_pair cr cpem kpem = Inr ca"
      using create_ca_done [OF c [unfolded r] none assms(2)] by blast
    have "no_faults env' \<Longrightarrow> load_or_create_ca env' cr cp kp fs' = ((Inr ca, False), fs')"
      using assms(2) pair private_mode [of "oe_umask env"]
      by (simp add: load_or_create_ca_def stat_def fs' no_faults_def load_pair_def read_file_def)
    with fs' pair assms(2) show ?thesis by auto
  qed
  with created True other show ?thesis by blast
next
  case False
  with load have "\<not> created" "fs' = fs"
    by (auto simp: load_or_create_ca_def split: sum.splits os_error.splits if_splits)
  moreover have "\<exists>c k. fs cp = Some c \<and> fs kp = Some k \<and> fi_mode k AND 0x1ff AND 7 = 0 \<and>
      ce_pair cr (fi_data c) (fi_data k) = Inr ca" if "res = Inr ca" for ca
    using load that False
    by (auto simp: load_or_create_ca_def load_pair_def read_file_def stat_def
        split: sum.splits os_error.splits if_splits option.splits)
  ultimately show ?thesis using False by blast
qed

text \<open>
  A CA whose certificate could be written and whose key could not leaves the certificate behind, and
  from then on every start fails, with both files never written again.
\<close>

theorem half_written_ca_blocks:
  assumes "stat env fs cp = Inl NotExist" "stat env fs kp = Inl NotExist" "cp \<noteq> kp"
    and "new_pems cr = Inr (cpem, kpem)" "oe_write env cp = Written" "oe_write env kp = OpenFailed e"
  shows "\<exists>fs'. load_or_create_ca env cr cp kp fs = ((Inl (FromOs (OsError e)), True), fs') \<and>
    (\<forall>env' cr'. no_faults env' \<longrightarrow>
       load_or_create_ca env' cr' cp kp fs' = ((Inl (FromOs NotExist), False), fs'))"
proof -
  from assms(2) have "fs kp = None" by (auto simp: stat_def split: option.splits)
  with assms(1-6) show ?thesis
    by (intro exI [of _ "fs(cp \<mapsto> file_with env fs cp cpem 0x1a4)"])
      (auto simp: load_or_create_ca_def create_ca_def write_ca_def write_file_def stat_def [of _ "_(_ \<mapsto> _)"]
        no_faults_def)
qed

definition demo_os :: "(string \<Rightarrow> write_outcome) \<Rightarrow> os_env" where
  "demo_os w = \<lparr>oe_stat_fault = Map.empty, oe_read_fault = Map.empty, oe_write = w, oe_umask = 0x12\<rparr>"

definition demo_crypto :: "(string \<times> string) crypto_env" where
  "demo_crypto =
     \<lparr>ce_key = Inr ''k'', ce_serial = Inr 1, ce_certificate = (\<lambda>t k. Inr ''c''), ce_marshal = Inr,
      ce_pem = (\<lambda>ty der. ty @ der), ce_pair = (\<lambda>c k. Inr (c, k))\<rparr>"

theorem load_or_create_sound_witness:
  "\<exists>fs'. load_or_create_ca (demo_os (\<lambda>_. Written)) demo_crypto ''c.pem'' ''k.pem'' Map.empty =
     ((Inr (''CERTIFICATEc'', ''EC PRIVATE KEYk''), True), fs') \<and>
   load_or_create_ca (demo_os (\<lambda>_. Written)) demo_crypto ''c.pem'' ''k.pem'' fs' =
     ((Inr (''CERTIFICATEc'', ''EC PRIVATE KEYk''), False), fs')"
proof -
  let ?env = "demo_os (\<lambda>_. Written)"
  obtain fs' where load: "load_or_create_ca ?env demo_crypto ''c.pem'' ''k.pem'' Map.empty =
      ((Inr (''CERTIFICATEc'', ''EC PRIVATE KEYk''), True), fs')"
    by (simp add: load_or_create_ca_def stat_def demo_os_def create_ca_def new_pems_def demo_crypto_def
        write_ca_def write_file_def)
  moreover have "no_faults ?env" by (simp add: no_faults_def demo_os_def)
  ultimately show ?thesis using load_or_create_sound [OF load] by auto
qed

theorem half_written_ca_blocks_witness:
  "\<exists>fs'. load_or_create_ca (demo_os (\<lambda>_. Written)) demo_crypto ''c.pem'' ''k.pem'' fs' =
     ((Inl (FromOs NotExist), False), fs')"
proof -
  let ?env = "demo_os (\<lambda>p. if p = ''c.pem'' then Written else OpenFailed ''permission denied'')"
  have "stat ?env Map.empty p = Inl NotExist" for p by (simp add: stat_def demo_os_def)
  moreover have "new_pems demo_crypto = Inr (''CERTIFICATEc'', ''EC PRIVATE KEYk'')"
    by (simp add: new_pems_def demo_crypto_def)
  moreover have "no_faults (demo_os (\<lambda>_. Written))" by (simp add: no_faults_def demo_os_def)
  ultimately show ?thesis
    using half_written_ca_blocks [of ?env Map.empty "''c.pem''" "''k.pem''" demo_crypto]
    by (fastforce simp: demo_os_def)
qed

section \<open>Fingerprints\<close>

definition byte_pair :: "8 word \<Rightarrow> string" where
  "byte_pair b = to_upper [hex_digit (unat b div 16), hex_digit (unat b mod 16)]"

definition pair_value :: "string \<Rightarrow> 8 word" where
  "pair_value p = of_nat (16 * hex_val (lower_char (p ! 0)) + hex_val (lower_char (p ! 1)))"

lemma byte_nibbles: "unat (b :: 8 word) div 16 < 16" "unat b mod 16 < 16"
proof -
  have "unat b < 256" using unsigned_less [of b] by simp
  then show "unat b div 16 < 16" by (simp add: less_mult_imp_div_less)
qed simp

lemma lower_hex_digit: "n < 16 \<Longrightarrow> lower_char (hex_digit n) = hex_digit n"
  by (simp add: hex_digit_hex is_hex_lower_char)

lemma pair_value_byte_pair: "pair_value (byte_pair b) = b"
proof -
  have "pair_value (byte_pair b) = of_nat (16 * (unat b div 16) + unat b mod 16)"
    using byte_nibbles [of b] by (simp add: pair_value_def byte_pair_def to_upper_def lower_hex_digit)
  then show ?thesis by simp
qed

lemma pairs_hex: "pairs_from (to_upper (hex_encode bs)) = map byte_pair bs"
  by (induction bs) (simp_all add: hex_encode_def byte_pair_def to_upper_def)

lemma colon_not_hex: "CHR '':'' \<notin> set (byte_pair b)"
proof
  assume "CHR '':'' \<in> set (byte_pair b)"
  then have "\<exists>n<16. CHR '':'' = upper_char (hex_digit n)"
    using byte_nibbles [of b]
    by (auto simp: byte_pair_def to_upper_def intro: exI [of _ "unat b div 16"] exI [of _ "unat b mod 16"])
  then obtain n where n: "n < 16" "CHR '':'' = upper_char (hex_digit n)" by blast
  then have "lower_char CHR '':'' = hex_digit n" by (simp add: lower_hex_digit)
  then have "is_hex_lower (lower_char CHR '':'')" using hex_digit_hex [OF n(1)] by simp
  moreover have "\<not> is_hex_lower (lower_char CHR '':'')" by code_simp
  ultimately show False by simp
qed

text \<open>
  The fingerprint shown for a CA is its digest: splitting it at the colons and reading each pair as
  a hexadecimal number gives the digest back, so different digests have different fingerprints.
\<close>

theorem fingerprint_reads_back:
  assumes "sha der \<noteq> []"
  shows "map pair_value (split_on CHR '':'' (fingerprint sha der)) = sha der \<and>
    length (fingerprint sha der) = 3 * length (sha der) - 1"
proof -
  have "split_on CHR '':'' (fingerprint sha der) = map byte_pair (sha der)"
    using assms unfolding fingerprint_def pairs_hex
    by (intro split_on_join) (auto simp: colon_not_hex)
  moreover have "length (join '':'' (map byte_pair bs)) = 3 * length bs - 1" for bs
  proof (induction bs)
    case (Cons b bs)
    then show ?case by (cases bs) (simp_all add: byte_pair_def to_upper_def)
  qed simp
  ultimately show ?thesis by (simp add: pair_value_byte_pair fingerprint_def pairs_hex comp_def)
qed

theorem fingerprint_reads_back_witness: "length (fingerprint (\<lambda>_. [0xab, 7]) ''der'') = 5"
  using fingerprint_reads_back [of "\<lambda>_. [0xab, 7]" "''der''"] by simp

end
