(* ===== verification/Tip_Load.thy ===== *)
theory Tip_Load
  imports Tip_Config Tip_Parse Tip_Stores
begin

text \<open>
  How a configuration file is loaded (\<^verbatim>\<open>internal/config/load.go\<close>). The file system, the YAML library and the
  validation library are arguments; \<open>config_runs\<close> is what the last promises: that it reads the document by
  the schema of \<^theory_text>\<open>Tip_Config\<close>.
\<close>

section \<open>What the validation library reads\<close>

text \<open>
  The values of a field, and those of a configuration in the order of the schema. Of the lists only the
  redacted headers tell a nil slice (\<open>None\<close>) from an empty one.
\<close>

datatype cvalue =
    VText string
  | VInt int
  | VFlag bool
  | VTexts "string list option"
  | VTextMap "(string \<times> string) list"
  | VRecords "(string \<times> cvalue) list list"
  | VFields "(string \<times> cvalue) list"

definition text_list :: "string list \<Rightarrow> cvalue" where
  "text_list xs = VTexts (if xs = [] then None else Some xs)"

definition route_values :: "config_route \<Rightarrow> (string \<times> cvalue) list" where
  "route_values r =
     [(''name'', VText (ro_name r)), (''host'', VText (ro_host r)), (''path'', VText (ro_path r)),
      (''capture'', text_list (ro_capture r))]"

definition config_values :: "config \<Rightarrow> (string \<times> cvalue) list" where
  "config_values cfg =
     [(''server'', VFields
        [(''listen'', VText (sc_listen (cf_server cfg))),
         (''maxConnections'', VInt (sc_max_connections (cf_server cfg))),
         (''readHeaderTimeout'', VInt (sc_read_header_timeout (cf_server cfg))),
         (''idleTimeout'', VInt (sc_idle_timeout (cf_server cfg))),
         (''maxHeaderBytes'', VInt (sc_max_header_bytes (cf_server cfg))),
         (''shutdownGrace'', VInt (sc_shutdown_grace (cf_server cfg))),
         (''serveCa'', VFlag (sc_serve_ca (cf_server cfg))),
         (''serveProfiles'', VFlag (sc_serve_profiles (cf_server cfg)))]),
      (''tls'', VFields
        [(''caCert'', VText (tc_ca_cert (cf_tls cfg))), (''caKey'', VText (tc_ca_key (cf_tls cfg))),
         (''certCacheSize'', VInt (tc_cert_cache_size (cf_tls cfg))),
         (''clientHttp2'', VFlag (tc_client_http2 (cf_tls cfg)))]),
      (''upstream'', VFields
        [(''verifyCertificates'', VFlag (uc_verify_certificates (cf_upstream cfg))),
         (''timeout'', VInt (uc_timeout (cf_upstream cfg)))]),
      (''directives'', VFields
        [(''defaults'', VTextMap (dc_defaults (cf_directives cfg))),
         (''deny'', text_list (dc_deny (cf_directives cfg))),
         (''proxyHosts'', text_list (dc_proxy_hosts (cf_directives cfg))),
         (''requireProxy'', VFlag (dc_require_proxy (cf_directives cfg)))]),
      (''clients'', VFields
        [(''max'', VInt (cc_max (cf_clients cfg))), (''idleTtl'', VInt (cc_idle_ttl (cf_clients cfg)))]),
      (''encoding'', VFields [(''mode'', VText (ec_mode (cf_encoding cfg)))]),
      (''auth'', VFields
        [(''realm'', VText (ac_realm (cf_auth cfg))), (''users'', VTextMap (ac_users (cf_auth cfg)))]),
      (''logging'', VFields
        [(''level'', VText (lc_level (cf_logging cfg))), (''format'', VText (lc_format (cf_logging cfg))),
         (''redact'', VTexts (lc_redact (cf_logging cfg)))]),
      (''metrics'', VFields
        [(''enabled'', VFlag (mc_enabled (cf_metrics cfg))),
         (''listen'', VText (mc_listen (cf_metrics cfg))),
         (''path'', VText (mc_path (cf_metrics cfg))),
         (''collectors'', VFields
           [(''requests'', VFlag (co_requests (mc_collectors (cf_metrics cfg)))),
            (''latency'', VFlag (co_latency (mc_collectors (cf_metrics cfg)))),
            (''bandwidth'', VFlag (co_bandwidth (mc_collectors (cf_metrics cfg)))),
            (''upstreamErrors'', VFlag (co_upstream_errors (mc_collectors (cf_metrics cfg)))),
            (''validationErrors'', VFlag (co_validation_errors (mc_collectors (cf_metrics cfg)))),
            (''clients'', VFlag (co_clients (mc_collectors (cf_metrics cfg)))),
            (''tunnels'', VFlag (co_tunnels (mc_collectors (cf_metrics cfg))))]),
         (''routes'', VRecords (map route_values (mc_routes (cf_metrics cfg))))])]"

text \<open>The tests, on a text and on a number.\<close>

fun text_test :: "ctest \<Rightarrow> string \<Rightarrow> bool" where
  "text_test (MinLen n) s = (n \<le> length s)"
| "text_test (AmongTexts xs) s = (s \<in> set xs)"
| "text_test (StartsWith p) s = has_prefix p s"
| "text_test IsHostPort s = host_port s"
| "text_test IsRouteName s = route_name s"
| "text_test IsLabelName s = label_name s"
| "text_test _ s = True"

fun int_test :: "ctest \<Rightarrow> int \<Rightarrow> bool" where
  "int_test (AtLeast b) n = (b \<le> n)"
| "int_test (MoreThan b) n = (b < n)"
| "int_test _ n = True"

definition passes :: "ctest list \<Rightarrow> string \<Rightarrow> bool" where
  "passes ts s = list_all (\<lambda>t. text_test t s) ts"

text \<open>The entry of a key, by its tag; a null is no entry, and neither has one what is no mapping.\<close>

fun entries_of :: "yaml option \<Rightarrow> (string \<times> yaml) list" where
  "entries_of (Some (YMap doc)) = doc"
| "entries_of _ = []"

definition entry_of :: "(string \<times> yaml) list \<Rightarrow> string \<Rightarrow> yaml option" where
  "entry_of doc key =
     (case map_of doc (snake key) of Some YNull \<Rightarrow> None | found \<Rightarrow> found)"

definition items_of :: "yaml option \<Rightarrow> yaml list" where
  "items_of raw = (case raw of None \<Rightarrow> [] | Some (YList items) \<Rightarrow> items | Some y \<Rightarrow> [y])"

text \<open>
  \<open>reads f raw v\<close>: a run without issues may leave \<open>v\<close> in a field of schema \<open>f\<close> when the document has
  \<open>raw\<close> there. An absent field takes its default, or the zero value; one that is there is converted (which
  is the library's, but for the durations) and tested.
\<close>

fun reads :: "(nat \<Rightarrow> nat \<Rightarrow> nat \<Rightarrow> nat) \<Rightarrow> cfield \<Rightarrow> yaml option \<Rightarrow> cvalue \<Rightarrow> bool"
  and reads_fields :: "(nat \<Rightarrow> nat \<Rightarrow> nat \<Rightarrow> nat) \<Rightarrow> (string \<times> cfield) list \<Rightarrow> (string \<times> yaml) list \<Rightarrow>
      (string \<times> cvalue) list \<Rightarrow> bool"
  and reads_records :: "(nat \<Rightarrow> nat \<Rightarrow> nat \<Rightarrow> nat) \<Rightarrow> (string \<times> cfield) list \<Rightarrow> yaml list \<Rightarrow>
      (string \<times> cvalue) list list \<Rightarrow> bool" where
  "reads frac (CString def ts) raw v =
     (case v of
        VText s \<Rightarrow>
          (case raw of
             None \<Rightarrow> s = (case def of None \<Rightarrow> [] | Some d \<Rightarrow> d)
           | Some _ \<Rightarrow> def = Some s \<or> passes ts s)
      | _ \<Rightarrow> False)"
| "reads frac (CRequired ts) raw v = (case v of VText s \<Rightarrow> raw \<noteq> None \<and> passes ts s | _ \<Rightarrow> False)"
| "reads frac (CInt def ts) raw v =
     (case v of
        VInt n \<Rightarrow>
          (case raw of
             None \<Rightarrow> n = (case def of None \<Rightarrow> 0 | Some d \<Rightarrow> d)
           | Some _ \<Rightarrow> list_all (\<lambda>t. int_test t n) ts)
      | _ \<Rightarrow> False)"
| "reads frac (CDuration def ts) raw v =
     (case v of
        VInt n \<Rightarrow>
          (case raw of
             None \<Rightarrow> n = (case def of None \<Rightarrow> 0 | Some d \<Rightarrow> d)
           | Some y \<Rightarrow> config_duration frac y = Inr n \<and> list_all (\<lambda>t. int_test t n) ts)
      | _ \<Rightarrow> False)"
| "reads frac (CFlag def) raw v =
     (case v of
        VFlag b \<Rightarrow> (case raw of None \<Rightarrow> b = def | Some (YBool b') \<Rightarrow> b = b' | Some _ \<Rightarrow> True)
      | _ \<Rightarrow> False)"
| "reads frac (CStrings ts) raw v =
     (case v of
        VTexts None \<Rightarrow> items_of raw = []
      | VTexts (Some ss) \<Rightarrow>
          raw \<noteq> None \<and> length ss = length (items_of raw) \<and> list_all (passes ts) ss
      | _ \<Rightarrow> False)"
| "reads frac (CStringMap kts vts) raw v =
     (case v of
        VTextMap m \<Rightarrow>
          (if raw = None then m = []
           else list_all (\<lambda>(k, x). passes kts k \<and> passes vts x) m)
      | _ \<Rightarrow> False)"
| "reads frac (CRecords fs) raw v =
     (case v of VRecords rs \<Rightarrow> reads_records frac fs (items_of raw) rs | _ \<Rightarrow> False)"
| "reads frac (CStruct fs) raw v =
     (case v of VFields vs \<Rightarrow> reads_fields frac fs (entries_of raw) vs | _ \<Rightarrow> False)"
| "reads_fields frac [] doc [] = True"
| "reads_fields frac ((k, f) # fs) doc ((k', v) # vs) =
     (k = k' \<and> reads frac f (entry_of doc k) v \<and> reads_fields frac fs doc vs)"
| "reads_fields frac _ doc _ = False"
| "reads_records frac fs [] [] = True"
| "reads_records frac fs (item # items) (r # rs) =
     (reads_fields frac fs (entries_of (Some item)) r \<and> reads_records frac fs items rs)"
| "reads_records frac fs _ _ = False"

text \<open>
  The library's promise: a configuration without issues was read by the schema. The redacted
  headers of a document without the key stay nil.
\<close>

type_synonym config_zog = "(string \<times> yaml) list \<Rightarrow> config \<times> zissue list"

definition config_runs :: "(nat \<Rightarrow> nat \<Rightarrow> nat \<Rightarrow> nat) \<Rightarrow> config_zog \<Rightarrow> bool" where
  "config_runs frac zog \<longleftrightarrow>
     (\<forall>doc. snd (zog doc) = [] \<longrightarrow> reads_fields frac config_schema doc (config_values (fst (zog doc))))"

section \<open>Loading\<close>

text \<open>\<open>flatten\<close> is the library's rendering of an issue's path.\<close>

definition invalid_text :: "(string list \<Rightarrow> string) \<Rightarrow> zissue list \<Rightarrow> string" where
  "invalid_text flatten issues =
     join [newline]
       (map (\<lambda>z. (if flatten (z_path z) = [] then ''config'' else flatten (z_path z)) @ '': '' @ z_message z)
         issues)"

datatype load_error =
    NotRead os_error
  | NotYaml string string
  | UnknownKeys string "string list"
  | InvalidConfig "zissue list"

definition load_text :: "(os_error \<Rightarrow> string) \<Rightarrow> (string list \<Rightarrow> string) \<Rightarrow> load_error \<Rightarrow> string" where
  "load_text os_text flatten e =
     (case e of
        NotRead err \<Rightarrow> os_text err
      | NotYaml path err \<Rightarrow> path @ '': '' @ err
      | UnknownKeys path ks \<Rightarrow> path @ '': unknown keys: '' @ join '', '' ks
      | InvalidConfig issues \<Rightarrow> invalid_text flatten issues)"

text \<open>
  \<open>unyaml\<close> is \<^verbatim>\<open>yaml.Unmarshal\<close> into a map, which a document that is null leaves nil.
\<close>

type_synonym unmarshal = "string \<Rightarrow> (string, (string \<times> yaml) list option) result"

definition load :: "os_env \<Rightarrow> files \<Rightarrow> unmarshal \<Rightarrow> config_zog \<Rightarrow> string \<Rightarrow> (load_error, config) result" where
  "load env fs unyaml zog path =
     (case read_file env fs path of
        Inl err \<Rightarrow> Inl (NotRead err)
      | Inr raw \<Rightarrow>
          (case unyaml raw of
             Inl err \<Rightarrow> Inl (NotYaml path err)
           | Inr found \<Rightarrow>
               let doc = (case found of None \<Rightarrow> [] | Some doc \<Rightarrow> doc);
                   unknown = unknown_keys doc config_type []
               in if unknown \<noteq> [] then Inl (UnknownKeys path unknown)
                  else (case zog doc of (cfg, issues) \<Rightarrow>
                    if issues \<noteq> [] then Inl (InvalidConfig issues)
                    else Inr (if lc_redact (cf_logging cfg) = None
                              then cfg\<lparr>cf_logging := (cf_logging cfg)\<lparr>lc_redact := Some default_redact\<rparr>\<rparr>
                              else cfg))))"

unbundle bit_operations_syntax

definition permissive :: "os_env \<Rightarrow> files \<Rightarrow> string \<Rightarrow> bool \<times> os_error option" where
  "permissive env fs path =
     (case stat env fs path of
        Inl err \<Rightarrow> (False, Some err)
      | Inr mode \<Rightarrow> (mode AND 0x1ff AND 63 \<noteq> 0, None))"

section \<open>What a loaded configuration is\<close>

definition route_fit :: "config_route \<Rightarrow> bool" where
  "route_fit r \<longleftrightarrow>
     route_name (ro_name r) \<and> ro_host r \<noteq> [] \<and> has_prefix ''/'' (ro_path r) \<and>
     list_all label_name (ro_capture r)"

definition config_ok :: "config \<Rightarrow> bool" where
  "config_ok cfg \<longleftrightarrow>
     (let s = cf_server cfg in host_port (sc_listen s) \<and> 0 \<le> sc_max_connections s \<and>
        0 < sc_read_header_timeout s \<and> 0 < sc_idle_timeout s \<and> 0 < sc_max_header_bytes s \<and> 0 < sc_shutdown_grace s) \<and>
     (let t = cf_tls cfg in tc_ca_cert t \<noteq> [] \<and> tc_ca_key t \<noteq> [] \<and> 0 < tc_cert_cache_size t) \<and>
     0 < uc_timeout (cf_upstream cfg) \<and>
     0 < cc_max (cf_clients cfg) \<and> 0 < cc_idle_ttl (cf_clients cfg) \<and>
     ec_mode (cf_encoding cfg) \<in> {''negotiate'', ''decode'', ''passthrough''} \<and>
     list_all (\<lambda>d. d \<noteq> []) (dc_deny (cf_directives cfg) @ dc_proxy_hosts (cf_directives cfg)) \<and>
     ac_realm (cf_auth cfg) \<noteq> [] \<and> list_all (\<lambda>(user, password). user \<noteq> [] \<and> password \<noteq> []) (ac_users (cf_auth cfg)) \<and>
     lc_level (cf_logging cfg) \<in> {''debug'', ''info'', ''warn'', ''error''} \<and>
     lc_format (cf_logging cfg) \<in> {''json'', ''text''} \<and>
     host_port (mc_listen (cf_metrics cfg)) \<and> has_prefix ''/'' (mc_path (cf_metrics cfg)) \<and>
     list_all route_fit (mc_routes (cf_metrics cfg))"

text \<open>A default that meets the tests makes the field meet them whether it is given or not.\<close>

lemma reads_positive:
  "reads frac (CInt (Some d) [MoreThan 0]) raw (VInt n) \<Longrightarrow> 0 < d \<Longrightarrow> 0 < n"
  "reads frac (CDuration (Some d) [MoreThan 0]) raw (VInt n) \<Longrightarrow> 0 < d \<Longrightarrow> 0 < n"
  by (cases raw; simp)+

lemma reads_at_least: "reads frac (CInt None [AtLeast 0]) raw (VInt n) \<Longrightarrow> 0 \<le> n"
  by (cases raw) simp_all

lemma reads_text: "reads frac (CString (Some d) ts) raw (VText s) \<Longrightarrow> passes ts d \<Longrightarrow> passes ts s"
  by (cases raw) auto

lemma reads_nonempty: "reads frac (CString (Some d) [MinLen 1]) raw (VText s) \<Longrightarrow> d \<noteq> [] \<Longrightarrow> s \<noteq> []"
  by (drule reads_text) (auto simp: passes_def Suc_le_eq)

lemma reads_among: "reads frac (CString (Some d) [AmongTexts xs]) raw (VText s) \<Longrightarrow> set xs = A \<Longrightarrow> d \<in> A \<Longrightarrow> s \<in> A"
  by (drule reads_text) (auto simp: passes_def)

lemma reads_listen: "reads frac (CString (Some d) [IsHostPort]) raw (VText s) \<Longrightarrow> host_port d \<Longrightarrow> host_port s"
  by (drule reads_text) (auto simp: passes_def)

lemma reads_prefix: "reads frac (CString (Some d) [StartsWith p]) raw (VText s) \<Longrightarrow> has_prefix p d \<Longrightarrow> has_prefix p s"
  by (drule reads_text) (auto simp: passes_def)

lemma reads_string_map:
  "reads frac string_map raw (VTextMap m) \<Longrightarrow> list_all (\<lambda>(k, v). k \<noteq> [] \<and> v \<noteq> []) m"
  by (auto simp: string_map_def passes_def list_all_iff split: if_splits)

lemma reads_strings: "reads frac (CStrings [MinLen 1]) raw (text_list xs) \<Longrightarrow> list_all (\<lambda>x. x \<noteq> []) xs"
  by (auto simp: text_list_def passes_def list_all_iff split: if_splits)

lemma reads_absent_texts: "reads frac (CStrings ts) raw (VTexts xs) \<Longrightarrow> raw = None \<Longrightarrow> xs = None"
  by (cases xs) simp_all

lemma reads_struct: "reads frac (CStruct fs) raw (VFields vs) = reads_fields frac fs (entries_of raw) vs"
  by simp

lemma reads_records_each: "reads_records frac fs items rs \<Longrightarrow> r \<in> set rs \<Longrightarrow> \<exists>doc. reads_fields frac fs doc r"
proof (induction items arbitrary: rs)
  case Nil
  then show ?case by (cases rs) auto
next
  case (Cons item items)
  then obtain r' rs' where "rs = r' # rs'" by (cases rs) auto
  with Cons show ?case by auto
qed

lemma default_listens: "host_port '':8080''" "host_port '':9090''"
proof -
  have "split_host_port '':8080'' = Some ([], ''8080'')" "split_host_port '':9090'' = Some ([], ''9090'')"
    by code_simp+
  then show "host_port '':8080''" "host_port '':9090''" by (simp_all add: host_port_def)
qed

lemma route_values_fit:
  assumes "reads_fields frac [(''name'', CRequired [IsRouteName]), (''host'', CRequired [MinLen 1]),
      (''path'', CRequired [StartsWith ''/'']), (''capture'', CStrings [IsLabelName])] doc (route_values r)"
  shows "route_fit r"
  using assms
  by (auto simp: route_values_def route_fit_def text_list_def passes_def list_all_iff split: if_splits)

lemma reads_routes:
  assumes "reads frac (CRecords [(''name'', CRequired [IsRouteName]), (''host'', CRequired [MinLen 1]),
      (''path'', CRequired [StartsWith ''/'']), (''capture'', CStrings [IsLabelName])]) raw (VRecords (map route_values rs))"
  shows "list_all route_fit rs"
proof -
  from assms have each: "reads_records frac [(''name'', CRequired [IsRouteName]), (''host'', CRequired [MinLen 1]),
      (''path'', CRequired [StartsWith ''/'']), (''capture'', CStrings [IsLabelName])] (items_of raw) (map route_values rs)"
    by (simp only: reads.simps cvalue.case)
  have "route_fit r" if "r \<in> set rs" for r
  proof -
    from that have "route_values r \<in> set (map route_values rs)" by simp
    from reads_records_each [OF each this] show ?thesis by (elim exE) (rule route_values_fit)
  qed
  then show ?thesis by (simp add: list_all_iff)
qed

lemma config_values_ok:
  assumes "reads_fields frac config_schema doc (config_values cfg)"
  shows "config_ok cfg"
  using assms
  unfolding config_schema_def config_values_def listen_addr_def reads_fields.simps reads_struct config_ok_def Let_def list_all_append
  by (elim conjE, intro conjI)
    ((erule reads_positive, simp (no_asm) add: second_def) | erule reads_at_least
      | (erule reads_nonempty, simp (no_asm)) | (erule reads_listen, rule default_listens)
      | (erule reads_prefix, simp (no_asm) add: has_prefix_def)
      | (erule reads_among, simp (no_asm), simp (no_asm)) | erule reads_routes | erule reads_string_map | erule reads_strings)+

lemma config_values_redact:
  assumes "reads_fields frac config_schema doc (config_values cfg)"
    and "entry_of (entries_of (entry_of doc ''logging'')) ''redact'' = None"
  shows "lc_redact (cf_logging cfg) = None"
  using assms(1)
  unfolding config_schema_def config_values_def listen_addr_def reads_fields.simps reads_struct
  by (elim conjE) (erule reads_absent_texts [OF _ assms(2)])

lemma config_ok_redact: "config_ok (cfg\<lparr>cf_logging := (cf_logging cfg)\<lparr>lc_redact := xs\<rparr>\<rparr>) = config_ok cfg"
  by (simp add: config_ok_def Let_def)

lemma load_Inr:
  assumes "load env fs unyaml zog path = Inr cfg"
  obtains raw found where "read_file env fs path = Inr raw" "unyaml raw = Inr found"
    "unknown_keys (case found of None \<Rightarrow> [] | Some doc \<Rightarrow> doc) config_type [] = []"
    "snd (zog (case found of None \<Rightarrow> [] | Some doc \<Rightarrow> doc)) = []"
    "cfg = (let c = fst (zog (case found of None \<Rightarrow> [] | Some doc \<Rightarrow> doc)) in
            if lc_redact (cf_logging c) = None
            then c\<lparr>cf_logging := (cf_logging c)\<lparr>lc_redact := Some default_redact\<rparr>\<rparr> else c)"
  using assms
  by (auto simp: load_def Let_def split: sum.splits if_splits prod.splits)

definition document_of :: "(string \<times> yaml) list option \<Rightarrow> (string \<times> yaml) list" where
  "document_of found = (case found of None \<Rightarrow> [] | Some doc \<Rightarrow> doc)"

lemma load_reads:
  assumes runs: "config_runs frac zog" and ok: "load env fs unyaml zog path = Inr cfg"
  obtains raw found where "read_file env fs path = Inr raw" "unyaml raw = Inr found"
    "\<forall>p. \<not> unknown_at (document_of found) config_type [] p"
    "config_ok cfg" "lc_redact (cf_logging cfg) \<noteq> None"
    "entry_of (entries_of (entry_of (document_of found) ''logging'')) ''redact'' = None \<Longrightarrow>
       lc_redact (cf_logging cfg) = Some default_redact"
proof -
  from load_Inr [OF ok, folded document_of_def] obtain raw found where
    r: "read_file env fs path = Inr raw" "unyaml raw = Inr found"
    and none: "unknown_keys (document_of found) config_type [] = []"
    and zog: "snd (zog (document_of found)) = []"
    and cfg: "cfg = (let c = fst (zog (document_of found)) in
            if lc_redact (cf_logging c) = None
            then c\<lparr>cf_logging := (cf_logging c)\<lparr>lc_redact := Some default_redact\<rparr>\<rparr> else c)" .
  from none unknown_keys_set(1) [of "document_of found" config_type "[]"]
  have unknown: "\<forall>p. \<not> unknown_at (document_of found) config_type [] p" by auto
  from runs zog have reads: "reads_fields frac config_schema (document_of found) (config_values (fst (zog (document_of found))))"
    unfolding config_runs_def by blast
  have "config_ok cfg" using config_values_ok [OF reads] by (simp add: cfg Let_def config_ok_redact)
  moreover have "lc_redact (cf_logging cfg) \<noteq> None" by (simp add: cfg Let_def)
  moreover have "lc_redact (cf_logging cfg) = Some default_redact"
    if "entry_of (entries_of (entry_of (document_of found) ''logging'')) ''redact'' = None"
    using config_values_redact [OF reads that] by (simp add: cfg Let_def)
  ultimately show ?thesis by (rule that [OF r unknown])
qed

lemma load_ok: "config_runs frac zog \<Longrightarrow> load env fs unyaml zog path = Inr cfg \<Longrightarrow> config_ok cfg"
  by (erule load_reads)

text \<open>
  C7. A configuration that loads is one the components can be started with: every key of the file is known, at
  every level, every timeout, limit and cache size is positive, the encoding mode, the log level
  and the log format are ones the program has, the addresses split into host and port, and every
  route has a name, a host, a path and captures of the right form. No user has an empty name or password. Redaction is never nil: a file that does not speak of it
  gets the four headers that carry credentials.
\<close>

theorem load_sound:
  assumes runs: "config_runs frac zog" and ok: "load env fs unyaml zog path = Inr cfg"
  shows "config_ok cfg \<and> lc_redact (cf_logging cfg) \<noteq> None \<and>
    (\<exists>raw found. read_file env fs path = Inr raw \<and> unyaml raw = Inr found \<and>
       (\<forall>p. \<not> unknown_at (document_of found) config_type [] p) \<and>
       (entry_of (entries_of (entry_of (document_of found) ''logging'')) ''redact'' = None \<longrightarrow>
          lc_redact (cf_logging cfg) = Some default_redact))"
  by (rule load_reads [OF runs ok]) (intro conjI exI impI)

section \<open>A small file\<close>

definition demo_document :: "(string \<times> yaml) list" where
  "demo_document = [(''clients'', YMap [(''max'', YInt 2), (''idle_ttl'', YStr ''30s'')])]"

definition demo_config :: config where
  "demo_config =
     \<lparr>cf_server = \<lparr>sc_listen = '':8080'', sc_max_connections = 0, sc_read_header_timeout = 10 * second,
        sc_idle_timeout = 90 * second, sc_max_header_bytes = 1048576, sc_shutdown_grace = 15 * second,
        sc_serve_ca = True, sc_serve_profiles = True\<rparr>,
      cf_tls = \<lparr>tc_ca_cert = ''./ca.pem'', tc_ca_key = ''./ca.key'', tc_cert_cache_size = 4096,
        tc_client_http2 = False\<rparr>,
      cf_upstream = \<lparr>uc_verify_certificates = False, uc_timeout = 30 * second\<rparr>,
      cf_directives = \<lparr>dc_defaults = [], dc_deny = [], dc_proxy_hosts = [], dc_require_proxy = False\<rparr>,
      cf_clients = \<lparr>cc_max = 2, cc_idle_ttl = 30 * second\<rparr>,
      cf_encoding = \<lparr>ec_mode = ''negotiate''\<rparr>,
      cf_auth = \<lparr>ac_realm = ''tip'', ac_users = []\<rparr>,
      cf_logging = \<lparr>lc_level = ''info'', lc_format = ''json'', lc_redact = None\<rparr>,
      cf_metrics = \<lparr>mc_enabled = True, mc_listen = '':9090'', mc_path = ''/metrics'',
        mc_collectors = \<lparr>co_requests = True, co_latency = True, co_bandwidth = True, co_upstream_errors = True,
          co_validation_errors = True, co_clients = True, co_tunnels = True\<rparr>,
        mc_routes = []\<rparr>\<rparr>"

definition demo_config_zog :: config_zog where
  "demo_config_zog doc =
     (demo_config, if doc = demo_document then [] else [\<lparr>z_path = [], z_message = []\<rparr>])"

lemma demo_snake:
  "snake ''server'' = ''server''" "snake ''tls'' = ''tls''" "snake ''upstream'' = ''upstream''"
  "snake ''directives'' = ''directives''" "snake ''clients'' = ''clients''" "snake ''encoding'' = ''encoding''"
  "snake ''auth'' = ''auth''" "snake ''logging'' = ''logging''" "snake ''metrics'' = ''metrics''"
  "snake ''max'' = ''max''" "snake ''idleTtl'' = ''idle_ttl''"
  by code_simp+

lemma demo_idle: "parse_duration (\<lambda>_ _ _. 0) ''30s'' = Some 30000000000"
proof -
  have "itoa 30 = ''30''" by code_simp
  with duration_whole [of "''s''" 1000000000 30 "\<lambda>_ _ _. 0"] show ?thesis by (simp add: duration_units_def)
qed

lemma demo_config_runs: "config_runs (\<lambda>_ _ _. 0) demo_config_zog"
proof -
  have "reads_fields (\<lambda>_ _ _. 0) config_schema demo_document (config_values demo_config)"
    by (simp add: config_schema_def config_values_def demo_config_def demo_document_def listen_addr_def string_map_def
        entry_of_def items_of_def text_list_def demo_snake config_duration_def demo_idle second_def)
  then show ?thesis by (simp add: config_runs_def demo_config_zog_def)
qed

definition demo_config_files :: files where
  "demo_config_files = [''tip.yaml'' \<mapsto> \<lparr>fi_mode = 0x180, fi_data = ''clients: {max: 2, idle_ttl: 30s}''\<rparr>]"

definition demo_unyaml :: unmarshal where
  "demo_unyaml raw = Inr (Some demo_document)"

lemma demo_load:
  "load (demo_os (\<lambda>_. Written)) demo_config_files demo_unyaml demo_config_zog ''tip.yaml'' =
     Inr (demo_config\<lparr>cf_logging := (cf_logging demo_config)\<lparr>lc_redact := Some default_redact\<rparr>\<rparr>)"
  by (simp add: load_def read_file_def demo_os_def demo_config_files_def demo_unyaml_def Let_def demo_document_def
      config_type_def) (simp add: demo_config_zog_def demo_document_def demo_config_def)

theorem load_sound_witness:
  "\<exists>cfg. load (demo_os (\<lambda>_. Written)) demo_config_files demo_unyaml demo_config_zog ''tip.yaml'' = Inr cfg \<and>
     config_ok cfg \<and> cc_max (cf_clients cfg) = 2 \<and> lc_redact (cf_logging cfg) = Some default_redact"
  using load_sound [OF demo_config_runs demo_load] demo_load by (auto simp: demo_config_def)

end
