(* ===== verification/Tip_Build.thy ===== *)
theory Tip_Build
  imports Tip_Catalogue
begin

text \<open>
  Building a client from a spec (\<^verbatim>\<open>internal/impersonate/build.go\<close>). The builder belongs to
  surf: what \<^verbatim>\<open>Build\<close> makes it do is the sequence of calls it makes, and surf's own
  \<^verbatim>\<open>Build\<close> an argument. A nil map entry that is called or a nil pointer that is read is a panic.
\<close>

section \<open>Builder calls\<close>

datatype build_op =
    OpOs string | OpBase base_kind | OpHeaders "(string \<times> string) list"
  | OpJa string
  | OpHttp2 string u32 | OpHttp2Set
  | OpHttp3 string u64 | OpHttp3Grease | OpHttp3Set
  | OpProxy string | OpHop url
  | OpDns string | OpDotProvider string | OpDotAdd string "string list"
  | OpInterface string | OpSecureTls | OpNoKeepAlive | OpH2c
  | OpForceHttp nat | OpNoCompression | OpHeaderTimeout int | OpFinalize

datatype build_error =
    UnknownBrowser string | OsUnavailable string string | UnknownJa string
  | ProxyOverHttp3 | BadProxyUrl string | SurfFailed string

datatype 'a build_out = BuildPanic | BuildFail build_error | Built 'a

record options =
  o_verify_certificates :: bool
  o_response_header_timeout :: int

definition ja_table :: "(string \<times> string) list" where
  "ja_table =
     [(''android'', ''Android''), (''chrome'', ''Chrome''), (''chrome58'', ''Chrome58''),
      (''chrome62'', ''Chrome62''), (''chrome70'', ''Chrome70''), (''chrome72'', ''Chrome72''),
      (''chrome83'', ''Chrome83''), (''chrome87'', ''Chrome87''), (''chrome96'', ''Chrome96''),
      (''chrome100'', ''Chrome100''), (''chrome102'', ''Chrome102''), (''chrome106'', ''Chrome106''),
      (''chrome120'', ''Chrome120''), (''chrome120pq'', ''Chrome120PQ''),
      (''chrome152'', ''Chrome152''), (''edge'', ''Edge''), (''edge85'', ''Edge85''),
      (''edge106'', ''Edge106''), (''firefox'', ''Firefox''), (''firefox55'', ''Firefox55''),
      (''firefox56'', ''Firefox56''), (''firefox63'', ''Firefox63''), (''firefox65'', ''Firefox65''),
      (''firefox99'', ''Firefox99''), (''firefox102'', ''Firefox102''),
      (''firefox105'', ''Firefox105''), (''firefox120'', ''Firefox120''),
      (''firefox148'', ''Firefox148''), (''ios'', ''IOS''), (''ios11'', ''IOS11''),
      (''ios12'', ''IOS12''), (''ios13'', ''IOS13''), (''ios14'', ''IOS14''),
      (''randomized'', ''Randomized''), (''randomizedalpn'', ''RandomizedALPN''),
      (''randomizednoalpn'', ''RandomizedNoALPN''), (''safari'', ''Safari'')]"

definition dot_table :: "(string \<times> string) list" where
  "dot_table =
     [(''adguard'', ''AdGuard''), (''google'', ''Google''), (''cloudflare'', ''Cloudflare''),
      (''quad9'', ''Quad9''), (''switch'', ''Switch''), (''cirashield'', ''CIRAShield''),
      (''ali'', ''Ali''), (''quad101'', ''Quad101''), (''sb'', ''SB''), (''forge'', ''Forge''),
      (''libredns'', ''LibreDNS'')]"

definition build_presets :: "string list" where
  "build_presets = sort (map fst ja_table)"

section \<open>The steps of Build\<close>

definition impersonate_os :: "string \<Rightarrow> build_op list" where
  "impersonate_os os =
     (if os \<in> {''windows'', ''macos'', ''linux'', ''android'', ''ios''} then [OpOs os] else [])"

definition browser_step :: "ua_env \<Rightarrow> spec \<Rightarrow> build_op list build_out" where
  "browser_step env s =
     (if s_browser s = [] then Built []
      else
        (case map_of families (s_browser s) of
           None \<Rightarrow> BuildFail (UnknownBrowser (s_browser s))
         | Some f \<Rightarrow>
             if s_os s \<noteq> [] \<and> s_os s \<notin> set (fm_oses f)
             then BuildFail (OsUnavailable (s_browser s) (s_os s))
             else if \<not> fm_headers f then Built (impersonate_os (s_os s) @ [OpBase (fm_base f)])
             else
               (case edge_headers env (s_os s) of
                  None \<Rightarrow> BuildPanic
                | Some hs \<Rightarrow>
                    Built (impersonate_os (s_os s) @ [OpBase (fm_base f), OpHeaders hs]))))"

definition ja_step :: "spec \<Rightarrow> build_op list build_out" where
  "ja_step s =
     (if s_ja s = [] then Built []
      else
        (case map_of ja_table (s_ja s) of
           None \<Rightarrow> BuildFail (UnknownJa (s_ja s))
         | Some preset \<Rightarrow> Built [OpJa preset]))"

definition set_op :: "string \<Rightarrow> u32 option \<Rightarrow> build_op list" where
  "set_op name v = (case v of None \<Rightarrow> [] | Some n \<Rightarrow> [OpHttp2 name n])"

definition apply_http2 :: "http2 \<Rightarrow> build_op list" where
  "apply_http2 h =
     set_op ''HeaderTableSize'' (h2_header_table_size h) @
     set_op ''EnablePush'' (h2_enable_push h) @
     set_op ''MaxConcurrentStreams'' (h2_max_concurrent_streams h) @
     set_op ''InitialWindowSize'' (h2_initial_window_size h) @
     set_op ''MaxFrameSize'' (h2_max_frame_size h) @
     set_op ''MaxHeaderListSize'' (h2_max_header_list_size h) @
     set_op ''NoRFC7540Priorities'' (h2_no_rfc7540_priorities h) @
     set_op ''ConnectionFlow'' (h2_connection_flow h) @
     set_op ''InitialStreamID'' (h2_initial_stream_id h)"

definition http2_step :: "spec \<Rightarrow> build_op list build_out" where
  "http2_step s =
     (case s_http2 s of
        None \<Rightarrow> Built []
      | Some h \<Rightarrow> Built (apply_http2 h @ (if s_browser s = [] then [OpHttp2Set] else [])))"

text \<open>The setting a name of the order stands for: its call's name and its value.\<close>

definition http3_setting :: "http3 \<Rightarrow> string \<Rightarrow> (string \<times> u64 option) option" where
  "http3_setting h k =
     (if k = ''qpackmaxtablecapacity'' then Some (''QpackMaxTableCapacity'', h3_qpack_max_table_capacity h)
      else if k = ''maxfieldsectionsize'' then Some (''MaxFieldSectionSize'', h3_max_field_section_size h)
      else if k = ''qpackblockedstreams'' then Some (''QpackBlockedStreams'', h3_qpack_blocked_streams h)
      else if k = ''enableconnectprotocol'' then Some (''EnableConnectProtocol'', h3_enable_connect_protocol h)
      else if k = ''settingsh3datagram'' then Some (''SettingsH3Datagram'', h3_settings_h3_datagram h)
      else if k = ''h3datagram'' then Some (''H3Datagram'', h3_h3_datagram h)
      else if k = ''enablewebtransport'' then Some (''EnableWebtransport'', h3_enable_webtransport h)
      else None)"

fun http3_loop :: "http3 \<Rightarrow> string list \<Rightarrow> build_op list build_out" where
  "http3_loop h [] = Built [OpHttp3Set]"
| "http3_loop h (k # ks) =
     (case http3_setting h k of
        Some (call, None) \<Rightarrow> BuildPanic
      | Some (call, Some v) \<Rightarrow>
          (case http3_loop h ks of Built ops \<Rightarrow> Built (OpHttp3 call v # ops) | r \<Rightarrow> r)
      | None \<Rightarrow>
          if k = ''grease'' \<and> h3_grease h
          then (case http3_loop h ks of Built ops \<Rightarrow> Built (OpHttp3Grease # ops) | r \<Rightarrow> r)
          else http3_loop h ks)"

definition http3_step :: "spec \<Rightarrow> build_op list build_out" where
  "http3_step s =
     (case s_http3 s of None \<Rightarrow> Built [] | Some h \<Rightarrow> http3_loop h (h3_order h))"

text \<open>\<^verbatim>\<open>hopDialer\<close>: the proxy URL that TIP's own CONNECT dialer serves, if it serves it.\<close>

definition hop_dialer :: "url_parser \<Rightarrow> spec \<Rightarrow> (build_error, url option) result" where
  "hop_dialer url_parse s =
     (if s_proxy s = [] then Inr None
      else if s_force_http s = ''3'' then Inl ProxyOverHttp3
      else
        (case url_parse (s_proxy s) of
           None \<Rightarrow> Inl (BadProxyUrl (s_proxy s))
         | Some u \<Rightarrow>
             if u_scheme u \<noteq> ''http'' \<and> u_scheme u \<noteq> ''https'' then Inr None else Inr (Some u)))"

definition proxy_step :: "url_parser \<Rightarrow> spec \<Rightarrow> build_op list build_out" where
  "proxy_step url_parse s =
     (case hop_dialer url_parse s of
        Inl e \<Rightarrow> BuildFail e
      | Inr (Some u) \<Rightarrow> Built [OpProxy [], OpHop u]
      | Inr None \<Rightarrow> Built [OpProxy (s_proxy s)])"

definition dns_over_tls_op :: "string \<Rightarrow> build_op list build_out" where
  "dns_over_tls_op value =
     (case cut CHR ''@'' value of
        (name, addrs, custom) \<Rightarrow>
          if \<not> custom then
            (case map_of dot_table (to_lower name) of
               None \<Rightarrow> BuildPanic
             | Some provider \<Rightarrow> Built [OpDotProvider provider])
          else Built [OpDotAdd name (map trim_space (split_on CHR '','' addrs))])"

definition dns_step :: "spec \<Rightarrow> build_op list build_out" where
  "dns_step s =
     (if s_dns_over_tls s = [] then Built (if s_dns s = [] then [] else [OpDns (s_dns s)])
      else
        (case dns_over_tls_op (s_dns_over_tls s) of
           Built ops \<Rightarrow> Built ((if s_dns s = [] then [] else [OpDns (s_dns s)]) @ ops)
         | r \<Rightarrow> r))"

definition force_ops :: "string \<Rightarrow> build_op list" where
  "force_ops v =
     (if v = ''1'' then [OpForceHttp 1] else if v = ''2'' then [OpForceHttp 2]
      else if v = ''3'' then [OpForceHttp 3] else [])"

definition tail_step :: "options \<Rightarrow> spec \<Rightarrow> build_op list build_out" where
  "tail_step opts s =
     Built ((if s_interface_addr s = [] then [] else [OpInterface (s_interface_addr s)]) @
       (if s_secure_tls s \<or> o_verify_certificates opts then [OpSecureTls] else []) @
       (if s_disable_keep_alive s then [OpNoKeepAlive] else []) @
       (if s_h2c s then [OpH2c] else []) @
       force_ops (s_force_http s) @
       [OpNoCompression, OpHeaderTimeout (o_response_header_timeout opts), OpFinalize])"

text \<open>The steps run in order; the first that fails or panics ends the call.\<close>

fun run_steps :: "build_op list build_out list \<Rightarrow> build_op list build_out" where
  "run_steps [] = Built []"
| "run_steps (r # rs) =
     (case r of
        Built ops \<Rightarrow> (case run_steps rs of Built later \<Rightarrow> Built (ops @ later) | e \<Rightarrow> e)
      | e \<Rightarrow> e)"

definition build_steps ::
  "ua_env \<Rightarrow> url_parser \<Rightarrow> options \<Rightarrow> spec \<Rightarrow> build_op list build_out" where
  "build_steps env url_parse opts s =
     run_steps [browser_step env s, ja_step s, http2_step s, http3_step s, proxy_step url_parse s,
                dns_step s, tail_step opts s]"

record built_client =
  bc_key :: string
  bc_ops :: "build_op list"

definition build ::
  "ua_env \<Rightarrow> url_parser \<Rightarrow> (build_op list \<Rightarrow> string option) \<Rightarrow> options \<Rightarrow> spec \<Rightarrow>
   built_client build_out" where
  "build env url_parse surf_build opts s =
     (case build_steps env url_parse opts s of
        BuildPanic \<Rightarrow> BuildPanic
      | BuildFail e \<Rightarrow> BuildFail e
      | Built ops \<Rightarrow>
          (case surf_build ops of
             Some e \<Rightarrow> BuildFail (SurfFailed e)
           | None \<Rightarrow> Built \<lparr>bc_key = spec_key s, bc_ops = ops\<rparr>))"

section \<open>What the calls do to the transport\<close>

text \<open>The callbacks \<^verbatim>\<open>hopDialer\<close> and \<^verbatim>\<open>headerTimeout\<close> return, on surf's transport.\<close>

record 'd ehttp_transport =
  et_proxy :: bool
  et_dial :: "'d option"
  et_header_timeout :: int

datatype 'd transport = Ehttp "'d ehttp_transport" | OtherTransport

definition install_hop ::
  "(url \<Rightarrow> (string, 'd) result) \<Rightarrow> url \<Rightarrow> 'd transport \<Rightarrow> (string, 'd transport) result" where
  "install_hop new_dialer u t =
     (case t of
        OtherTransport \<Rightarrow> Inl ''proxy needs an HTTP/1.1 or HTTP/2 transport''
      | Ehttp e \<Rightarrow>
          (case new_dialer u of
             Inl err \<Rightarrow> Inl err
           | Inr d \<Rightarrow> Inr (Ehttp (e\<lparr>et_proxy := False, et_dial := Some d\<rparr>))))"

definition header_timeout :: "int \<Rightarrow> 'd transport \<Rightarrow> 'd transport" where
  "header_timeout d t =
     (case t of
        Ehttp e \<Rightarrow> if 0 < d then Ehttp (e\<lparr>et_header_timeout := d\<rparr>) else t
      | OtherTransport \<Rightarrow> t)"

section \<open>Specs the rest of the program produces\<close>

text \<open>
  Preset and provider tables agree with the enumerations of the schema, so a value the schema
  accepts is never unknown here.
\<close>

lemma ja_table_keys: "set (map fst ja_table) = set (e_lower ja_presets)"
  by code_simp

lemma dot_table_keys: "set (map fst dot_table) = set (e_lower dot_providers)"
  by code_simp

lemma map_of_dom: "(\<exists>v. map_of xs k = Some v) \<longleftrightarrow> k \<in> set (map fst xs)"
  by (induction xs) auto

lemma ja_accepted: "enum_value ja_presets raw = Some v \<Longrightarrow> \<exists>preset. map_of ja_table v = Some preset"
  unfolding map_of_dom ja_table_keys by (auto simp: enum_value_def split: if_splits)

lemma dot_accepted: "dns_over_tls_ok v \<Longrightarrow> \<exists>ops. dns_over_tls_op v = Built ops"
proof -
  assume ok: "dns_over_tls_ok v"
  obtain name addrs custom where c: "cut CHR ''@'' v = (name, addrs, custom)"
    by (cases "cut CHR ''@'' v")
  show ?thesis
  proof (cases custom)
    case True
    with c show ?thesis by (simp add: dns_over_tls_op_def)
  next
    case False
    with c ok have "to_lower name \<in> set (map fst dot_table)"
      by (simp add: dns_over_tls_ok_def dot_table_keys del: set_map)
    then obtain p where "map_of dot_table (to_lower name) = Some p"
      using map_of_dom [of dot_table "to_lower name"] by blast
    with c False show ?thesis by (simp add: dns_over_tls_op_def)
  qed
qed

text \<open>
  What the validator makes of HTTP/3 settings, as \<^verbatim>\<open>parsePairs\<close> shapes them: the order it was
  given, and every number that was named.
\<close>

definition http3_decoded :: "string list \<Rightarrow> http3 \<Rightarrow> bool" where
  "http3_decoded order h =
     (h3_order h = order \<and>
      list_all (\<lambda>k. case http3_setting h k of Some (_, v) \<Rightarrow> v \<noteq> None | None \<Rightarrow> True) order)"

lemma http3_loop_decoded:
  "list_all (\<lambda>k. case http3_setting h k of Some (_, v) \<Rightarrow> v \<noteq> None | None \<Rightarrow> True) order \<Longrightarrow>
     \<exists>ops. http3_loop h order = Built ops"
  by (induction order) (auto split: option.splits)

definition surf_versions :: "ua_env \<Rightarrow> bool" where
  "surf_versions env = (\<forall>os \<in> set ([] # os_list ''edge''). chrome_major (chrome_ua env os) \<noteq> None)"

definition identity_ok :: "spec \<Rightarrow> bool" where
  "identity_ok s =
     (s_browser s = [] \<or>
      s_browser s \<in> set family_names \<and> (s_os s = [] \<or> s_os s \<in> set (os_list (s_browser s))))"

lemma browser_step_ok:
  assumes "surf_versions env" "identity_ok s"
  shows "\<exists>ops. browser_step env s = Built ops"
proof (cases "s_browser s = []")
  case False
  with assms(2) have b: "s_browser s \<in> set [''chrome'', ''edge'', ''firefox'']"
    and os: "s_os s = [] \<or> s_os s \<in> set (os_list (s_browser s))"
    by (auto simp: identity_ok_def family_names_eq)
  then have f: "map_of families (s_browser s) = Some (family_of (s_browser s))"
    by (auto simp: family_of_simps)
  with os have o: "s_os s = [] \<or> s_os s \<in> set (fm_oses (family_of (s_browser s)))"
    by (simp add: os_list_def)
  have "\<exists>hs. edge_headers env (s_os s) = Some hs" if "fm_headers (family_of (s_browser s))"
  proof -
    from that b have "s_browser s = ''edge''" by (auto simp: family_of_simps)
    with os have "s_os s \<in> set ([] # os_list ''edge'')" by auto
    with assms(1) show ?thesis
      by (auto simp: surf_versions_def edge_headers_def edge_agent_def)
  qed
  with False f o show ?thesis by (auto simp: browser_step_def)
qed (simp add: browser_step_def)

text \<open>The failures of a spec that names nothing unknown, in the order the code finds them.\<close>

definition expected_failure :: "url_parser \<Rightarrow> spec \<Rightarrow> build_error option" where
  "expected_failure url_parse s =
     (if s_proxy s = [] then None
      else if s_force_http s = ''3'' then Some ProxyOverHttp3
      else if url_parse (s_proxy s) = None then Some (BadProxyUrl (s_proxy s)) else None)"

lemma proxy_step_expected:
  "proxy_step url_parse s =
     (case expected_failure url_parse s of
        Some e \<Rightarrow> BuildFail e
      | None \<Rightarrow>
          Built (if s_proxy s \<noteq> [] \<and> u_scheme (the (url_parse (s_proxy s))) \<in> {''http'', ''https''}
                 then [OpProxy [], OpHop (the (url_parse (s_proxy s)))] else [OpProxy (s_proxy s)]))"
  by (auto simp: proxy_step_def hop_dialer_def expected_failure_def split: option.splits)

lemma dns_step_ok:
  "s_dns_over_tls s = [] \<or> dns_over_tls_ok (s_dns_over_tls s) \<Longrightarrow> \<exists>ops. dns_step s = Built ops"
  using dot_accepted [of "s_dns_over_tls s"] by (auto simp: dns_step_def)

text \<open>
  C21. Building a client for a spec the program produced (an identity that was resolved, a preset,
  DNS-over-TLS value and HTTP/3 settings that the schema accepted) never panics and never meets
  an unknown name: it fails exactly when an upstream proxy is combined with HTTP/3, when the
  proxy's URL does not parse, or when surf itself refuses, and otherwise gives the client that is
  cached under the spec's key.
\<close>

theorem build_total:
  assumes "surf_versions env" "identity_ok s"
    and "s_ja s = [] \<or> enum_value ja_presets raw = Some (s_ja s)"
    and "s_dns_over_tls s = [] \<or> dns_over_tls_ok (s_dns_over_tls s)"
    and "s_http3 s = None \<or> http3_decoded order (the (s_http3 s))"
  shows "case expected_failure url_parse s of
      Some e \<Rightarrow> build env url_parse surf_build opts s = BuildFail e
    | None \<Rightarrow> \<exists>ops. build_steps env url_parse opts s = Built ops \<and>
        build env url_parse surf_build opts s =
          (case surf_build ops of
             Some e \<Rightarrow> BuildFail (SurfFailed e)
           | None \<Rightarrow> Built \<lparr>bc_key = spec_key s, bc_ops = ops\<rparr>)"
proof -
  obtain a where a: "browser_step env s = Built a" using browser_step_ok assms(1,2) by blast
  obtain b where b: "ja_step s = Built b" using assms(3) ja_accepted [of raw "s_ja s"]
    by (cases "s_ja s = []") (auto simp: ja_step_def)
  obtain c where c: "http2_step s = Built c"
    by (cases "s_http2 s") (simp_all add: http2_step_def)
  obtain d where d: "http3_step s = Built d"
    using assms(5) http3_loop_decoded
    by (cases "s_http3 s") (fastforce simp: http3_step_def http3_decoded_def)+
  obtain e where e: "dns_step s = Built e" using assms(4) dns_step_ok by blast
  show ?thesis
    by (simp add: build_def build_steps_def a b c d e tail_step_def proxy_step_expected
        split: option.split)
qed

definition demo_spec :: spec where
  "demo_spec = (spec_of zero_directive)
     \<lparr>s_browser := ''edge'', s_ja := ''chrome120pq'', s_proxy := ''http://p:1'',
      s_force_http := ''3'', s_dns_over_tls := ''Quad9''\<rparr>"

theorem build_total_witness:
  "build demo_env (\<lambda>_. None) (\<lambda>_. None) \<lparr>o_verify_certificates = True, o_response_header_timeout = 0\<rparr>
     demo_spec = BuildFail ProxyOverHttp3"
proof -
  have "surf_versions (demo_env)" by code_simp
  moreover have "identity_ok demo_spec"
    by (simp add: identity_ok_def demo_spec_def family_names_eq spec_of_def zero_directive_def)
  moreover have "s_ja demo_spec = [] \<or> enum_value ja_presets '' Chrome120PQ'' = Some (s_ja demo_spec)"
    by code_simp
  moreover have "s_dns_over_tls demo_spec = [] \<or> dns_over_tls_ok (s_dns_over_tls demo_spec)"
    by code_simp
  moreover have "s_http3 demo_spec = None \<or> http3_decoded [] (the (s_http3 demo_spec))"
    by (simp add: demo_spec_def spec_of_def zero_directive_def)
  ultimately show ?thesis
    using build_total [of demo_env demo_spec "'' Chrome120PQ''" "[]" "\<lambda>_. None"
      "\<lparr>o_verify_certificates = True, o_response_header_timeout = 0\<rparr>" "\<lambda>_. None"]
    by (simp add: expected_failure_def demo_spec_def)
qed

section \<open>What a built client does\<close>

lemma set_op_kind: "op \<in> set (set_op nm v) \<Longrightarrow> \<exists>m n. op = OpHttp2 m n"
  by (auto simp: set_op_def split: option.splits)

lemma apply_http2_kind: "op \<in> set (apply_http2 h) \<Longrightarrow> \<exists>m n. op = OpHttp2 m n"
  unfolding apply_http2_def by (auto dest: set_op_kind)

lemma http3_loop_kind: "http3_loop h ks = Built ops \<Longrightarrow> op \<in> set ops \<Longrightarrow>
    (\<exists>m n. op = OpHttp3 m n) \<or> op = OpHttp3Grease \<or> op = OpHttp3Set"
  by (induction ks arbitrary: ops)
    (auto split: option.splits prod.splits if_splits build_out.splits)

text \<open>The calls that decide who a client talks through and whom it trusts.\<close>

definition routing_op :: "build_op \<Rightarrow> bool" where
  "routing_op op =
     (case op of OpProxy _ \<Rightarrow> True | OpHop _ \<Rightarrow> True | OpSecureTls \<Rightarrow> True | OpForceHttp _ \<Rightarrow> True
      | OpFinalize \<Rightarrow> True | OpHttp2Set \<Rightarrow> True | _ \<Rightarrow> False)"

lemma browser_step_quiet: "browser_step env s = Built ops \<Longrightarrow> filter routing_op ops = []"
  by (auto simp: browser_step_def impersonate_os_def routing_op_def split: if_splits option.splits)

lemma ja_step_quiet: "ja_step s = Built ops \<Longrightarrow> filter routing_op ops = []"
  by (auto simp: ja_step_def routing_op_def split: if_splits option.splits)

lemma http2_step_routing: "http2_step s = Built ops \<Longrightarrow>
    filter routing_op ops = (if s_http2 s \<noteq> None \<and> s_browser s = [] then [OpHttp2Set] else [])"
  using apply_http2_kind
  by (auto simp: http2_step_def routing_op_def filter_empty_conv split: option.splits
      dest!: apply_http2_kind)

lemma http3_step_quiet: "http3_step s = Built ops \<Longrightarrow> filter routing_op ops = []"
  using http3_loop_kind
  by (fastforce simp: http3_step_def routing_op_def filter_empty_conv split: option.splits)

lemma dns_step_quiet: "dns_step s = Built ops \<Longrightarrow> filter routing_op ops = []"
  by (auto simp: dns_step_def dns_over_tls_op_def routing_op_def
      split: if_splits option.splits prod.splits build_out.splits)

lemma run_steps_Cons: "run_steps (r # rs) = Built ops \<longleftrightarrow>
    (\<exists>a b. r = Built a \<and> run_steps rs = Built b \<and> ops = a @ b)"
  by (cases r; cases "run_steps rs") auto



text \<open>
  The callbacks: with the dialer installed the transport dials only through it, whatever surf had
  set; the header timeout changes nothing else.
\<close>

lemma install_hop_Inr: "install_hop nd u t = Inr t' \<longleftrightarrow>
    (\<exists>e d. t = Ehttp e \<and> nd u = Inr d \<and> t' = Ehttp (e\<lparr>et_proxy := False, et_dial := Some d\<rparr>))"
  by (auto simp: install_hop_def split: transport.splits sum.splits)

lemma header_timeout_keeps_hop: "install_hop nd u t = Inr t' \<Longrightarrow>
    \<exists>e d. header_timeout n t' = Ehttp e \<and> \<not> et_proxy e \<and> et_dial e = Some d \<and> nd u = Inr d"
  by (auto simp: install_hop_Inr header_timeout_def)

end
