(* ===== verification/Tip_Cache.thy ===== *)
theory Tip_Cache
  imports Tip_Build
begin

text \<open>
  The cache of impersonating clients (\<^verbatim>\<open>internal/impersonate/cache.go\<close>) and the reference
  counting of a client (\<^verbatim>\<open>client.go\<close>). Clients are shared by pointer: they live in a store, a
  list indexed by client number, and the cache and its callers hold the numbers. A section of code
  that runs under the cache's mutex is one function on the state; \<^verbatim>\<open>step\<close> interleaves them.
  The order of the entries is the order Go's \<^verbatim>\<open>range\<close> visits the map, which any step may change.
  Times are nanoseconds, as \<^verbatim>\<open>UnixNano\<close> gives them.
\<close>

section \<open>Clients\<close>

record client =
  cl_key :: string
  cl_inflight :: int
  cl_last_used :: int
  cl_retired :: bool
  cl_closed :: bool
  cl_idle_flushed :: bool

definition new_client :: "string \<Rightarrow> client" where
  "new_client key =
     \<lparr>cl_key = key, cl_inflight = 0, cl_last_used = 0, cl_retired = False, cl_closed = False,
      cl_idle_flushed = False\<rparr>"

definition acquire :: "int \<Rightarrow> client \<Rightarrow> client" where
  "acquire now c = c\<lparr>cl_inflight := cl_inflight c + 1, cl_last_used := now\<rparr>"

text \<open>\<^verbatim>\<open>Close\<close>: the \<^verbatim>\<open>sync.Once\<close> makes every call after the first do nothing.\<close>

definition close_client :: "client \<Rightarrow> client" where
  "close_client c = c\<lparr>cl_closed := True\<rparr>"

definition release :: "client \<Rightarrow> client" where
  "release c =
     (let c' = c\<lparr>cl_inflight := cl_inflight c - 1\<rparr> in
      if cl_inflight c' = 0 \<and> cl_retired c' then close_client c' else c')"

definition retire :: "client \<Rightarrow> client" where
  "retire c =
     (let c' = c\<lparr>cl_retired := True, cl_idle_flushed := True\<rparr> in
      if cl_inflight c' = 0 then close_client c' else c')"

datatype 'e trip_error = ErrClosed | Upstream 'e

text \<open>\<open>transport\<close> is surf's; \<open>capture\<close> says whether the connection trace is attached.\<close>

definition client_round_trip ::
  "(bool \<Rightarrow> 'req \<Rightarrow> ('e, 'resp) result) \<Rightarrow> client \<Rightarrow> bool \<Rightarrow> 'req \<Rightarrow> ('e trip_error, 'resp) result" where
  "client_round_trip transport c capture r =
     (if cl_closed c then Inl ErrClosed
      else (case transport capture r of Inl e \<Rightarrow> Inl (Upstream e) | Inr resp \<Rightarrow> Inr resp))"

lemmas client_defs =
  new_client_def acquire_def close_client_def release_def retire_def Let_def

section \<open>The cache\<close>

record cache_options =
  co_max :: int
  co_idle_ttl :: int

datatype cache_event = CacheHit | CacheMiss | ClientBuilt string | ClientEvicted

text \<open>A build in progress, or finished: what waits on \<^verbatim>\<open>done\<close> reads the result.\<close>

record flight =
  fl_key :: string
  fl_result :: "(string, nat) result option"

record cache =
  ca_entries :: "(string \<times> nat) list"
  ca_pending :: "(string \<times> nat) list"
  ca_clients :: "client list"
  ca_flights :: "flight list"
  ca_events :: "cache_event list"

definition new_cache :: cache where
  "new_cache =
     \<lparr>ca_entries = [], ca_pending = [], ca_clients = [], ca_flights = [], ca_events = []\<rparr>"

definition on_client :: "nat \<Rightarrow> (client \<Rightarrow> client) \<Rightarrow> cache \<Rightarrow> cache" where
  "on_client i f st = st\<lparr>ca_clients := (ca_clients st)[i := f (ca_clients st ! i)]\<rparr>"

definition notify :: "cache_event list \<Rightarrow> cache \<Rightarrow> cache" where
  "notify evs st = st\<lparr>ca_events := ca_events st @ evs\<rparr>"

definition max_int64 :: int where
  "max_int64 = 9223372036854775807"

fun least_recent_loop :: "client list \<Rightarrow> (string \<times> nat) list \<Rightarrow> string \<times> int \<Rightarrow> string \<times> int" where
  "least_recent_loop cs [] acc = acc"
| "least_recent_loop cs ((key, i) # es) (oldest, oldest_at) =
     least_recent_loop cs es
       (if cl_last_used (cs ! i) < oldest_at then (key, cl_last_used (cs ! i))
        else (oldest, oldest_at))"

definition least_recent :: "cache \<Rightarrow> string" where
  "least_recent st = fst (least_recent_loop (ca_clients st) (ca_entries st) ([], max_int64))"

definition evict :: "string \<Rightarrow> cache \<Rightarrow> cache" where
  "evict key st =
     (case map_of (ca_entries st) key of
        None \<Rightarrow> st
      | Some i \<Rightarrow> on_client i retire (st\<lparr>ca_entries := filter (\<lambda>(k, _). k \<noteq> key) (ca_entries st)\<rparr>))"

text \<open>The loop of \<^verbatim>\<open>insert\<close> need not end: \<open>None\<close> is not returning.\<close>

partial_function (option) insert_loop :: "int \<Rightarrow> cache \<Rightarrow> nat \<Rightarrow> (cache \<times> nat) option" where
  "insert_loop mx st evicted =
     (if mx \<le> int (length (ca_entries st))
      then insert_loop mx (evict (least_recent st) st) (Suc evicted)
      else Some (st, evicted))"

definition insert_client :: "int \<Rightarrow> string \<Rightarrow> nat \<Rightarrow> cache \<Rightarrow> (cache \<times> nat) option" where
  "insert_client mx key i st =
     map_option (\<lambda>(st', n). (st'\<lparr>ca_entries := AList.update key i (ca_entries st')\<rparr>, n))
       (insert_loop mx st 0)"

section \<open>Get, in its three sections\<close>

datatype get_enter_result = GetHit nat | GetWait nat | GetBuild nat

definition get_enter :: "spec \<Rightarrow> int \<Rightarrow> cache \<Rightarrow> get_enter_result \<times> cache" where
  "get_enter s now st =
     (let key = spec_key s in
      case map_of (ca_entries st) key of
        Some i \<Rightarrow> (GetHit i, notify [CacheHit] (on_client i (acquire now) st))
      | None \<Rightarrow>
          (case map_of (ca_pending st) key of
             Some p \<Rightarrow> (GetWait p, notify [CacheHit] st)
           | None \<Rightarrow>
               let p = length (ca_flights st) in
               (GetBuild p,
                notify [CacheMiss]
                  (st\<lparr>ca_flights := ca_flights st @ [\<lparr>fl_key = key, fl_result = None\<rparr>],
                      ca_pending := AList.update key p (ca_pending st)\<rparr>))))"

definition get_built ::
  "cache_options \<Rightarrow> nat \<Rightarrow> (string, built_client) result \<Rightarrow> int \<Rightarrow> cache \<Rightarrow> cache option" where
  "get_built opts p built now st =
     (let key = fl_key (ca_flights st ! p);
          st1 = st\<lparr>ca_pending := filter (\<lambda>(k, _). k \<noteq> key) (ca_pending st)\<rparr>
      in case built of
           Inl e \<Rightarrow>
             Some (st1\<lparr>ca_flights := (ca_flights st1)[p := \<lparr>fl_key = key, fl_result = Some (Inl e)\<rparr>]\<rparr>)
         | Inr bc \<Rightarrow>
             let i = length (ca_clients st1);
                 st2 = st1\<lparr>ca_clients := ca_clients st1 @ [new_client (bc_key bc)],
                           ca_flights := (ca_flights st1)[p := \<lparr>fl_key = key, fl_result = Some (Inr i)\<rparr>]\<rparr>
             in map_option
                  (\<lambda>(st3, n). notify (ClientBuilt key # replicate n ClientEvicted) (on_client i (acquire now) st3))
                  (insert_client (co_max opts) key i st2))"

text \<open>\<^verbatim>\<open>share\<close>, once \<^verbatim>\<open>done\<close> is closed.\<close>

definition share :: "nat \<Rightarrow> int \<Rightarrow> cache \<Rightarrow> ((string, nat) result \<times> cache) option" where
  "share p now st =
     (case fl_result (ca_flights st ! p) of
        None \<Rightarrow> None
      | Some (Inl e) \<Rightarrow> Some (Inl e, st)
      | Some (Inr i) \<Rightarrow> Some (Inr i, on_client i (acquire now) st))"

section \<open>Sweep and Close\<close>

fun sweep_loop :: "int \<Rightarrow> (string \<times> nat) list \<Rightarrow> cache \<Rightarrow> nat \<Rightarrow> cache \<times> nat" where
  "sweep_loop cutoff [] st n = (st, n)"
| "sweep_loop cutoff ((key, i) # es) st n =
     (let c = ca_clients st ! i in
      if cl_last_used c < cutoff \<and> cl_inflight c = 0 then sweep_loop cutoff es (evict key st) (Suc n)
      else sweep_loop cutoff es st n)"

definition sweep :: "cache_options \<Rightarrow> int \<Rightarrow> cache \<Rightarrow> cache \<times> nat" where
  "sweep opts now st =
     (case sweep_loop (now - co_idle_ttl opts) (ca_entries st) st 0 of
        (st', n) \<Rightarrow> (notify (replicate n ClientEvicted) st', n))"

definition cache_len :: "cache \<Rightarrow> nat" where
  "cache_len st = length (ca_entries st)"

definition close_cache :: "cache \<Rightarrow> cache" where
  "close_cache st = fold (\<lambda>(key, _). evict key) (ca_entries st) st"

section \<open>Interleaved callers\<close>

text \<open>
  The cache with its callers: the client numbers held (acquired and not yet released), the
  flights being built, and the flights waited for.
\<close>

record system =
  sy_cache :: cache
  sy_held :: "nat list"
  sy_building :: "nat list"
  sy_waiting :: "nat list"

definition new_system :: system where
  "new_system = \<lparr>sy_cache = new_cache, sy_held = [], sy_building = [], sy_waiting = []\<rparr>"

text \<open>Every time a step reads from the clock is before the last nanosecond an \<^verbatim>\<open>int64\<close> holds.\<close>

inductive step :: "cache_options \<Rightarrow> system \<Rightarrow> system \<Rightarrow> bool" for opts where
  hit: "get_enter s now (sy_cache y) = (GetHit i, st) \<Longrightarrow> now < max_int64 \<Longrightarrow>
     step opts y (y\<lparr>sy_cache := st, sy_held := i # sy_held y\<rparr>)"
| wait: "get_enter s now (sy_cache y) = (GetWait p, st) \<Longrightarrow>
     step opts y (y\<lparr>sy_cache := st, sy_waiting := p # sy_waiting y\<rparr>)"
| start: "get_enter s now (sy_cache y) = (GetBuild p, st) \<Longrightarrow>
     step opts y (y\<lparr>sy_cache := st, sy_building := p # sy_building y\<rparr>)"
| built: "p \<in> set (sy_building y) \<Longrightarrow> bc_key bc = fl_key (ca_flights (sy_cache y) ! p) \<Longrightarrow>
     get_built opts p (Inr bc) now (sy_cache y) = Some st \<Longrightarrow> now < max_int64 \<Longrightarrow>
     step opts y (y\<lparr>sy_cache := st, sy_building := remove1 p (sy_building y),
                    sy_held := length (ca_clients (sy_cache y)) # sy_held y\<rparr>)"
| failed: "p \<in> set (sy_building y) \<Longrightarrow> get_built opts p (Inl e) now (sy_cache y) = Some st \<Longrightarrow>
     step opts y (y\<lparr>sy_cache := st, sy_building := remove1 p (sy_building y)\<rparr>)"
| shared: "p \<in> set (sy_waiting y) \<Longrightarrow> share p now (sy_cache y) = Some (Inr i, st) \<Longrightarrow>
     now < max_int64 \<Longrightarrow>
     step opts y (y\<lparr>sy_cache := st, sy_waiting := remove1 p (sy_waiting y), sy_held := i # sy_held y\<rparr>)"
| shared_error: "p \<in> set (sy_waiting y) \<Longrightarrow> share p now (sy_cache y) = Some (Inl e, st) \<Longrightarrow>
     step opts y (y\<lparr>sy_cache := st, sy_waiting := remove1 p (sy_waiting y)\<rparr>)"
| released: "i \<in> set (sy_held y) \<Longrightarrow>
     step opts y (y\<lparr>sy_cache := on_client i release (sy_cache y), sy_held := remove1 i (sy_held y)\<rparr>)"
| swept: "step opts y (y\<lparr>sy_cache := fst (sweep opts now (sy_cache y))\<rparr>)"
| closed: "step opts y (y\<lparr>sy_cache := close_cache (sy_cache y)\<rparr>)"
| reordered: "mset es = mset (ca_entries (sy_cache y)) \<Longrightarrow>
     step opts y (y\<lparr>sy_cache := (sy_cache y)\<lparr>ca_entries := es\<rparr>\<rparr>)"

definition reachable :: "cache_options \<Rightarrow> system \<Rightarrow> bool" where
  "reachable opts y = (step opts)\<^sup>*\<^sup>* new_system y"

lemma reachable_new: "reachable opts new_system"
  by (simp add: reachable_def)

lemma reachable_step: "reachable opts y \<Longrightarrow> step opts y y' \<Longrightarrow> reachable opts y'"
  unfolding reachable_def by (rule rtranclp.rtrancl_into_rtrancl)

section \<open>Well-formed caches\<close>

definition client_ok :: "client \<Rightarrow> bool" where
  "client_ok c \<longleftrightarrow>
     0 \<le> cl_inflight c \<and> cl_last_used c < max_int64 \<and> (cl_closed c \<longrightarrow> cl_retired c) \<and>
     (cl_retired c \<and> cl_inflight c = 0 \<longrightarrow> cl_closed c)"

text \<open>
  The entries are clients that are not retired, each under its own key, and all of those, apart
  from the clients \<open>X\<close> that are about to be inserted; a key is never both an entry and pending;
  a pending key is a flight without a result.
\<close>

definition entries_ok :: "nat set \<Rightarrow> cache \<Rightarrow> bool" where
  "entries_ok X st \<longleftrightarrow>
     distinct (map fst (ca_entries st)) \<and>
     (\<forall>k i. (k, i) \<in> set (ca_entries st) \<longrightarrow>
        i < length (ca_clients st) \<and> i \<notin> X \<and> cl_key (ca_clients st ! i) = k) \<and>
     (\<forall>i < length (ca_clients st).
        \<not> cl_retired (ca_clients st ! i) \<longleftrightarrow> i \<in> snd ` set (ca_entries st) \<or> i \<in> X)"

definition flights_ok :: "cache \<Rightarrow> bool" where
  "flights_ok st \<longleftrightarrow>
     distinct (map fst (ca_pending st)) \<and>
     fst ` set (ca_pending st) \<inter> fst ` set (ca_entries st) = {} \<and>
     (\<forall>k p. (k, p) \<in> set (ca_pending st) \<longleftrightarrow>
        p < length (ca_flights st) \<and> fl_key (ca_flights st ! p) = k \<and> fl_result (ca_flights st ! p) = None) \<and>
     (\<forall>p < length (ca_flights st). \<forall>i. fl_result (ca_flights st ! p) = Some (Inr i) \<longrightarrow>
        i < length (ca_clients st) \<and> cl_key (ca_clients st ! i) = fl_key (ca_flights st ! p))"

definition cache_wf :: "nat set \<Rightarrow> cache \<Rightarrow> bool" where
  "cache_wf X st \<longleftrightarrow> entries_ok X st \<and> flights_ok st \<and> (\<forall>c \<in> set (ca_clients st). client_ok c)"

lemma wf_entry: "cache_wf X st \<Longrightarrow> (k, i) \<in> set (ca_entries st) \<Longrightarrow>
    i < length (ca_clients st) \<and> cl_key (ca_clients st ! i) = k \<and> \<not> cl_retired (ca_clients st ! i) \<and>
    \<not> cl_closed (ca_clients st ! i)"
  unfolding cache_wf_def entries_ok_def client_ok_def by (metis nth_mem snd_conv image_eqI)

lemma wf_client: "cache_wf X st \<Longrightarrow> i < length (ca_clients st) \<Longrightarrow> client_ok (ca_clients st ! i)"
  by (simp add: cache_wf_def)

lemma on_client_simps [simp]:
  "ca_entries (on_client i f st) = ca_entries st" "ca_pending (on_client i f st) = ca_pending st"
  "ca_flights (on_client i f st) = ca_flights st" "ca_events (on_client i f st) = ca_events st"
  "length (ca_clients (on_client i f st)) = length (ca_clients st)"
  by (simp_all add: on_client_def)

lemma on_client_nth [simp]: "j < length (ca_clients st) \<Longrightarrow>
    ca_clients (on_client i f st) ! j = (if j = i then f (ca_clients st ! i) else ca_clients st ! j)"
  by (simp add: on_client_def nth_list_update)

lemma notify_simps [simp]:
  "ca_entries (notify evs st) = ca_entries st" "ca_pending (notify evs st) = ca_pending st"
  "ca_flights (notify evs st) = ca_flights st" "ca_clients (notify evs st) = ca_clients st"
  "cache_wf X (notify evs st) = cache_wf X st"
  by (simp_all add: notify_def cache_wf_def entries_ok_def flights_ok_def)

lemma wf_on_client [inv_intros]:
  assumes "cache_wf X st" "i < length (ca_clients st)" "client_ok (f (ca_clients st ! i))"
    and "cl_key (f (ca_clients st ! i)) = cl_key (ca_clients st ! i)"
    and "cl_retired (f (ca_clients st ! i)) = cl_retired (ca_clients st ! i)"
  shows "cache_wf X (on_client i f st)"
proof -
  have "\<forall>c \<in> set (ca_clients (on_client i f st)). client_ok c"
    using assms by (auto simp: cache_wf_def on_client_def dest: set_update_subset_insert [THEN subsetD])
  moreover have "entries_ok X (on_client i f st)"
    using assms unfolding cache_wf_def entries_ok_def by auto
  moreover have "flights_ok (on_client i f st)"
    using assms unfolding cache_wf_def flights_ok_def by auto
  ultimately show ?thesis by (simp add: cache_wf_def)
qed

lemma acquire_simps [simp]:
  "cl_key (acquire now c) = cl_key c" "cl_retired (acquire now c) = cl_retired c"
  "cl_closed (acquire now c) = cl_closed c" "cl_inflight (acquire now c) = cl_inflight c + 1"
  "cl_last_used (acquire now c) = now"
  by (simp_all add: acquire_def)

lemma release_simps [simp]:
  "cl_key (release c) = cl_key c" "cl_retired (release c) = cl_retired c"
  "cl_inflight (release c) = cl_inflight c - 1" "cl_last_used (release c) = cl_last_used c"
  by (simp_all add: release_def close_client_def Let_def)

lemma retire_simps [simp]:
  "cl_key (retire c) = cl_key c" "cl_retired (retire c)"
  "cl_inflight (retire c) = cl_inflight c" "cl_last_used (retire c) = cl_last_used c"
  by (simp_all add: retire_def close_client_def Let_def)

lemma client_ok_acquire [inv_intros]: "client_ok c \<Longrightarrow> now < max_int64 \<Longrightarrow> client_ok (acquire now c)"
  by (auto simp: client_ok_def)

lemma client_ok_release [inv_intros]: "client_ok c \<Longrightarrow> 0 < cl_inflight c \<Longrightarrow> client_ok (release c)"
  by (auto simp: client_ok_def) (auto simp: release_def close_client_def Let_def split: if_splits)

lemma client_ok_retire [inv_intros]: "client_ok c \<Longrightarrow> client_ok (retire c)"
  by (auto simp: client_ok_def) (auto simp: retire_def close_client_def Let_def)

section \<open>Eviction\<close>

lemma evict_simps [simp]:
  "ca_entries (evict key st) = filter (\<lambda>(k, _). k \<noteq> key) (ca_entries st)"
  "ca_pending (evict key st) = ca_pending st" "ca_flights (evict key st) = ca_flights st"
  "ca_events (evict key st) = ca_events st"
  "length (ca_clients (evict key st)) = length (ca_clients st)"
proof -
  have "map_of es key = None \<Longrightarrow> filter (\<lambda>(k, _). k \<noteq> key) es = es" for es :: "(string \<times> nat) list"
    by (intro filter_True) (auto simp: map_of_eq_None_iff image_iff)
  then show "ca_entries (evict key st) = filter (\<lambda>(k, _). k \<noteq> key) (ca_entries st)"
    "ca_pending (evict key st) = ca_pending st" "ca_flights (evict key st) = ca_flights st"
    "ca_events (evict key st) = ca_events st"
    "length (ca_clients (evict key st)) = length (ca_clients st)"
    by (simp_all add: evict_def on_client_def split: option.split)
qed

lemma evict_nth:
  assumes "cache_wf X st" "j < length (ca_clients st)"
  shows "ca_clients (evict key st) ! j =
    (if (key, j) \<in> set (ca_entries st) then retire (ca_clients st ! j) else ca_clients st ! j)"
proof (cases "map_of (ca_entries st) key")
  case None
  then have "(key, j) \<notin> set (ca_entries st)" by (auto simp: map_of_eq_None_iff image_iff)
  with None show ?thesis by (simp add: evict_def)
next
  case (Some i)
  then have "(key, i) \<in> set (ca_entries st)" by (rule map_of_SomeD)
  moreover have "(key, j) \<in> set (ca_entries st) \<longleftrightarrow> j = i"
    using assms(1) Some by (metis cache_wf_def entries_ok_def map_of_eq_Some_iff option.inject)
  ultimately show ?thesis using Some assms(2)
    by (simp add: evict_def on_client_def nth_list_update)
qed

lemma wf_evict [inv_intros]: "cache_wf X st \<Longrightarrow> cache_wf X (evict key st)"
proof -
  assume wf: "cache_wf X st"
  note nth = evict_nth [OF wf]
  have "\<forall>c \<in> set (ca_clients (evict key st)). client_ok c"
    using wf by (auto simp: in_set_conv_nth nth wf_client client_ok_retire)
  moreover have "entries_ok X (evict key st)"
  proof -
    have u: "(k, i) \<in> set (ca_entries st) \<Longrightarrow> (k', i) \<in> set (ca_entries st) \<Longrightarrow> k = k'" for k k' i
      using wf by (metis wf_entry)
    have d: "distinct (map fst (filter (\<lambda>(k, _). k \<noteq> key) (ca_entries st)))"
      using wf by (simp add: cache_wf_def entries_ok_def distinct_map_fst_filter)
    have e: "i < length (ca_clients st) \<Longrightarrow>
        (\<not> cl_retired (ca_clients (evict key st) ! i)) =
        (i \<in> snd ` set (ca_entries (evict key st)) \<or> i \<in> X)" for i
      using wf unfolding cache_wf_def entries_ok_def by (auto simp: nth [of i] dest: u)
    show ?thesis
      using wf d e unfolding cache_wf_def entries_ok_def
      by (auto simp: nth dest: u)
  qed
  moreover have "flights_ok (evict key st)"
    using wf unfolding cache_wf_def flights_ok_def by (auto simp: nth)
  ultimately show ?thesis by (simp add: cache_wf_def)
qed

lemma least_recent_loop_min:
  "least_recent_loop cs es (o0, at0) = (oldest, t) \<Longrightarrow>
     t \<le> at0 \<and> (\<forall>(k, i) \<in> set es. t \<le> cl_last_used (cs ! i)) \<and>
     (oldest = o0 \<and> t = at0 \<or> (\<exists>i. (oldest, i) \<in> set es \<and> t = cl_last_used (cs ! i)))"
proof (induction es arbitrary: o0 at0)
  case (Cons e es)
  obtain k i where e: "e = (k, i)" by (cases e)
  from Cons.IH [of "fst (if cl_last_used (cs ! i) < at0 then (k, cl_last_used (cs ! i)) else (o0, at0))"
      "snd (if cl_last_used (cs ! i) < at0 then (k, cl_last_used (cs ! i)) else (o0, at0))"]
    Cons.prems e show ?case by (fastforce split: if_splits)
qed simp

text \<open>The entry \<^verbatim>\<open>leastRecent\<close> names is there, and no entry was used before it.\<close>

lemma least_recent_min:
  assumes "cache_wf X st" "ca_entries st \<noteq> []"
  obtains i where "(least_recent st, i) \<in> set (ca_entries st)"
    "\<forall>(k, j) \<in> set (ca_entries st). cl_last_used (ca_clients st ! i) \<le> cl_last_used (ca_clients st ! j)"
proof -
  obtain oldest t where l: "least_recent_loop (ca_clients st) (ca_entries st) ([], max_int64) = (oldest, t)"
    by (cases "least_recent_loop (ca_clients st) (ca_entries st) ([], max_int64)")
  note m = least_recent_loop_min [OF l]
  from assms(2) obtain k j where "(k, j) \<in> set (ca_entries st)" by (cases "ca_entries st") auto
  moreover from this assms(1) have "cl_last_used (ca_clients st ! j) < max_int64"
    using wf_entry wf_client client_ok_def by blast
  ultimately have "t \<noteq> max_int64" using m by fastforce
  with m obtain i where "(oldest, i) \<in> set (ca_entries st)" "t = cl_last_used (ca_clients st ! i)" by auto
  with m l show ?thesis by (intro that [of i]) (auto simp: least_recent_def)
qed

text \<open>
  What a run of evictions keeps: the clients that left the entries are retired, the others are
  as they were, and nothing else changes.
\<close>

definition evicted_to :: "cache \<Rightarrow> cache \<Rightarrow> bool" where
  "evicted_to st st' \<longleftrightarrow>
     (\<exists>P. ca_entries st' = filter P (ca_entries st)) \<and>
     ca_pending st' = ca_pending st \<and> ca_flights st' = ca_flights st \<and> ca_events st' = ca_events st \<and>
     length (ca_clients st') = length (ca_clients st) \<and>
     (\<forall>j < length (ca_clients st). ca_clients st' ! j =
        (if j \<in> snd ` (set (ca_entries st) - set (ca_entries st')) then retire (ca_clients st ! j)
         else ca_clients st ! j))"

lemma evicted_to_refl [simp]: "evicted_to st st"
  by (auto simp: evicted_to_def intro: exI [of _ "\<lambda>_. True"])

lemma entry_unique: "cache_wf X st \<Longrightarrow> (k, i) \<in> set (ca_entries st) \<Longrightarrow> (k', i) \<in> set (ca_entries st) \<Longrightarrow> k = k'"
  by (metis wf_entry)

lemma evicted_to_evict:
  assumes "cache_wf X st" shows "evicted_to st (evict key st)"
proof -
  have "j < length (ca_clients st) \<Longrightarrow>
      (j \<in> snd ` (set (ca_entries st) - set (ca_entries (evict key st)))) = ((key, j) \<in> set (ca_entries st))" for j
    by (force simp: image_iff)
  then show ?thesis
    by (auto simp: evicted_to_def evict_nth [OF assms] simp del: evict_simps(1))
      (auto intro: exI [of _ "\<lambda>(k, _). k \<noteq> key"])
qed

lemma evicted_to_trans:
  assumes "cache_wf X st" "evicted_to st st1" "evicted_to st1 st2"
  shows "evicted_to st st2"
proof -
  from assms(2,3) obtain P Q where e: "ca_entries st1 = filter P (ca_entries st)"
    "ca_entries st2 = filter Q (ca_entries st1)" by (auto simp: evicted_to_def)
  have "ca_clients st2 ! j = (if j \<in> snd ` (set (ca_entries st) - set (ca_entries st2))
      then retire (ca_clients st ! j) else ca_clients st ! j)" if j: "j < length (ca_clients st)" for j
  proof -
    let ?A = "snd ` (set (ca_entries st) - set (ca_entries st1))"
    let ?B = "snd ` (set (ca_entries st1) - set (ca_entries st2))"
    have u: "snd ` (set (ca_entries st) - set (ca_entries st2)) = ?A \<union> ?B" using e by auto
    have "j \<notin> ?A \<or> j \<notin> ?B"
      using e entry_unique [OF assms(1)] by fastforce
    with j u assms(2,3) show ?thesis by (auto simp: evicted_to_def)
  qed
  with assms(2,3) e show ?thesis
    by (auto simp: evicted_to_def intro: exI [of _ "\<lambda>x. P x \<and> Q x"])
qed

lemma evicted_to_last_used:
  "evicted_to st st' \<Longrightarrow> j < length (ca_clients st) \<Longrightarrow>
     cl_last_used (ca_clients st' ! j) = cl_last_used (ca_clients st ! j) \<and>
     cl_inflight (ca_clients st' ! j) = cl_inflight (ca_clients st ! j)"
  by (simp add: evicted_to_def)

text \<open>
  The loop of \<^verbatim>\<open>insert\<close> ends when the bound is positive, and evicts just as many entries as it
  takes, none of them used after one that stays.
\<close>

definition lru_evicted :: "cache \<Rightarrow> cache \<Rightarrow> bool" where
  "lru_evicted st st' \<longleftrightarrow>
     (\<forall>(k, i) \<in> set (ca_entries st) - set (ca_entries st'). \<forall>(k', i') \<in> set (ca_entries st').
        cl_last_used (ca_clients st ! i) \<le> cl_last_used (ca_clients st ! i'))"

lemma insert_loop_total:
  assumes "cache_wf X st" "0 < mx"
  shows "\<exists>st' n. insert_loop mx st e = Some (st', e + n) \<and> cache_wf X st' \<and> evicted_to st st' \<and>
      lru_evicted st st' \<and> int (length (ca_entries st')) < mx \<and>
      length (ca_entries st') + n = length (ca_entries st) \<and>
      n = nat (int (length (ca_entries st)) + 1 - mx)"
  using assms(1)
proof (induction "length (ca_entries st)" arbitrary: st e rule: less_induct)
  case less
  show ?case
  proof (cases "mx \<le> int (length (ca_entries st))")
    case False
    then show ?thesis using less.prems
      by (intro exI [of _ st] exI [of _ 0]) (simp add: insert_loop.simps [of mx st] lru_evicted_def)
  next
    case True
    with assms(2) have "ca_entries st \<noteq> []" by auto
    from least_recent_min [OF less.prems this] obtain i where
      i: "(least_recent st, i) \<in> set (ca_entries st)"
      and min: "\<forall>(k, j) \<in> set (ca_entries st). cl_last_used (ca_clients st ! i) \<le> cl_last_used (ca_clients st ! j)" .
    let ?st1 = "evict (least_recent st) st"
    have d: "distinct (map fst (ca_entries st))"
      using less.prems by (simp add: cache_wf_def entries_ok_def)
    have len: "Suc (length (ca_entries ?st1)) = length (ca_entries st)"
      using filter_fst_length [OF d, of "least_recent st"] i by force
    note e1 = evicted_to_evict [OF less.prems, of "least_recent st"]
    from less.hyps [of ?st1 "Suc e"] len wf_evict [OF less.prems, of "least_recent st"]
    obtain st' n where r: "insert_loop mx ?st1 (Suc e) = Some (st', Suc e + n)" "cache_wf X st'"
      "evicted_to ?st1 st'" "lru_evicted ?st1 st'" "int (length (ca_entries st')) < mx"
      "length (ca_entries st') + n = length (ca_entries ?st1)"
      "n = nat (int (length (ca_entries ?st1)) + 1 - mx)" by auto
    have last: "(k, j) \<in> set (ca_entries st) \<Longrightarrow>
        cl_last_used (ca_clients ?st1 ! j) = cl_last_used (ca_clients st ! j)" for k j
      using evicted_to_last_used [OF e1] wf_entry [OF less.prems] by blast
    have sub: "set (ca_entries st') \<subseteq> set (ca_entries st)"
      using r(3) by (auto simp: evicted_to_def)
    have "cl_last_used (ca_clients st ! a) \<le> cl_last_used (ca_clients st ! b)"
      if a: "(k, a) \<in> set (ca_entries st) - set (ca_entries st')" and b: "(k', b) \<in> set (ca_entries st')" for k a k' b
    proof (cases "k = least_recent st")
      case True
      with i a d have "a = i" by (metis DiffD1 map_of_eq_Some_iff option.inject)
      with min b sub show ?thesis by auto
    next
      case False
      with a b have "(k, a) \<in> set (ca_entries ?st1) - set (ca_entries st')" by auto
      with r(4) b have "cl_last_used (ca_clients ?st1 ! a) \<le> cl_last_used (ca_clients ?st1 ! b)"
        unfolding lru_evicted_def by blast
      with last a b sub show ?thesis by (metis DiffD1 subsetD)
    qed
    then have "lru_evicted st st'" unfolding lru_evicted_def by blast
    with r len True evicted_to_trans [OF less.prems e1 r(3)] show ?thesis
      by (intro exI [of _ st'] exI [of _ "Suc n"]) (simp add: insert_loop.simps [of mx st])
  qed
qed

section \<open>Preservation\<close>

lemma entries_ok_mono_evict:
  "evicted_to st st' \<Longrightarrow> fst ` set (ca_entries st') \<subseteq> fst ` set (ca_entries st)"
  by (auto simp: evicted_to_def)

lemma wf_get_hit:
  assumes "cache_wf {} st" "get_enter s now st = (GetHit i, st')" "now < max_int64"
  shows "(spec_key s, i) \<in> set (ca_entries st) \<and> st' = notify [CacheHit] (on_client i (acquire now) st) \<and>
    cache_wf {} st'"
proof -
  from assms(2) have e: "map_of (ca_entries st) (spec_key s) = Some i"
    and st: "st' = notify [CacheHit] (on_client i (acquire now) st)"
    by (auto simp: get_enter_def Let_def split: option.splits)
  from e have m: "(spec_key s, i) \<in> set (ca_entries st)" by (rule map_of_SomeD)
  with assms(1) have i: "i < length (ca_clients st)" using wf_entry by blast
  have "cache_wf {} (on_client i (acquire now) st)"
    using assms(1) i client_ok_acquire [OF wf_client [OF assms(1) i] assms(3)]
    by (intro wf_on_client) simp_all
  with m st show ?thesis by simp
qed

lemma wf_get_wait:
  assumes "cache_wf {} st" "get_enter s now st = (GetWait p, st')"
  shows "(spec_key s, p) \<in> set (ca_pending st) \<and> st' = notify [CacheHit] st"
  using assms(2) by (auto simp: get_enter_def Let_def split: option.splits dest: map_of_SomeD)

lemma wf_get_build:
  assumes "cache_wf {} st" "get_enter s now st = (GetBuild p, st')"
  shows "p = length (ca_flights st) \<and> cache_wf {} st' \<and> ca_clients st' = ca_clients st \<and>
    ca_entries st' = ca_entries st \<and> ca_pending st' = ca_pending st @ [(spec_key s, p)] \<and>
    ca_flights st' = ca_flights st @ [\<lparr>fl_key = spec_key s, fl_result = None\<rparr>]"
proof -
  let ?k = "spec_key s"
  from assms(2) have e: "map_of (ca_entries st) ?k = None" and q: "map_of (ca_pending st) ?k = None"
    and p: "p = length (ca_flights st)"
    and st: "st' = notify [CacheMiss] (st\<lparr>ca_flights := ca_flights st @ [\<lparr>fl_key = ?k, fl_result = None\<rparr>],
        ca_pending := AList.update ?k p (ca_pending st)\<rparr>)"
    by (auto simp: get_enter_def Let_def split: option.splits)
  from q have qn: "?k \<notin> fst ` set (ca_pending st)" by (simp add: map_of_eq_None_iff)
  then have upd: "AList.update ?k p (ca_pending st) = ca_pending st @ [(?k, p)]"
    by (rule update_append_new)
  from e have en: "?k \<notin> fst ` set (ca_entries st)" by (simp add: map_of_eq_None_iff)
  have "cache_wf {} st'"
    using assms(1) qn en unfolding cache_wf_def entries_ok_def flights_ok_def st upd
    by (auto simp: p nth_append less_Suc_eq)
  then show ?thesis by (simp add: p st upd [unfolded p])
qed

text \<open>The state in which the finished build is about to be inserted.\<close>

definition landed :: "nat \<Rightarrow> string \<Rightarrow> (string, nat) result \<Rightarrow> client list \<Rightarrow> cache \<Rightarrow> cache" where
  "landed p key r cs st =
     st\<lparr>ca_pending := filter (\<lambda>(k, _). k \<noteq> key) (ca_pending st),
        ca_clients := ca_clients st @ cs,
        ca_flights := (ca_flights st)[p := \<lparr>fl_key = key, fl_result = Some r\<rparr>]\<rparr>"

lemma pending_of_flight:
  assumes "cache_wf X st" "p \<in> snd ` set (ca_pending st)"
  shows "(fl_key (ca_flights st ! p), p) \<in> set (ca_pending st)" "p < length (ca_flights st)"
    and "\<And>k q. (k, q) \<in> set (ca_pending st) \<Longrightarrow> (k = fl_key (ca_flights st ! p)) = (q = p)"
proof -
  from assms obtain k where k: "(k, p) \<in> set (ca_pending st)" by auto
  with assms(1) have fk: "fl_key (ca_flights st ! p) = k" "p < length (ca_flights st)"
    by (auto simp: cache_wf_def flights_ok_def)
  with k show "(fl_key (ca_flights st ! p), p) \<in> set (ca_pending st)" "p < length (ca_flights st)"
    by simp_all
  show "(k' = fl_key (ca_flights st ! p)) = (q = p)" if "(k', q) \<in> set (ca_pending st)" for k' q
  proof
    assume "k' = fl_key (ca_flights st ! p)"
    with fk that k assms(1) show "q = p"
      by (metis cache_wf_def flights_ok_def map_of_eq_Some_iff option.inject)
  next
    assume "q = p"
    with that assms(1) show "k' = fl_key (ca_flights st ! p)"
      by (auto simp: cache_wf_def flights_ok_def)
  qed
qed

lemma wf_landed_error:
  assumes "cache_wf {} st" "p \<in> snd ` set (ca_pending st)"
  shows "cache_wf {} (landed p (fl_key (ca_flights st ! p)) (Inl e) [] st)"
proof -
  note p = pending_of_flight [OF assms]
  show ?thesis
    using assms(1) p unfolding cache_wf_def entries_ok_def flights_ok_def landed_def
    by (auto simp: nth_list_update distinct_map_fst_filter)
qed

lemma wf_landed_client:
  assumes "cache_wf {} st" "p \<in> snd ` set (ca_pending st)" "key = fl_key (ca_flights st ! p)"
  shows "cache_wf {length (ca_clients st)}
    (landed p key (Inr (length (ca_clients st))) [new_client key] st)"
proof -
  note p = pending_of_flight [OF assms(1,2)]
  have "client_ok (new_client key)" by (simp add: client_ok_def new_client_def max_int64_def)
  moreover have "\<not> cl_retired (new_client key)" "cl_key (new_client key) = key"
    by (simp_all add: new_client_def)
  ultimately show ?thesis
    using assms(1) p unfolding cache_wf_def entries_ok_def flights_ok_def landed_def assms(3) [symmetric]
    by (auto simp: nth_list_update distinct_map_fst_filter nth_append less_Suc_eq split: if_splits)
qed

text \<open>Inserting the client that has landed: it becomes an entry, in use once.\<close>

lemma insert_landed:
  assumes wf: "cache_wf {i} st" and i: "i < length (ca_clients st)"
    and key: "cl_key (ca_clients st ! i) = key" "key \<notin> fst ` set (ca_entries st)"
    and pend: "key \<notin> fst ` set (ca_pending st)"
    and mx: "0 < mx" and now: "now < max_int64"
  shows "\<exists>st' n. insert_client mx key i st = Some (st', n) \<and>
      n = nat (int (length (ca_entries st)) + 1 - mx) \<and>
      cache_wf {} (on_client i (acquire now) st') \<and> int (length (ca_entries st')) \<le> mx \<and>
      ca_pending st' = ca_pending st \<and> ca_flights st' = ca_flights st \<and>
      (key, i) \<in> set (ca_entries st') \<and>
      (\<exists>st0. evicted_to st st0 \<and> lru_evicted st st0 \<and>
         length (ca_entries st0) + n = length (ca_entries st) \<and> st' = st0\<lparr>ca_entries := ca_entries st0 @ [(key, i)]\<rparr>)"
proof -
  from insert_loop_total [OF wf mx, of 0] obtain st0 n where
    l: "insert_loop mx st 0 = Some (st0, n)" "cache_wf {i} st0" "evicted_to st st0" "lru_evicted st st0"
    "int (length (ca_entries st0)) < mx" "length (ca_entries st0) + n = length (ca_entries st)"
    "n = nat (int (length (ca_entries st)) + 1 - mx)" by auto
  let ?st = "st0\<lparr>ca_entries := ca_entries st0 @ [(key, i)]\<rparr>"
  have sub: "fst ` set (ca_entries st0) \<subseteq> fst ` set (ca_entries st)"
    using l(3) by (rule entries_ok_mono_evict)
  with key(2) have kn: "key \<notin> fst ` set (ca_entries st0)" by blast
  have same: "ca_pending st0 = ca_pending st" "ca_flights st0 = ca_flights st"
    "length (ca_clients st0) = length (ca_clients st)" using l(3) by (simp_all add: evicted_to_def)
  have ik: "cl_key (ca_clients st0 ! i) = key" using l(3) i key(1) by (auto simp: evicted_to_def)
  have wf': "cache_wf {} ?st"
    using l(2) kn ik i same pend unfolding cache_wf_def entries_ok_def flights_ok_def
    by auto
  have "client_ok (acquire now (ca_clients st0 ! i))"
    using wf_client [OF wf', of i] i same now by (simp add: client_ok_acquire)
  with wf' i same have "cache_wf {} (on_client i (acquire now) ?st)"
    by (intro wf_on_client) simp_all
  moreover have "insert_client mx key i st = Some (?st, n)"
    by (simp add: insert_client_def l(1) update_append_new [OF kn])
  ultimately show ?thesis using l same by (intro exI [of _ ?st] exI [of _ n]) auto
qed

lemma get_built_landed:
  assumes "key = fl_key (ca_flights st ! p)"
  shows "get_built opts p (Inl e) now st = Some (landed p key (Inl e) [] st)"
    and "get_built opts p (Inr bc) now st =
      map_option (\<lambda>(st', n). notify (ClientBuilt key # replicate n ClientEvicted)
          (on_client (length (ca_clients st)) (acquire now) st'))
        (insert_client (co_max opts) key (length (ca_clients st))
          (landed p key (Inr (length (ca_clients st))) [new_client (bc_key bc)] st))"
  by (simp_all add: get_built_def landed_def Let_def assms [symmetric])

lemma wf_built:
  assumes wf: "cache_wf {} st" and p: "p \<in> snd ` set (ca_pending st)"
    and key: "bc_key bc = fl_key (ca_flights st ! p)"
    and mx: "0 < co_max opts" and now: "now < max_int64"
  shows "\<exists>st'. get_built opts p (Inr bc) now st = Some st' \<and> cache_wf {} st' \<and>
      int (length (ca_entries st')) \<le> co_max opts \<and>
      ca_pending st' = filter (\<lambda>(k, _). k \<noteq> bc_key bc) (ca_pending st) \<and>
      length (ca_flights st') = length (ca_flights st) \<and>
      (bc_key bc, length (ca_clients st)) \<in> set (ca_entries st') \<and>
      length (ca_clients st') = Suc (length (ca_clients st)) \<and>
      cl_inflight (ca_clients st' ! length (ca_clients st)) = 1 \<and>
      (\<forall>j < length (ca_clients st).
         cl_inflight (ca_clients st' ! j) = cl_inflight (ca_clients st ! j)) \<and>
      fl_result (ca_flights st' ! p) = Some (Inr (length (ca_clients st)))"
proof -
  let ?i = "length (ca_clients st)"
  let ?k = "bc_key bc"
  let ?l = "landed p ?k (Inr ?i) [new_client ?k] st"
  note q = pending_of_flight [OF wf p]
  have l: "cache_wf {?i} ?l" by (rule wf_landed_client [OF wf p key])
  have "?k \<in> fst ` set (ca_pending st)" using image_eqI [OF _ q(1), of "?k" fst] key by simp
  then have "?k \<notin> fst ` set (ca_entries st)"
    using wf unfolding cache_wf_def flights_ok_def by blast
  then have "?k \<notin> fst ` set (ca_entries ?l)" by (simp add: landed_def)
  moreover have "?k \<notin> fst ` set (ca_pending ?l)" by (auto simp: landed_def)
  moreover have "cl_key (ca_clients ?l ! ?i) = ?k" "?i < length (ca_clients ?l)"
    by (simp_all add: landed_def new_client_def nth_append)
  ultimately obtain st' n st0 where i: "insert_client (co_max opts) ?k ?i ?l = Some (st', n)"
    "cache_wf {} (on_client ?i (acquire now) st')" "int (length (ca_entries st')) \<le> co_max opts"
    "ca_pending st' = ca_pending ?l" "ca_flights st' = ca_flights ?l" "(?k, ?i) \<in> set (ca_entries st')"
    "evicted_to ?l st0" "st' = st0\<lparr>ca_entries := ca_entries st0 @ [(?k, ?i)]\<rparr>"
    using insert_landed [OF l _ _ _ _ mx now] by metis
  have n: "j < Suc ?i \<Longrightarrow> cl_inflight (ca_clients st0 ! j) = cl_inflight (ca_clients ?l ! j)" for j
    using evicted_to_last_used [OF i(7), of j] by (simp add: landed_def)
  have len: "length (ca_clients st0) = Suc ?i" using i(7) by (simp add: evicted_to_def landed_def)
  let ?f = "on_client ?i (acquire now) st'"
  have cl: "ca_clients st' = ca_clients st0" by (simp add: i(8))
  have "cl_inflight (ca_clients ?l ! ?i) = 0" by (simp add: landed_def new_client_def nth_append)
  then have own: "cl_inflight (ca_clients ?f ! ?i) = 1" using n [of ?i] cl len by simp
  have others: "cl_inflight (ca_clients ?f ! j) = cl_inflight (ca_clients st ! j)" if "j < ?i" for j
    using that n [of j] cl len by (simp add: landed_def nth_append)
  have pend: "ca_pending st' = filter (\<lambda>(k, _). k \<noteq> ?k) (ca_pending st)"
    "ca_flights st' = (ca_flights st)[p := \<lparr>fl_key = ?k, fl_result = Some (Inr ?i)\<rparr>]"
    by (simp_all add: i(4,5) landed_def)
  have "get_built opts p (Inr bc) now st =
      Some (notify (ClientBuilt ?k # replicate n ClientEvicted) ?f)"
    by (simp only: get_built_landed(2) [OF key] i(1) option.map prod.case)
  then show ?thesis
    using i(2,3,6) own others q(2) len cl
    by (intro exI [of _ "notify (ClientBuilt ?k # replicate n ClientEvicted) ?f"])
      (simp add: pend)
qed

text \<open>Sweeping and closing are runs of evictions.\<close>

lemma sweep_loop_evicts:
  "cache_wf X st \<Longrightarrow> sweep_loop cutoff es st n = (st', m) \<Longrightarrow> cache_wf X st' \<and> evicted_to st st'"
proof (induction es arbitrary: st n)
  case (Cons e es)
  obtain k i where e: "e = (k, i)" by (cases e)
  show ?case
  proof (cases "cl_last_used (ca_clients st ! i) < cutoff \<and> cl_inflight (ca_clients st ! i) = 0")
    case True
    with Cons.prems e have "sweep_loop cutoff es (evict k st) (Suc n) = (st', m)" by (simp add: Let_def)
    from Cons.IH [OF wf_evict [OF Cons.prems(1)] this] show ?thesis
      using evicted_to_trans [OF Cons.prems(1) evicted_to_evict [OF Cons.prems(1)]] by blast
  next
    case False
    with Cons.prems e have "sweep_loop cutoff es st n = (st', m)" by (auto simp: Let_def)
    with Cons show ?thesis by blast
  qed
qed simp

lemma fold_evict_evicts:
  "cache_wf X st \<Longrightarrow> cache_wf X (fold (\<lambda>(key, _). evict key) es st) \<and>
     evicted_to st (fold (\<lambda>(key, _). evict key) es st)"
proof (induction es arbitrary: st)
  case (Cons e es)
  obtain k i where "e = (k, i)" by (cases e)
  with Cons.IH [OF wf_evict [OF Cons.prems, of k]] show ?case
    using evicted_to_trans [OF Cons.prems evicted_to_evict [OF Cons.prems, of k]] by auto
qed simp

lemma close_cache_entries: "ca_entries (close_cache st) = []"
proof -
  have "ca_entries (fold (\<lambda>(key, _). evict key) es st) = filter (\<lambda>(k, _). k \<notin> fst ` set es) (ca_entries st)" for es
  proof (induction es arbitrary: st)
    case (Cons e es)
    then show ?case by (cases e) (auto simp: conj_commute intro!: filter_cong)
  qed (simp add: case_prod_unfold)
  from this [of "ca_entries st"] show ?thesis unfolding close_cache_def
    by (simp only: filter_empty_conv) force
qed

section \<open>The system invariant\<close>

text \<open>
  The reference count of a client is the number of callers that hold it; the flights being built
  are the pending ones, one builder each.
\<close>

definition system_ok :: "cache_options \<Rightarrow> system \<Rightarrow> bool" where
  "system_ok opts y \<longleftrightarrow>
     cache_wf {} (sy_cache y) \<and> int (cache_len (sy_cache y)) \<le> co_max opts \<and>
     (\<forall>i < length (ca_clients (sy_cache y)).
        cl_inflight (ca_clients (sy_cache y) ! i) = int (count_list (sy_held y) i)) \<and>
     set (sy_held y) \<subseteq> {..< length (ca_clients (sy_cache y))} \<and>
     distinct (sy_building y) \<and> set (sy_building y) = snd ` set (ca_pending (sy_cache y)) \<and>
     set (sy_waiting y) \<subseteq> {..< length (ca_flights (sy_cache y))}"

lemma count_list_pos: "x \<in> set xs \<Longrightarrow> 0 < count_list xs x"
  by (induction xs) auto

lemma count_list_out: "set xs \<subseteq> {..< n :: nat} \<Longrightarrow> count_list xs n = 0"
  by (induction xs) auto

lemma system_ok_evicted [inv_intros]:
  assumes "system_ok opts y" "cache_wf {} st" "evicted_to (sy_cache y) st0"
    and "st = st0 \<or> (\<exists>evs. st = notify evs st0)"
  shows "system_ok opts (y\<lparr>sy_cache := st\<rparr>)"
proof -
  have "length (ca_entries st0) \<le> length (ca_entries (sy_cache y))"
    using assms(3) by (auto simp: evicted_to_def)
  moreover have "ca_entries st = ca_entries st0" "ca_clients st = ca_clients st0"
    "ca_pending st = ca_pending st0" "ca_flights st = ca_flights st0" using assms(4) by auto
  ultimately show ?thesis
    using assms(1,2,3) evicted_to_last_used [OF assms(3)]
    by (auto simp: system_ok_def cache_len_def evicted_to_def)
qed

lemma system_ok_acquire [inv_intros]:
  assumes "system_ok opts y" "i < length (ca_clients (sy_cache y))" "now < max_int64"
    and "st = on_client i (acquire now) (sy_cache y) \<or> (\<exists>evs. st = notify evs (on_client i (acquire now) (sy_cache y)))"
  shows "system_ok opts (y\<lparr>sy_cache := st, sy_held := i # sy_held y\<rparr>)"
proof -
  have "client_ok (acquire now (ca_clients (sy_cache y) ! i))"
    using assms by (intro client_ok_acquire wf_client) (auto simp: system_ok_def)
  with assms have "cache_wf {} (on_client i (acquire now) (sy_cache y))"
    by (intro wf_on_client) (auto simp: system_ok_def)
  then show ?thesis using assms by (auto simp: system_ok_def cache_len_def)
qed

lemma system_ok_built [inv_intros]:
  assumes ok: "system_ok opts y" and mx: "0 < co_max opts" and p: "p \<in> set (sy_building y)"
    and key: "bc_key bc = fl_key (ca_flights (sy_cache y) ! p)" and now: "now < max_int64"
    and st: "get_built opts p (Inr bc) now (sy_cache y) = Some st"
  shows "system_ok opts (y\<lparr>sy_cache := st, sy_building := remove1 p (sy_building y),
    sy_held := length (ca_clients (sy_cache y)) # sy_held y\<rparr>)"
proof -
  let ?c = "sy_cache y"
  from ok p have wf: "cache_wf {} ?c" and pp: "p \<in> snd ` set (ca_pending ?c)"
    by (auto simp: system_ok_def)
  from wf_built [OF wf pp key mx now] st have b: "cache_wf {} st"
    "int (length (ca_entries st)) \<le> co_max opts"
    "ca_pending st = filter (\<lambda>(k, _). k \<noteq> bc_key bc) (ca_pending ?c)"
    "length (ca_flights st) = length (ca_flights ?c)"
    "length (ca_clients st) = Suc (length (ca_clients ?c))"
    "cl_inflight (ca_clients st ! length (ca_clients ?c)) = 1"
    "\<forall>j < length (ca_clients ?c). cl_inflight (ca_clients st ! j) = cl_inflight (ca_clients ?c ! j)"
    by auto
  note q = pending_of_flight [OF wf pp]
  have "snd ` set (ca_pending st) = snd ` set (ca_pending ?c) - {p}"
    using q(3) unfolding b(3) key by (force simp: image_iff)
  moreover have "count_list (sy_held y) (length (ca_clients ?c)) = 0"
    using ok by (intro count_list_out) (simp add: system_ok_def)
  ultimately show ?thesis
    using ok b by (auto simp: system_ok_def cache_len_def less_Suc_eq)
qed

lemma system_ok_failed [inv_intros]:
  assumes ok: "system_ok opts y" and p: "p \<in> set (sy_building y)"
    and st: "get_built opts p (Inl e) now (sy_cache y) = Some st"
  shows "system_ok opts (y\<lparr>sy_cache := st, sy_building := remove1 p (sy_building y)\<rparr>)"
proof -
  let ?c = "sy_cache y"
  let ?k = "fl_key (ca_flights ?c ! p)"
  from ok p have wf: "cache_wf {} ?c" and pp: "p \<in> snd ` set (ca_pending ?c)"
    by (auto simp: system_ok_def)
  have s: "st = landed p ?k (Inl e) [] ?c" using st get_built_landed(1) [OF refl] by simp
  note q = pending_of_flight [OF wf pp]
  have "snd ` set (ca_pending st) = snd ` set (ca_pending ?c) - {p}"
    using q(3) unfolding s landed_def by (force simp: image_iff)
  moreover have "cache_wf {} st" unfolding s by (rule wf_landed_error [OF wf pp])
  ultimately show ?thesis
    using ok by (auto simp: system_ok_def s landed_def cache_len_def)
qed

lemma system_ok_released [inv_intros]:
  assumes ok: "system_ok opts y" and i: "i \<in> set (sy_held y)"
  shows "system_ok opts (y\<lparr>sy_cache := on_client i release (sy_cache y), sy_held := remove1 i (sy_held y)\<rparr>)"
proof -
  let ?c = "sy_cache y"
  from ok i have l: "i < length (ca_clients ?c)" by (auto simp: system_ok_def)
  with ok i have "0 < cl_inflight (ca_clients ?c ! i)"
    by (simp add: system_ok_def count_list_pos)
  with ok l have "cache_wf {} (on_client i release ?c)"
    by (intro wf_on_client client_ok_release wf_client) (auto simp: system_ok_def)
  moreover have "set (remove1 i (sy_held y)) \<subseteq> set (sy_held y)" by (rule set_remove1_subset)
  ultimately show ?thesis using ok i count_list_pos [OF i]
    by (auto simp: system_ok_def cache_len_def of_nat_diff Suc_le_eq)
qed

lemma system_ok_reordered [inv_intros]:
  assumes ok: "system_ok opts y" and es: "mset es = mset (ca_entries (sy_cache y))"
  shows "system_ok opts (y\<lparr>sy_cache := (sy_cache y)\<lparr>ca_entries := es\<rparr>\<rparr>)"
proof -
  from es have s: "set es = set (ca_entries (sy_cache y))" "length es = length (ca_entries (sy_cache y))"
    by (metis set_mset_mset, metis size_mset)
  have "distinct (map fst es) = distinct (map fst (ca_entries (sy_cache y)))"
    using es by (metis mset_map mset_eq_imp_distinct_iff)
  with ok s show ?thesis
    by (simp add: system_ok_def cache_wf_def entries_ok_def flights_ok_def cache_len_def)
qed

lemma system_ok_step:
  assumes "system_ok opts y" "0 < co_max opts" "step opts y y'"
  shows "system_ok opts y'"
  using assms(3)
proof cases
  case (hit s now i st)
  with assms(1) have "cache_wf {} (sy_cache y)" by (simp add: system_ok_def)
  from wf_get_hit [OF this hit(2,3)] wf_entry [OF this] have
    "i < length (ca_clients (sy_cache y))" "st = notify [CacheHit] (on_client i (acquire now) (sy_cache y))"
    by auto
  with hit assms(1) show ?thesis by (auto intro: system_ok_acquire)
next
  case (wait s now p st)
  with assms(1) have wf: "cache_wf {} (sy_cache y)" by (simp add: system_ok_def)
  from wf_get_wait [OF wf wait(2)] have
    p: "(spec_key s, p) \<in> set (ca_pending (sy_cache y))" "st = notify [CacheHit] (sy_cache y)" by auto
  with wf have "p < length (ca_flights (sy_cache y))" by (auto simp: cache_wf_def flights_ok_def)
  with wait p assms(1) show ?thesis by (simp add: system_ok_def cache_len_def)
next
  case (start s now p st)
  with assms(1) have "cache_wf {} (sy_cache y)" by (simp add: system_ok_def)
  from wf_get_build [OF this start(2)] assms(1) start(1) show ?thesis
    by (auto simp: system_ok_def cache_len_def less_Suc_eq) (auto simp: cache_wf_def flights_ok_def)
next
  case (built p bc now st)
  with assms show ?thesis by (simp add: system_ok_built)
next
  case (failed p e now st)
  with assms show ?thesis by (simp add: system_ok_failed)
next
  case (shared p now i st)
  then have r: "fl_result (ca_flights (sy_cache y) ! p) = Some (Inr i)"
    "st = on_client i (acquire now) (sy_cache y)"
    by (auto simp: share_def split: option.splits sum.splits)
  from shared assms(1) have "p < length (ca_flights (sy_cache y))" by (auto simp: system_ok_def)
  with r assms(1) have "i < length (ca_clients (sy_cache y))"
    by (auto simp: system_ok_def cache_wf_def flights_ok_def)
  with r shared assms(1) have "system_ok opts (y\<lparr>sy_cache := st, sy_held := i # sy_held y\<rparr>)"
    by (auto intro: system_ok_acquire)
  moreover have "set (remove1 p (sy_waiting y)) \<subseteq> set (sy_waiting y)" by (rule set_remove1_subset)
  ultimately show ?thesis using shared by (auto simp: system_ok_def)
next
  case (shared_error p now e st)
  then have "st = sy_cache y" by (auto simp: share_def split: option.splits sum.splits)
  moreover have "set (remove1 p (sy_waiting y)) \<subseteq> set (sy_waiting y)" by (rule set_remove1_subset)
  ultimately show ?thesis using shared_error assms(1) by (auto simp: system_ok_def)
next
  case (released i)
  with assms(1) show ?thesis by (simp add: system_ok_released)
next
  case (swept now)
  obtain st n where l: "sweep_loop (now - co_idle_ttl opts) (ca_entries (sy_cache y)) (sy_cache y) 0 = (st, n)"
    by (cases "sweep_loop (now - co_idle_ttl opts) (ca_entries (sy_cache y)) (sy_cache y) 0")
  from sweep_loop_evicts [OF _ l, of "{}"] assms(1) have "cache_wf {} st" "evicted_to (sy_cache y) st"
    by (auto simp: system_ok_def)
  with swept l assms(1) show ?thesis by (auto simp: sweep_def intro!: system_ok_evicted)
next
  case closed
  from fold_evict_evicts [of "{}" "sy_cache y" "ca_entries (sy_cache y)"] assms(1)
  show ?thesis unfolding closed close_cache_def
    by (intro system_ok_evicted) (auto simp: system_ok_def)
next
  case (reordered es)
  with assms(1) show ?thesis by (simp add: system_ok_reordered)
qed

lemma reachable_ok: "0 < co_max opts \<Longrightarrow> reachable opts y \<Longrightarrow> system_ok opts y"
proof -
  assume mx: "0 < co_max opts" and r: "reachable opts y"
  have "system_ok opts new_system" using mx
    by (simp add: system_ok_def new_system_def new_cache_def cache_wf_def entries_ok_def flights_ok_def
        cache_len_def)
  with r show ?thesis unfolding reachable_def
    by (induction rule: rtranclp_induct) (auto intro: system_ok_step mx)
qed

text \<open>What the invariant says of one client: who holds it, and when it is retired and closed.\<close>

lemma system_ok_client:
  assumes ok: "system_ok opts y" and i: "i < length (ca_clients (sy_cache y))"
  shows "cl_inflight (ca_clients (sy_cache y) ! i) = int (count_list (sy_held y) i) \<and>
    (i \<notin> snd ` set (ca_entries (sy_cache y)) \<longrightarrow> cl_retired (ca_clients (sy_cache y) ! i) \<and>
       (i \<notin> set (sy_held y) \<longrightarrow> cl_closed (ca_clients (sy_cache y) ! i)))"
proof -
  from ok have wf: "cache_wf {} (sy_cache y)" by (simp add: system_ok_def)
  from ok i have n: "cl_inflight (ca_clients (sy_cache y) ! i) = int (count_list (sy_held y) i)"
    by (simp add: system_ok_def)
  moreover have "cl_retired (ca_clients (sy_cache y) ! i) \<and> (i \<notin> set (sy_held y) \<longrightarrow> cl_closed (ca_clients (sy_cache y) ! i))"
    if "i \<notin> snd ` set (ca_entries (sy_cache y))"
  proof -
    from wf that i have "cl_retired (ca_clients (sy_cache y) ! i)"
      unfolding cache_wf_def entries_ok_def by blast
    with n wf_client [OF wf i] show ?thesis by (simp add: client_ok_def count_list_0_iff [symmetric])
  qed
  ultimately show ?thesis by blast
qed

section \<open>What the cache guarantees\<close>

text \<open>
  C1. However callers, sweeps and evictions interleave: the cache never holds more clients than
  its bound; it holds one client per key, built for that key, open and not retired; at most one
  build per key is in progress, and never one of a key that is cached; a client's count is the
  number of callers that hold it; every client that is not cached is retired, and is closed as
  soon as nobody holds it.
\<close>

theorem cache_invariant:
  assumes "0 < co_max opts" "reachable opts y"
  shows "let c = sy_cache y in
    int (cache_len c) \<le> co_max opts \<and>
    (\<forall>k i. map_of (ca_entries c) k = Some i \<longrightarrow>
       cl_key (ca_clients c ! i) = k \<and> \<not> cl_retired (ca_clients c ! i) \<and> \<not> cl_closed (ca_clients c ! i)) \<and>
    (\<forall>p \<in> set (sy_building y). \<forall>q \<in> set (sy_building y).
       fl_key (ca_flights c ! p) = fl_key (ca_flights c ! q) \<longrightarrow> p = q) \<and>
    (\<forall>p \<in> set (sy_building y). map_of (ca_entries c) (fl_key (ca_flights c ! p)) = None) \<and>
    (\<forall>i < length (ca_clients c).
       cl_inflight (ca_clients c ! i) = int (count_list (sy_held y) i) \<and>
       (i \<notin> snd ` set (ca_entries c) \<longrightarrow> cl_retired (ca_clients c ! i) \<and>
          (i \<notin> set (sy_held y) \<longrightarrow> cl_closed (ca_clients c ! i))))"
proof -
  let ?c = "sy_cache y"
  have ok: "system_ok opts y" by (rule reachable_ok [OF assms])
  then have wf: "cache_wf {} ?c" and b: "set (sy_building y) = snd ` set (ca_pending ?c)"
    by (simp_all add: system_ok_def)
  have flight: "map_of (ca_entries ?c) (fl_key (ca_flights ?c ! p)) = None" if "p \<in> set (sy_building y)" for p
  proof -
    have "fl_key (ca_flights ?c ! p) \<in> fst ` set (ca_pending ?c)"
      using pending_of_flight(1) [OF wf, of p] that b by force
    with wf show ?thesis unfolding cache_wf_def flights_ok_def map_of_eq_None_iff by blast
  qed
  have single: "p = q" if "p \<in> set (sy_building y)" "q \<in> set (sy_building y)"
    "fl_key (ca_flights ?c ! p) = fl_key (ca_flights ?c ! q)" for p q
    using pending_of_flight(1) [OF wf, of p] pending_of_flight(3) [OF wf, of q] that b by metis
  have entry: "cl_key (ca_clients ?c ! i) = k \<and> \<not> cl_retired (ca_clients ?c ! i) \<and>
      \<not> cl_closed (ca_clients ?c ! i)" if "map_of (ca_entries ?c) k = Some i" for k i
    using wf_entry [OF wf map_of_SomeD [OF that]] by blast
  show ?thesis
    unfolding Let_def using ok flight single system_ok_client [OF ok] entry
    by (intro conjI) (simp_all add: system_ok_def)
qed

definition demo_options :: cache_options where
  "demo_options = \<lparr>co_max = 1, co_idle_ttl = 5\<rparr>"

text \<open>
  A caller that \<^verbatim>\<open>Get\<close> serves without waiting for another caller's build holds an open client
  built for its own spec: on a hit, and after its own build, which always comes to an end and
  leaves the client in the cache.
\<close>

theorem get_serves_open_client:
  assumes "0 < co_max opts" "reachable opts y" "now < max_int64"
  shows "(get_enter s now (sy_cache y) = (GetHit i, st) \<longrightarrow>
       cl_key (ca_clients st ! i) = spec_key s \<and> \<not> cl_closed (ca_clients st ! i) \<and>
       0 < cl_inflight (ca_clients st ! i)) \<and>
    (p \<in> set (sy_building y) \<and> bc_key bc = fl_key (ca_flights (sy_cache y) ! p) \<longrightarrow>
       (\<exists>st. get_built opts p (Inr bc) now (sy_cache y) = Some st \<and>
          (let i = length (ca_clients (sy_cache y)) in
             map_of (ca_entries st) (bc_key bc) = Some i \<and> cl_key (ca_clients st ! i) = bc_key bc \<and>
             \<not> cl_closed (ca_clients st ! i) \<and> cl_inflight (ca_clients st ! i) = 1)))"
proof (intro conjI impI)
  let ?c = "sy_cache y"
  have ok: "system_ok opts y" by (rule reachable_ok [OF assms(1,2)])
  then have wf: "cache_wf {} ?c" by (simp add: system_ok_def)
  { assume h: "get_enter s now ?c = (GetHit i, st)"
    from wf_get_hit [OF wf h assms(3)] have e: "(spec_key s, i) \<in> set (ca_entries ?c)"
      "st = notify [CacheHit] (on_client i (acquire now) ?c)" by auto
    from wf_entry [OF wf e(1)] wf_client [OF wf, of i] e(2)
    show "cl_key (ca_clients st ! i) = spec_key s" "\<not> cl_closed (ca_clients st ! i)"
      "0 < cl_inflight (ca_clients st ! i)" by (simp_all add: client_ok_def) }
  assume "p \<in> set (sy_building y) \<and> bc_key bc = fl_key (ca_flights ?c ! p)"
  with ok have p: "p \<in> snd ` set (ca_pending ?c)" and key: "bc_key bc = fl_key (ca_flights ?c ! p)"
    by (simp_all add: system_ok_def)
  from wf_built [OF wf p key assms(1,3)] obtain st' where
    g: "get_built opts p (Inr bc) now ?c = Some st'" and wf': "cache_wf {} st'"
    and e: "(bc_key bc, length (ca_clients ?c)) \<in> set (ca_entries st')"
    and f: "cl_inflight (ca_clients st' ! length (ca_clients ?c)) = 1" by blast
  from wf' e have "map_of (ca_entries st') (bc_key bc) = Some (length (ca_clients ?c))"
    by (simp add: cache_wf_def entries_ok_def)
  with g f wf_entry [OF wf' e]
  show "\<exists>st. get_built opts p (Inr bc) now ?c = Some st \<and>
      (let i = length (ca_clients ?c) in
         map_of (ca_entries st) (bc_key bc) = Some i \<and> cl_key (ca_clients st ! i) = bc_key bc \<and>
         \<not> cl_closed (ca_clients st ! i) \<and> cl_inflight (ca_clients st ! i) = 1)"
    by (simp add: Let_def)
qed

text \<open>A first build, and the cache it leaves.\<close>

definition demo_started :: system where
  "demo_started = new_system\<lparr>sy_cache := snd (get_enter demo_spec 3 new_cache), sy_building := [0]\<rparr>"

lemma demo_start_step: "step demo_options new_system demo_started"
proof -
  have "get_enter demo_spec 3 new_cache = (GetBuild 0, snd (get_enter demo_spec 3 new_cache))"
    by (simp add: get_enter_def Let_def new_cache_def)
  then show ?thesis
    using step.start [of demo_spec 3 new_system 0 _ demo_options]
    by (simp add: demo_started_def new_system_def)
qed

lemma demo_started_reachable: "reachable demo_options demo_started"
  by (rule reachable_step [OF reachable_new demo_start_step])

lemma demo_started_flight:
  "sy_building demo_started = [0]" "fl_key (ca_flights (sy_cache demo_started) ! 0) = spec_key demo_spec"
  "ca_clients (sy_cache demo_started) = []" "ca_entries (sy_cache demo_started) = []"
  by (simp_all add: demo_started_def get_enter_def Let_def new_cache_def new_system_def notify_def)

theorem cache_invariant_witness:
  "map_of (ca_entries (sy_cache demo_started)) (spec_key demo_spec) = None \<and>
   int (cache_len (sy_cache demo_started)) \<le> 1"
proof -
  have mx: "0 < co_max demo_options" by (simp add: demo_options_def)
  from cache_invariant [OF mx demo_started_reachable] show ?thesis
    by (simp add: demo_options_def Let_def demo_started_flight)
qed

theorem get_serves_open_client_witness:
  "\<exists>st. get_built demo_options 0 (Inr \<lparr>bc_key = spec_key demo_spec, bc_ops = []\<rparr>) 4 (sy_cache demo_started) = Some st \<and>
     map_of (ca_entries st) (spec_key demo_spec) = Some 0 \<and> \<not> cl_closed (ca_clients st ! 0)"
proof -
  have "0 < co_max demo_options" "(4 :: int) < max_int64"
    by (simp_all add: demo_options_def max_int64_def)
  from get_serves_open_client [OF this(1) demo_started_reachable this(2), THEN conjunct2, of 0
      "\<lparr>bc_key = spec_key demo_spec, bc_ops = []\<rparr>"]
  show ?thesis by (auto simp: demo_started_flight Let_def)
qed

text \<open>What a finished build makes of the cache, written out.\<close>

lemma built_explicit:
  assumes wf: "cache_wf {} c" and pp: "p \<in> snd ` set (ca_pending c)"
    and key: "bc_key bc = fl_key (ca_flights c ! p)" and mx: "0 < co_max opts" and now: "now < max_int64"
  obtains st P where "get_built opts p (Inr bc) now c = Some st"
    "ca_entries st = filter P (ca_entries c) @ [(bc_key bc, length (ca_clients c))]"
    "length (filter (\<lambda>x. \<not> P x) (ca_entries c)) = nat (int (length (ca_entries c)) + 1 - co_max opts)"
    "ca_events st = ca_events c @
       ClientBuilt (bc_key bc) # replicate (length (filter (\<lambda>x. \<not> P x) (ca_entries c))) ClientEvicted"
    "\<forall>(k, i) \<in> set (filter (\<lambda>x. \<not> P x) (ca_entries c)). \<forall>(k', i') \<in> set (filter P (ca_entries c)).
       cl_last_used (ca_clients c ! i) \<le> cl_last_used (ca_clients c ! i')"
    "length (ca_clients st) = Suc (length (ca_clients c))"
    "\<forall>j < length (ca_clients c). ca_clients st ! j =
       (if j \<in> snd ` set (filter (\<lambda>x. \<not> P x) (ca_entries c)) then retire (ca_clients c ! j) else ca_clients c ! j)"
    "ca_clients st ! length (ca_clients c) = acquire now (new_client (bc_key bc))"
    "bc_key bc \<notin> fst ` set (ca_entries c)"
proof -
  let ?k = "bc_key bc"
  let ?i = "length (ca_clients c)"
  let ?l = "landed p ?k (Inr ?i) [new_client ?k] c"
  have lwf: "cache_wf {?i} ?l" by (rule wf_landed_client [OF wf pp key])
  have "?k \<in> fst ` set (ca_pending c)"
    using image_eqI [OF _ pending_of_flight(1) [OF wf pp], of "?k" fst] key by simp
  then have kn: "?k \<notin> fst ` set (ca_entries c)"
    using wf unfolding cache_wf_def flights_ok_def by blast
  have el: "ca_entries ?l = ca_entries c" by (simp add: landed_def)
  have "?k \<notin> fst ` set (ca_entries ?l)" "?k \<notin> fst ` set (ca_pending ?l)"
    "cl_key (ca_clients ?l ! ?i) = ?k" "?i < length (ca_clients ?l)"
    using kn by (auto simp: landed_def new_client_def nth_append)
  from insert_landed [OF lwf this(4,3,1,2) mx now] obtain st' n st0 where
    ins: "insert_client (co_max opts) ?k ?i ?l = Some (st', n)"
    and n: "n = nat (int (length (ca_entries c)) + 1 - co_max opts)"
    and ev: "evicted_to ?l st0" "lru_evicted ?l st0"
    and cnt: "length (ca_entries st0) + n = length (ca_entries c)"
    and st': "st' = st0\<lparr>ca_entries := ca_entries st0 @ [(?k, ?i)]\<rparr>" unfolding el by auto
  from ev(1) obtain P where P: "ca_entries st0 = filter P (ca_entries c)"
    by (auto simp: evicted_to_def el)
  have out: "set (ca_entries ?l) - set (ca_entries st0) = set (filter (\<lambda>x. \<not> P x) (ca_entries c))"
    by (auto simp: el P)
  have n': "n = length (filter (\<lambda>x. \<not> P x) (ca_entries c))"
    using cnt sum_length_filter_compl [of P "ca_entries c"] by (simp add: P)
  have last: "cl_last_used (ca_clients ?l ! i) = cl_last_used (ca_clients c ! i)"
    if "(k, i) \<in> set (ca_entries c)" for k i
    using wf_entry [OF wf that] by (simp add: landed_def nth_append)
  have len: "length (ca_clients st0) = Suc ?i" using ev(1) by (simp add: evicted_to_def landed_def)
  have fresh: "?i \<notin> snd ` set (ca_entries c)" using wf_entry [OF wf] by fastforce
  have cl: "ca_clients st0 ! j = (if j \<in> snd ` set (filter (\<lambda>x. \<not> P x) (ca_entries c))
      then retire (ca_clients ?l ! j) else ca_clients ?l ! j)" if "j < Suc ?i" for j
    using ev(1) that by (simp add: evicted_to_def out del: set_filter) (simp add: landed_def)
  let ?st = "notify (ClientBuilt ?k # replicate n ClientEvicted) (on_client ?i (acquire now) st')"
  show thesis
  proof (rule that [of ?st P])
    show "get_built opts p (Inr bc) now c = Some ?st"
      using ins by (simp add: get_built_landed(2) [OF key])
    show "ca_entries ?st = filter P (ca_entries c) @ [(?k, ?i)]" by (simp add: st' P)
    show "ca_events ?st = ca_events c @
       ClientBuilt ?k # replicate (length (filter (\<lambda>x. \<not> P x) (ca_entries c))) ClientEvicted"
      using ev(1) by (simp add: notify_def st' n' evicted_to_def landed_def)
    show "\<forall>(k, i) \<in> set (filter (\<lambda>x. \<not> P x) (ca_entries c)). \<forall>(k', i') \<in> set (filter P (ca_entries c)).
       cl_last_used (ca_clients c ! i) \<le> cl_last_used (ca_clients c ! i')"
    proof (clarify, goal_cases)
      case (1 k i k' i')
      from ev(2) have "\<forall>(k, i) \<in> set (filter (\<lambda>x. \<not> P x) (ca_entries c)). \<forall>(k', i') \<in> set (filter P (ca_entries c)).
          cl_last_used (ca_clients ?l ! i) \<le> cl_last_used (ca_clients ?l ! i')"
        by (simp only: lru_evicted_def out) (simp only: P)
      with 1 have "cl_last_used (ca_clients ?l ! i) \<le> cl_last_used (ca_clients ?l ! i')" by blast
      with 1 last [of k i] last [of k' i'] show ?case by simp
    qed
    show "\<forall>j < ?i. ca_clients ?st ! j =
       (if j \<in> snd ` set (filter (\<lambda>x. \<not> P x) (ca_entries c)) then retire (ca_clients c ! j) else ca_clients c ! j)"
      using cl len by (simp add: st') (simp add: landed_def nth_append)
    show "ca_clients ?st ! ?i = acquire now (new_client ?k)"
      using cl [of ?i] len fresh by (auto simp: st' landed_def nth_append)
  qed (use n n' kn len in \<open>simp_all add: st'\<close>)
qed

text \<open>
  C12. Inserting a finished build into the cache of a reachable state comes to an end. It evicts
  exactly as many clients as are over the bound with the new one, none of them used after a client
  that stays, reports each eviction, and closes the evicted clients nobody holds.
\<close>

theorem insert_evicts_least_recent:
  assumes "0 < co_max opts" "reachable opts y" "now < max_int64" "p \<in> set (sy_building y)"
    and "bc_key bc = fl_key (ca_flights (sy_cache y) ! p)" and "c = sy_cache y"
  shows "\<exists>st out. get_built opts p (Inr bc) now c = Some st \<and>
      set out = set (ca_entries c) - set (ca_entries st) \<and>
      set (ca_entries st) - {(bc_key bc, length (ca_clients c))} \<subseteq> set (ca_entries c) \<and>
      length (ca_entries st) + length out = length (ca_entries c) + 1 \<and>
      length out = nat (int (length (ca_entries c)) + 1 - co_max opts) \<and>
      ca_events st = ca_events c @ ClientBuilt (bc_key bc) # replicate (length out) ClientEvicted \<and>
      (\<forall>(k, i) \<in> set out. \<forall>(k', i') \<in> set (ca_entries st) \<inter> set (ca_entries c).
         cl_last_used (ca_clients c ! i) \<le> cl_last_used (ca_clients c ! i')) \<and>
      (\<forall>(k, i) \<in> set out. cl_retired (ca_clients st ! i) \<and>
         (cl_inflight (ca_clients c ! i) = 0 \<longrightarrow> cl_closed (ca_clients st ! i)))"
proof -
  from assms(4,6) reachable_ok [OF assms(1,2)] have wf: "cache_wf {} c" and pp: "p \<in> snd ` set (ca_pending c)"
    by (simp_all add: system_ok_def)
  have key: "bc_key bc = fl_key (ca_flights c ! p)" using assms(5,6) by simp
  from built_explicit [OF wf pp key assms(1,3)] obtain st P where b:
    "get_built opts p (Inr bc) now c = Some st"
    "ca_entries st = filter P (ca_entries c) @ [(bc_key bc, length (ca_clients c))]"
    "length (filter (\<lambda>x. \<not> P x) (ca_entries c)) = nat (int (length (ca_entries c)) + 1 - co_max opts)"
    "ca_events st = ca_events c @
       ClientBuilt (bc_key bc) # replicate (length (filter (\<lambda>x. \<not> P x) (ca_entries c))) ClientEvicted"
    "\<forall>(k, i) \<in> set (filter (\<lambda>x. \<not> P x) (ca_entries c)). \<forall>(k', i') \<in> set (filter P (ca_entries c)).
       cl_last_used (ca_clients c ! i) \<le> cl_last_used (ca_clients c ! i')"
    "\<forall>j < length (ca_clients c). ca_clients st ! j =
       (if j \<in> snd ` set (filter (\<lambda>x. \<not> P x) (ca_entries c)) then retire (ca_clients c ! j) else ca_clients c ! j)"
    "bc_key bc \<notin> fst ` set (ca_entries c)" .
  let ?out = "filter (\<lambda>x. \<not> P x) (ca_entries c)"
  have new: "(bc_key bc, length (ca_clients c)) \<notin> set (ca_entries c)" using b(7) by force
  have "cl_retired (ca_clients st ! i) \<and> (cl_inflight (ca_clients c ! i) = 0 \<longrightarrow> cl_closed (ca_clients st ! i))"
    if ki: "(k, i) \<in> set ?out" for k i
  proof -
    from ki have "i < length (ca_clients c)" using wf_entry [OF wf, of k i] by simp
    moreover from ki have "i \<in> snd ` set ?out" by force
    ultimately have "ca_clients st ! i = retire (ca_clients c ! i)" using b(6) by (simp del: set_filter)
    then show ?thesis by (simp add: retire_def close_client_def Let_def)
  qed
  then have ret: "\<forall>(k, i) \<in> set ?out. cl_retired (ca_clients st ! i) \<and>
      (cl_inflight (ca_clients c ! i) = 0 \<longrightarrow> cl_closed (ca_clients st ! i))" by blast
  have out: "set ?out = set (ca_entries c) - set (ca_entries st)"
    and sub: "set (ca_entries st) - {(bc_key bc, length (ca_clients c))} \<subseteq> set (ca_entries c)"
    and stay: "set (ca_entries st) \<inter> set (ca_entries c) = set (filter P (ca_entries c))" using new b(2) by auto
  have total: "length (ca_entries st) + length ?out = length (ca_entries c) + 1"
    using sum_length_filter_compl [of P "ca_entries c"] b(2) by simp
  from b(5) have lru: "\<forall>(k, i) \<in> set ?out. \<forall>(k', i') \<in> set (ca_entries st) \<inter> set (ca_entries c).
      cl_last_used (ca_clients c ! i) \<le> cl_last_used (ca_clients c ! i')" unfolding stay .
  show ?thesis
    by (intro exI [of _ st] exI [of _ ?out] conjI b(1) out sub total b(3) b(4) lru ret)
qed

theorem insert_evicts_least_recent_witness:
  "\<exists>st. get_built demo_options 0 (Inr \<lparr>bc_key = spec_key demo_spec, bc_ops = []\<rparr>) 4 (sy_cache demo_started) = Some st \<and>
     length (ca_entries st) = 1"
proof -
  have mx: "0 < co_max demo_options" "(4 :: int) < max_int64"
    by (simp_all add: demo_options_def max_int64_def)
  have p: "0 \<in> set (sy_building demo_started)" by (simp add: demo_started_flight)
  have k: "bc_key \<lparr>bc_key = spec_key demo_spec, bc_ops = []\<rparr> = fl_key (ca_flights (sy_cache demo_started) ! 0)"
    by (simp add: demo_started_flight)
  from insert_evicts_least_recent [OF mx(1) demo_started_reachable mx(2) p k refl]
  show ?thesis by (auto simp: demo_started_flight)
qed

text \<open>Without a positive bound the loop does not return: the configuration has to exclude it.\<close>

lemma insert_loop_below:
  assumes "insert_loop mx st e = Some r"
  shows "int (length (ca_entries (fst r))) < mx"
  by (rule insert_loop.raw_induct [where P = "\<lambda>mx st e r. int (length (ca_entries (fst r))) < mx", OF _ assms])
    (auto split: if_splits)

lemma insert_loop_diverges: "mx \<le> 0 \<Longrightarrow> insert_loop mx st e = None"
  using insert_loop_below [of mx st e] by (cases "insert_loop mx st e") fastforce+

section \<open>Sweeping and closing\<close>

definition idle :: "cache_options \<Rightarrow> int \<Rightarrow> cache \<Rightarrow> string \<times> nat \<Rightarrow> bool" where
  "idle opts now c e =
     (cl_last_used (ca_clients c ! snd e) < now - co_idle_ttl opts \<and> cl_inflight (ca_clients c ! snd e) = 0)"

lemma sweep_loop_exact:
  assumes "cache_wf X st" "set es \<subseteq> set (ca_entries st)" "distinct (map fst es)"
    and "sweep_loop cutoff es st n = (st', m)"
    and "P = (\<lambda>e. cl_last_used (ca_clients st ! snd e) < cutoff \<and> cl_inflight (ca_clients st ! snd e) = 0)"
  shows "ca_entries st' = filter (\<lambda>e. \<not> (e \<in> set es \<and> P e)) (ca_entries st) \<and>
    m = n + length (filter P es) \<and> ca_events st' = ca_events st"
  using assms
proof (induction es arbitrary: st n P)
  case (Cons e es)
  obtain k i where e: "e = (k, i)" by (cases e)
  show ?case
  proof (cases "P e")
    case False
    with Cons.prems e have "sweep_loop cutoff es st n = (st', m)" by (auto simp: Let_def)
    from Cons.IH [OF Cons.prems(1) _ _ this Cons.prems(5)] Cons.prems(2,3) False show ?thesis
      by (auto intro!: filter_cong)
  next
    case True
    let ?st1 = "evict k st"
    from True Cons.prems e have r: "sweep_loop cutoff es ?st1 (Suc n) = (st', m)" by (simp add: Let_def)
    have dk: "distinct (map fst (ca_entries st))"
      using Cons.prems(1) by (simp add: cache_wf_def entries_ok_def)
    have kin: "(k, i) \<in> set (ca_entries st)" using Cons.prems(2) e by simp
    have sub: "set es \<subseteq> set (ca_entries ?st1)" using Cons.prems(2,3) e by force
    have last: "cl_last_used (ca_clients ?st1 ! snd x) = cl_last_used (ca_clients st ! snd x) \<and>
        cl_inflight (ca_clients ?st1 ! snd x) = cl_inflight (ca_clients st ! snd x)" if "x \<in> set (ca_entries st)" for x
      using evicted_to_last_used [OF evicted_to_evict [OF Cons.prems(1)]] wf_entry [OF Cons.prems(1), of "fst x" "snd x"] that
      by simp
    let ?P1 = "\<lambda>e. cl_last_used (ca_clients ?st1 ! snd e) < cutoff \<and> cl_inflight (ca_clients ?st1 ! snd e) = 0"
    from Cons.IH [OF wf_evict [OF Cons.prems(1)] sub _ r refl] Cons.prems(3)
    have ih: "ca_entries st' = filter (\<lambda>e. \<not> (e \<in> set es \<and> ?P1 e)) (ca_entries ?st1)"
      "m = Suc n + length (filter ?P1 es)" "ca_events st' = ca_events ?st1" by auto
    have PP: "x \<in> set (ca_entries st) \<Longrightarrow> ?P1 x = P x" for x using last [of x] Cons.prems(5) by simp
    have key: "x \<in> set (ca_entries st) \<Longrightarrow> (fst x = k) = (x = e)" for x
      using dk kin e by (cases x) (metis fst_conv map_of_eq_Some_iff option.inject)
    have "filter (\<lambda>x. \<not> (x \<in> set es \<and> ?P1 x)) (ca_entries ?st1) =
        filter (\<lambda>x. \<not> (x \<in> set (e # es) \<and> P x)) (ca_entries st)"
      using True key PP by (auto simp: case_prod_unfold intro!: filter_cong)
    moreover have "filter ?P1 es = filter P es"
      using PP Cons.prems(2) by (intro filter_cong) auto
    ultimately show ?thesis using ih True by simp
  qed
qed simp

text \<open>
  A sweep removes exactly the clients that nobody holds and that were last used before the idle
  time, closes each of them, reports and counts them; every other client stays as it was.
\<close>

theorem sweep_exact:
  assumes "0 < co_max opts" "reachable opts y"
  shows "let c = sy_cache y; (st, n) = sweep opts now c in
    ca_entries st = filter (\<lambda>e. \<not> idle opts now c e) (ca_entries c) \<and>
    n = length (filter (idle opts now c) (ca_entries c)) \<and>
    ca_events st = ca_events c @ replicate n ClientEvicted \<and>
    (\<forall>i < length (ca_clients c).
       if i \<in> snd ` set (filter (idle opts now c) (ca_entries c))
       then cl_closed (ca_clients st ! i) \<and> i \<notin> set (sy_held y)
       else ca_clients st ! i = ca_clients c ! i)"
proof -
  let ?c = "sy_cache y"
  have ok: "system_ok opts y" by (rule reachable_ok [OF assms])
  then have wf: "cache_wf {} ?c" by (simp add: system_ok_def)
  have d: "distinct (map fst (ca_entries ?c))" using wf by (simp add: cache_wf_def entries_ok_def)
  obtain st n where l: "sweep_loop (now - co_idle_ttl opts) (ca_entries ?c) ?c 0 = (st, n)"
    by (cases "sweep_loop (now - co_idle_ttl opts) (ca_entries ?c) ?c 0")
  from sweep_loop_exact [OF wf subset_refl d l refl] have ex:
    "ca_entries st = filter (\<lambda>e. \<not> idle opts now ?c e) (ca_entries ?c)"
    "n = length (filter (idle opts now ?c) (ca_entries ?c))" "ca_events st = ca_events ?c"
    by (auto simp: idle_def intro!: filter_cong arg_cong [where f = length])
  from sweep_loop_evicts [OF wf l] have ev: "evicted_to ?c st" by simp
  have out: "set (ca_entries ?c) - set (ca_entries st) = set (filter (idle opts now ?c) (ca_entries ?c))"
    by (auto simp: ex(1))
  have "if i \<in> snd ` set (filter (idle opts now ?c) (ca_entries ?c))
       then cl_closed (ca_clients st ! i) \<and> i \<notin> set (sy_held y)
       else ca_clients st ! i = ca_clients ?c ! i" if i: "i < length (ca_clients ?c)" for i
  proof (cases "i \<in> snd ` set (filter (idle opts now ?c) (ca_entries ?c))")
    case True
    then have z: "cl_inflight (ca_clients ?c ! i) = 0" by (auto simp: idle_def)
    with ok i have "i \<notin> set (sy_held y)" by (simp add: system_ok_def count_list_0_iff [symmetric])
    moreover from ev i True have "ca_clients st ! i = retire (ca_clients ?c ! i)"
      by (simp add: evicted_to_def out del: set_filter)
    ultimately show ?thesis using True z by (simp add: retire_def close_client_def Let_def)
  next
    case False
    with ev i show ?thesis by (simp add: evicted_to_def out del: set_filter)
  qed
  with ex l show ?thesis by (simp add: sweep_def notify_def)
qed

theorem sweep_exact_witness:
  "snd (sweep demo_options 99 (sy_cache demo_started)) = 0"
proof -
  have mx: "0 < co_max demo_options" by (simp add: demo_options_def)
  from sweep_exact [OF mx demo_started_reachable, of 99] show ?thesis
    by (auto simp: Let_def demo_started_flight split: prod.splits)
qed

text \<open>
  Closing the cache leaves nothing open: it empties it, and once no caller holds a client and no
  build is in progress, every client that was ever built is closed.
\<close>

theorem close_cache_closes_all:
  assumes "0 < co_max opts" "reachable opts y"
  shows "ca_entries (close_cache (sy_cache y)) = [] \<and>
    (\<forall>i < length (ca_clients (sy_cache y)).
       cl_retired (ca_clients (close_cache (sy_cache y)) ! i) \<and>
       (i \<notin> set (sy_held y) \<longrightarrow> cl_closed (ca_clients (close_cache (sy_cache y)) ! i)))"
proof -
  have y: "reachable opts (y\<lparr>sy_cache := close_cache (sy_cache y)\<rparr>)"
    by (rule reachable_step [OF assms(2) step.closed])
  have l: "length (ca_clients (close_cache (sy_cache y))) = length (ca_clients (sy_cache y))"
    using fold_evict_evicts [of "{}" "sy_cache y" "ca_entries (sy_cache y)"] reachable_ok [OF assms]
    by (simp add: close_cache_def system_ok_def evicted_to_def)
  from system_ok_client [OF reachable_ok [OF assms(1) y]] l show ?thesis
    by (simp add: close_cache_entries)
qed

theorem close_cache_closes_all_witness: "ca_entries (close_cache (sy_cache demo_started)) = []"
proof -
  have mx: "0 < co_max demo_options" by (simp add: demo_options_def)
  from close_cache_closes_all [OF mx demo_started_reachable] show ?thesis by blast
qed

section \<open>Waiting callers\<close>

text \<open>
  A run with a bound of one client: a caller waits for a build; the builder's own request ends and
  another spec evicts the client, all before the waiting caller takes it.
\<close>

definition other_spec :: spec where
  "other_spec = spec_of zero_directive"

lemma other_key: "spec_key demo_spec \<noteq> spec_key other_spec"
  by code_simp

definition client_at :: "string \<Rightarrow> int \<Rightarrow> int \<Rightarrow> client" where
  "client_at key n at =
     \<lparr>cl_key = key, cl_inflight = n, cl_last_used = at, cl_retired = False, cl_closed = False,
      cl_idle_flushed = False\<rparr>"

definition late_cache :: "(string \<times> nat) list \<Rightarrow> (string \<times> nat) list \<Rightarrow> client list \<Rightarrow> flight list \<Rightarrow>
    cache_event list \<Rightarrow> cache" where
  "late_cache es ps cs fs evs =
     \<lparr>ca_entries = es, ca_pending = ps, ca_clients = cs, ca_flights = fs, ca_events = evs\<rparr>"

lemmas late_defs =
  late_cache_def get_enter_def get_built_def insert_client_def insert_loop.simps evict_def
  on_client_def notify_def least_recent_def client_defs client_at_def Let_def share_def

abbreviation "ka \<equiv> spec_key demo_spec"
abbreviation "kb \<equiv> spec_key other_spec"

lemma late_1: "get_enter demo_spec 1 new_cache =
    (GetBuild 0, late_cache [] [(ka, 0)] [] [\<lparr>fl_key = ka, fl_result = None\<rparr>] [CacheMiss])"
  by (simp add: late_defs new_cache_def)

lemma late_2: "get_enter demo_spec 2 (late_cache [] [(ka, 0)] [] [\<lparr>fl_key = ka, fl_result = None\<rparr>] [CacheMiss]) =
    (GetWait 0, late_cache [] [(ka, 0)] [] [\<lparr>fl_key = ka, fl_result = None\<rparr>] [CacheMiss, CacheHit])"
  by (simp add: late_defs)

lemma late_3: "get_built demo_options 0 (Inr \<lparr>bc_key = ka, bc_ops = []\<rparr>) 3
      (late_cache [] [(ka, 0)] [] [\<lparr>fl_key = ka, fl_result = None\<rparr>] [CacheMiss, CacheHit]) =
    Some (late_cache [(ka, 0)] [] [client_at ka 1 3] [\<lparr>fl_key = ka, fl_result = Some (Inr 0)\<rparr>]
      [CacheMiss, CacheHit, ClientBuilt ka])"
  by (simp add: late_defs demo_options_def)

lemma late_4: "on_client 0 release
      (late_cache [(ka, 0)] [] [client_at ka 1 3] fs evs) = late_cache [(ka, 0)] [] [client_at ka 0 3] fs evs"
  by (simp add: late_defs)

lemma late_5: "get_enter other_spec 4 (late_cache [(ka, 0)] [] cs [f] evs) =
    (GetBuild 1, late_cache [(ka, 0)] [(kb, 1)] cs [f, \<lparr>fl_key = kb, fl_result = None\<rparr>] (evs @ [CacheMiss]))"
  using other_key by (simp add: late_defs)

lemma late_6: "get_built demo_options 1 (Inr \<lparr>bc_key = kb, bc_ops = []\<rparr>) 5
      (late_cache [(ka, 0)] [(kb, 1)] [client_at ka 0 3] [f, \<lparr>fl_key = kb, fl_result = None\<rparr>] evs) =
    Some (late_cache [(kb, 1)] [] [(client_at ka 0 3)\<lparr>cl_retired := True, cl_closed := True, cl_idle_flushed := True\<rparr>,
        client_at kb 1 5] [f, \<lparr>fl_key = kb, fl_result = Some (Inr 1)\<rparr>] (evs @ [ClientBuilt kb, ClientEvicted]))"
  using other_key by (simp add: late_defs demo_options_def max_int64_def)

text \<open>
  C38. The cache can hand a waiting caller a client that is already closed, so that its request fails
  although the build succeeded: nothing keeps a finished build alive until those that waited for it
  have taken it.
\<close>

theorem waiting_caller_gets_closed_client:
  "\<exists>opts y p i st. 0 < co_max opts \<and> reachable opts y \<and> p \<in> set (sy_waiting y) \<and>
     share p 6 (sy_cache y) = Some (Inr i, st) \<and>
     (\<forall>transport capture r. client_round_trip transport (ca_clients st ! i) capture r = Inl ErrClosed)"
proof -
  let ?f0 = "\<lparr>fl_key = ka, fl_result = None\<rparr>"
  let ?f1 = "\<lparr>fl_key = ka, fl_result = Some (Inr 0)\<rparr>"
  let ?g0 = "\<lparr>fl_key = kb, fl_result = None\<rparr>"
  let ?g1 = "\<lparr>fl_key = kb, fl_result = Some (Inr 1)\<rparr>"
  let ?dead = "(client_at ka 0 3)\<lparr>cl_retired := True, cl_closed := True, cl_idle_flushed := True\<rparr>"
  let ?e2 = "[CacheMiss, CacheHit]"
  let ?e3 = "?e2 @ [ClientBuilt ka]"
  let ?e5 = "?e3 @ [CacheMiss]"
  let ?c1 = "late_cache [] [(ka, 0)] [] [?f0] [CacheMiss]"
  let ?c2 = "late_cache [] [(ka, 0)] [] [?f0] ?e2"
  let ?c3 = "late_cache [(ka, 0)] [] [client_at ka 1 3] [?f1] ?e3"
  let ?c4 = "late_cache [(ka, 0)] [] [client_at ka 0 3] [?f1] ?e3"
  let ?c5 = "late_cache [(ka, 0)] [(kb, 1)] [client_at ka 0 3] [?f1, ?g0] ?e5"
  let ?c6 = "late_cache [(kb, 1)] [] [?dead, client_at kb 1 5] [?f1, ?g1] (?e5 @ [ClientBuilt kb, ClientEvicted])"
  define y where "y c h b w = \<lparr>sy_cache = c, sy_held = h, sy_building = b, sy_waiting = w\<rparr>" for c h b w
  let ?o = demo_options
  have t: "(3 :: int) < max_int64" "(5 :: int) < max_int64" by (simp_all add: max_int64_def)
  have s1: "step ?o new_system (y ?c1 [] [0] [])"
    using step.start [of demo_spec 1 new_system 0 ?c1 ?o] late_1 by (simp add: y_def new_system_def)
  have s2: "step ?o (y ?c1 [] [0] []) (y ?c2 [] [0] [0])"
    using step.wait [of demo_spec 2 "y ?c1 [] [0] []" 0 ?c2 ?o] late_2 by (simp add: y_def)
  have s3: "step ?o (y ?c2 [] [0] [0]) (y ?c3 [0] [] [0])"
    using step.built [of 0 "y ?c2 [] [0] [0]" "\<lparr>bc_key = ka, bc_ops = []\<rparr>" ?o 3 ?c3] late_3 t
    by (simp add: y_def) (simp add: late_cache_def)
  have s4: "step ?o (y ?c3 [0] [] [0]) (y ?c4 [] [] [0])"
    using step.released [of 0 "y ?c3 [0] [] [0]" ?o] late_4 by (simp add: y_def)
  have s5: "step ?o (y ?c4 [] [] [0]) (y ?c5 [] [1] [0])"
    using step.start [of other_spec 4 "y ?c4 [] [] [0]" 1 ?c5 ?o] late_5 [of _ ?f1 ?e3] by (simp add: y_def)
  have s6: "step ?o (y ?c5 [] [1] [0]) (y ?c6 [1] [] [0])"
    using step.built [of 1 "y ?c5 [] [1] [0]" "\<lparr>bc_key = kb, bc_ops = []\<rparr>" ?o 5 ?c6] late_6 [of ?f1 ?e5] t
    by (simp add: y_def) (simp add: late_cache_def)
  have "reachable ?o (y ?c6 [1] [] [0])"
    by (rule reachable_step [OF reachable_step [OF reachable_step [OF reachable_step [OF
        reachable_step [OF reachable_step [OF reachable_new s1] s2] s3] s4] s5] s6])
  moreover have "share 0 6 (sy_cache (y ?c6 [1] [] [0])) = Some (Inr 0, on_client 0 (acquire 6) ?c6)"
    by (simp add: y_def share_def) (simp add: late_cache_def)
  moreover have "client_round_trip tr (ca_clients (on_client 0 (acquire 6) ?c6) ! 0) cp r = Inl ErrClosed" for tr cp r
    by (simp add: client_round_trip_def late_cache_def on_client_def)
  moreover have "0 < co_max ?o" "0 \<in> set (sy_waiting (y ?c6 [1] [] [0]))"
    by (simp_all add: demo_options_def y_def)
  ultimately show ?thesis by blast
qed

end
