(* ===== verification/Tip_Pool.thy ===== *)
theory Tip_Pool
  imports Tip_Cache
begin

text \<open>
  What the cache of clients promises, as an abstract pool, and that \<^theory_text>\<open>Tip_Cache\<close> implements it: every step
  of the cache and its callers is a step of the pool or changes nothing the pool sees.
\<close>

section \<open>The pool\<close>

text \<open>
  The pool maps each key to the one client that serves it, and knows when a client was last used, who
  holds it (once per holder), how many were ever made, and which are closed. There is no map order, no
  pending build, no flight and no reference count.
\<close>

record pool =
  po_open :: "string \<rightharpoonup> nat"
  po_used :: "nat \<Rightarrow> int"
  po_held :: "nat multiset"
  po_made :: nat
  po_closed :: "nat set"

definition empty_pool :: pool where
  "empty_pool = \<lparr>po_open = Map.empty, po_used = (\<lambda>_. 0), po_held = {#}, po_made = 0, po_closed = {}\<rparr>"

definition hold :: "nat \<Rightarrow> int \<Rightarrow> pool \<Rightarrow> pool" where
  "hold i now s = s\<lparr>po_used := (po_used s)(i := now), po_held := add_mset i (po_held s)\<rparr>"

text \<open>A client is closed as soon as the pool no longer serves it and nobody holds it.\<close>

definition settle :: "pool \<Rightarrow> pool" where
  "settle s = s\<lparr>po_closed := po_closed s \<union> {i. i < po_made s \<and> i \<notin> ran (po_open s) \<and> i \<notin># po_held s}\<rparr>"

definition drop_keys :: "string set \<Rightarrow> pool \<Rightarrow> pool" where
  "drop_keys K s = s\<lparr>po_open := po_open s |` (- K)\<rparr>"

text \<open>The keys that may make room: so many, and none used after one that stays.\<close>

definition least_used :: "pool \<Rightarrow> string set \<Rightarrow> bool" where
  "least_used s K =
     (K \<subseteq> dom (po_open s) \<and>
      (\<forall>k i k' i'. k \<in> K \<and> po_open s k = Some i \<and> k' \<notin> K \<and> po_open s k' = Some i' \<longrightarrow>
         po_used s i \<le> po_used s i'))"

definition expired :: "int \<Rightarrow> pool \<Rightarrow> string set" where
  "expired cutoff s = {k. \<exists>i. po_open s k = Some i \<and> po_used s i < cutoff \<and> i \<notin># po_held s}"

inductive pool_step :: "cache_options \<Rightarrow> pool \<Rightarrow> pool \<Rightarrow> bool" for opts where
  same: "pool_step opts s s"
| serve: "po_open s k = Some i \<Longrightarrow> pool_step opts s (hold i now s)"
| make: "po_open s k = None \<Longrightarrow> least_used s K \<Longrightarrow>
     card K = nat (int (card (dom (po_open s))) + 1 - co_max opts) \<Longrightarrow>
     s' = drop_keys K s \<Longrightarrow>
     pool_step opts s
       (settle (hold (po_made s) now (s'\<lparr>po_open := (po_open s')(k \<mapsto> po_made s), po_made := Suc (po_made s)\<rparr>)))"
| late: "i < po_made s \<Longrightarrow> pool_step opts s (hold i now s)"
| give_back: "i \<in># po_held s \<Longrightarrow> pool_step opts s (settle (s\<lparr>po_held := po_held s - {#i#}\<rparr>))"
| expire: "pool_step opts s (settle (drop_keys (expired (now - co_idle_ttl opts) s) s))"
| shut: "pool_step opts s (settle (s\<lparr>po_open := Map.empty\<rparr>))"

section \<open>The cache as a pool\<close>

definition pool_of :: "system \<Rightarrow> pool" where
  "pool_of y =
     (let c = sy_cache y in
      \<lparr>po_open = map_of (ca_entries c),
       po_used = (\<lambda>i. if i < length (ca_clients c) then cl_last_used (ca_clients c ! i) else 0),
       po_held = mset (sy_held y), po_made = length (ca_clients c),
       po_closed = {i. i < length (ca_clients c) \<and> cl_closed (ca_clients c ! i)}\<rparr>)"

lemma pool_of_simps [simp]:
  "po_open (pool_of y) = map_of (ca_entries (sy_cache y))" "po_held (pool_of y) = mset (sy_held y)"
  "po_made (pool_of y) = length (ca_clients (sy_cache y))"
  "i < length (ca_clients (sy_cache y)) \<Longrightarrow> po_used (pool_of y) i = cl_last_used (ca_clients (sy_cache y) ! i)"
  by (simp_all add: pool_of_def Let_def)

lemma closed_of:
  "po_closed (pool_of y) = {i. i < length (ca_clients (sy_cache y)) \<and> cl_closed (ca_clients (sy_cache y) ! i)}"
  by (simp add: pool_of_def Let_def)

lemma ran_entries: "cache_wf X c \<Longrightarrow> ran (map_of (ca_entries c)) = snd ` set (ca_entries c)"
  by (auto simp: cache_wf_def entries_ok_def ran_distinct)

text \<open>
  The closed clients of the next state are settled: those closed before, and those neither served
  nor held. It is enough that no client is reopened, and that one closed by the step is unheld.
\<close>

lemma settled:
  assumes ok: "system_ok opts y'" and n: "n \<le> length (ca_clients (sy_cache y'))"
    and keep: "\<And>j. j < n \<Longrightarrow> cl_closed (cs ! j) \<Longrightarrow> cl_closed (ca_clients (sy_cache y') ! j)"
    and new: "\<And>j. j < length (ca_clients (sy_cache y')) \<Longrightarrow> cl_closed (ca_clients (sy_cache y') ! j) \<Longrightarrow>
      j < n \<and> cl_closed (cs ! j) \<or> j \<notin> set (sy_held y')"
  shows "po_closed (pool_of y') =
    {j. j < n \<and> cl_closed (cs ! j)} \<union>
    {j. j < po_made (pool_of y') \<and> j \<notin> ran (po_open (pool_of y')) \<and> j \<notin># po_held (pool_of y')}"
proof -
  have wf: "cache_wf {} (sy_cache y')" using ok by (simp add: system_ok_def)
  have open_entry: "\<not> cl_closed (ca_clients (sy_cache y') ! j)" if "(k, j) \<in> set (ca_entries (sy_cache y'))" for k j
    using that wf_entry [OF wf] by auto
  show ?thesis
    using keep new system_ok_client [OF ok] n open_entry ran_entries [OF wf]
    by (auto simp: pool_of_def Let_def) 
qed

lemma pool_eqI:
  "po_open a = po_open b \<Longrightarrow> (\<And>i. po_used a i = po_used b i) \<Longrightarrow> po_held a = po_held b \<Longrightarrow>
     po_made a = po_made b \<Longrightarrow> po_closed a = po_closed b \<Longrightarrow> a = (b :: pool)"
  by (cases a, cases b) (simp add: fun_eq_iff)

lemma pool_ops [simp]:
  "po_open (hold i now s) = po_open s" "po_held (hold i now s) = add_mset i (po_held s)"
  "po_made (hold i now s) = po_made s" "po_closed (hold i now s) = po_closed s"
  "po_used (hold i now s) = (po_used s)(i := now)"
  "po_open (settle s) = po_open s" "po_held (settle s) = po_held s" "po_made (settle s) = po_made s"
  "po_used (settle s) = po_used s"
  "po_closed (settle s) = po_closed s \<union> {i. i < po_made s \<and> i \<notin> ran (po_open s) \<and> i \<notin># po_held s}"
  "po_open (drop_keys K s) = po_open s |` (- K)" "po_held (drop_keys K s) = po_held s"
  "po_made (drop_keys K s) = po_made s" "po_closed (drop_keys K s) = po_closed s"
  "po_used (drop_keys K s) = po_used s"
  by (simp_all add: hold_def settle_def drop_keys_def)

lemma pool_same:
  assumes "map_of (ca_entries (sy_cache y')) = map_of (ca_entries (sy_cache y))"
    and "ca_clients (sy_cache y') = ca_clients (sy_cache y)" "sy_held y' = sy_held y"
  shows "pool_step opts (pool_of y) (pool_of y')"
proof -
  have "pool_of y' = pool_of y" unfolding pool_of_def Let_def assms ..
  then show ?thesis by (simp add: pool_step.same)
qed

text \<open>A caller takes a client: nothing is opened or closed.\<close>

lemma pool_hold:
  assumes "i < length (ca_clients (sy_cache y))" "sy_held y' = i # sy_held y"
    and "ca_entries (sy_cache y') = ca_entries (sy_cache y)"
    and "ca_clients (sy_cache y') = ca_clients (on_client i (acquire now) (sy_cache y))"
  shows "pool_of y' = hold i now (pool_of y)"
proof (rule pool_eqI)
  show "po_closed (pool_of y') = po_closed (hold i now (pool_of y))"
    using assms by (auto simp: pool_of_def Let_def split: if_splits)
  show "po_used (pool_of y') j = po_used (hold i now (pool_of y)) j" for j
    using assms by (auto simp: pool_of_def Let_def)
qed (use assms in simp_all)

text \<open>A run of evictions drops their keys, and closes what nobody holds.\<close>

lemma pool_drop:
  assumes ok: "system_ok opts y" "system_ok opts y'" and held: "sy_held y' = sy_held y"
    and ev: "evicted_to (sy_cache y) st0" and st: "ca_entries (sy_cache y') = ca_entries st0"
      "ca_clients (sy_cache y') = ca_clients st0"
    and P: "ca_entries st0 = filter P (ca_entries (sy_cache y))"
  shows "pool_of y' = settle (drop_keys (fst ` set (filter (\<lambda>x. \<not> P x) (ca_entries (sy_cache y)))) (pool_of y))"
proof (rule pool_eqI)
  let ?c = "sy_cache y"
  let ?K = "fst ` set (filter (\<lambda>x. \<not> P x) (ca_entries ?c))"
  from ok have wf: "cache_wf {} ?c" by (simp add: system_ok_def)
  have d: "distinct (map fst (ca_entries ?c))" using wf by (simp add: cache_wf_def entries_ok_def)
  have len: "length (ca_clients st0) = length (ca_clients ?c)" using ev by (simp add: evicted_to_def)
  show op: "po_open (pool_of y') = po_open (settle (drop_keys ?K (pool_of y)))"
    by (simp add: st P map_of_filter_restrict [OF d])
  have cl: "ca_clients st0 ! j = ca_clients ?c ! j \<or> ca_clients st0 ! j = retire (ca_clients ?c ! j)"
    if "j < length (ca_clients ?c)" for j using ev that by (auto simp: evicted_to_def)
  have "po_closed (pool_of y') = {j. j < length (ca_clients ?c) \<and> cl_closed (ca_clients ?c ! j)} \<union>
      {j. j < po_made (pool_of y') \<and> j \<notin> ran (po_open (pool_of y')) \<and> j \<notin># po_held (pool_of y')}"
  proof (rule settled [OF ok(2)], goal_cases)
    case (2 j)
    with cl [of j] show ?case by (auto simp: st retire_def close_client_def Let_def)
  next
    case (3 j)
    then have j: "j < length (ca_clients ?c)" by (simp add: st len)
    with cl [of j] 3 system_ok_client [OF ok(1) j] held show ?case
      by (auto simp: st retire_def close_client_def Let_def count_list_0_iff split: if_splits)
  qed (simp add: st len)
  moreover have "po_made (pool_of y') = po_made (pool_of y)" "po_held (pool_of y') = po_held (pool_of y)"
    by (simp_all add: st len held)
  ultimately show "po_closed (pool_of y') = po_closed (settle (drop_keys ?K (pool_of y)))"
    by (simp only: op pool_ops closed_of)
  show "po_used (pool_of y') j = po_used (settle (drop_keys ?K (pool_of y))) j" for j
    using evicted_to_last_used [OF ev, of j] by (auto simp: pool_of_def Let_def st len)
qed (use assms in \<open>simp_all add: evicted_to_def\<close>)

lemma pool_release:
  assumes ok: "system_ok opts y" and i: "i \<in> set (sy_held y)"
    and y': "y' = y\<lparr>sy_cache := on_client i release (sy_cache y), sy_held := remove1 i (sy_held y)\<rparr>"
  shows "pool_of y' = settle ((pool_of y)\<lparr>po_held := po_held (pool_of y) - {#i#}\<rparr>)"
proof (rule pool_eqI)
  let ?c = "sy_cache y"
  have ok': "system_ok opts y'" unfolding y' by (rule system_ok_released [OF ok i])
  from ok i have l: "i < length (ca_clients ?c)" by (auto simp: system_ok_def)
  have "po_closed (pool_of y') = {j. j < length (ca_clients ?c) \<and> cl_closed (ca_clients ?c ! j)} \<union>
      {j. j < po_made (pool_of y') \<and> j \<notin> ran (po_open (pool_of y')) \<and> j \<notin># po_held (pool_of y')}"
  proof (rule settled [OF ok'], goal_cases)
    case (2 j)
    then show ?case by (auto simp: y' release_def close_client_def Let_def)
  next
    case (3 j)
    then have "cl_closed (ca_clients ?c ! j) \<or> cl_inflight (ca_clients (sy_cache y') ! j) = 0"
      by (auto simp: y' release_def close_client_def Let_def split: if_splits)
    moreover have "j \<notin> set (sy_held y')" if "cl_inflight (ca_clients (sy_cache y') ! j) = 0"
      using that system_ok_client [OF ok' 3(1)] by (simp add: count_list_0_iff)
    moreover have "j < length (ca_clients ?c)" using 3(1) by (simp add: y')
    ultimately show ?case by blast
  qed (simp add: y')
  moreover have "po_made (pool_of y') = po_made (pool_of y)" "po_open (pool_of y') = po_open (pool_of y)"
    by (simp_all add: y')
  moreover have "set_mset (mset (sy_held y) - {#i#}) = set (sy_held y')" by (simp add: y' flip: mset_remove1)
  ultimately show "po_closed (pool_of y') = po_closed (settle ((pool_of y)\<lparr>po_held := po_held (pool_of y) - {#i#}\<rparr>))"
    by (simp add: closed_of)
  show "po_used (pool_of y') j = po_used (settle ((pool_of y)\<lparr>po_held := po_held (pool_of y) - {#i#}\<rparr>)) j" for j
    using l by (auto simp: pool_of_def Let_def y')
qed (simp_all add: y')

lemma card_keys: "distinct (map fst xs) \<Longrightarrow> card (fst ` set xs) = length xs"
  by (metis distinct_card length_map list.set_map)

text \<open>A finished build makes room by dropping the least recently used keys, and serves the new client.\<close>

lemma pool_make:
  assumes ok: "system_ok opts y" "system_ok opts y'" and p: "p \<in> set (sy_building y)"
    and key: "bc_key bc = fl_key (ca_flights (sy_cache y) ! p)" and mx: "0 < co_max opts" and now: "now < max_int64"
    and st: "get_built opts p (Inr bc) now (sy_cache y) = Some (sy_cache y')"
    and held: "sy_held y' = length (ca_clients (sy_cache y)) # sy_held y"
  shows "pool_step opts (pool_of y) (pool_of y')"
proof -
  let ?c = "sy_cache y" and ?c' = "sy_cache y'"
  let ?n = "length (ca_clients ?c)" and ?k = "bc_key bc"
  from ok(1) p have wf: "cache_wf {} ?c" and pp: "p \<in> snd ` set (ca_pending ?c)"
    by (auto simp: system_ok_def)
  have d: "distinct (map fst (ca_entries ?c))" using wf by (simp add: cache_wf_def entries_ok_def)
  from built_explicit [OF wf pp key mx now] obtain c' P where g: "get_built opts p (Inr bc) now ?c = Some c'"
    and b': "ca_entries c' = filter P (ca_entries ?c) @ [(?k, ?n)]"
    "length (filter (\<lambda>x. \<not> P x) (ca_entries ?c)) = nat (int (length (ca_entries ?c)) + 1 - co_max opts)"
    "\<forall>(k, i) \<in> set (filter (\<lambda>x. \<not> P x) (ca_entries ?c)). \<forall>(k', i') \<in> set (filter P (ca_entries ?c)).
       cl_last_used (ca_clients ?c ! i) \<le> cl_last_used (ca_clients ?c ! i')"
    "length (ca_clients c') = Suc ?n"
    "\<forall>j < ?n. ca_clients c' ! j =
       (if j \<in> snd ` set (filter (\<lambda>x. \<not> P x) (ca_entries ?c)) then retire (ca_clients ?c ! j) else ca_clients ?c ! j)"
    "ca_clients c' ! ?n = acquire now (new_client ?k)" "?k \<notin> fst ` set (ca_entries ?c)" .
  from g st have "c' = ?c'" by simp
  note b = b' [unfolded this]
  let ?K = "fst ` set (filter (\<lambda>x. \<not> P x) (ca_entries ?c))"
  let ?s = "drop_keys ?K (pool_of y)"
  let ?t = "hold ?n now (?s\<lparr>po_open := (po_open ?s)(?k \<mapsto> ?n), po_made := Suc ?n\<rparr>)"
  have op: "po_open (pool_of y') = (po_open ?s)(?k \<mapsto> ?n)"
  proof -
    have "map_of (filter P (ca_entries ?c)) ?k = None" using b(7) by (auto simp: map_of_eq_None_iff)
    then have "map_of (filter P (ca_entries ?c) @ [(?k, ?n)]) = (map_of (filter P (ca_entries ?c)))(?k \<mapsto> ?n)"
      by (auto simp: fun_eq_iff map_add_def split: option.splits)
    then show ?thesis by (simp add: b(1) map_of_filter_restrict [OF d])
  qed
  have cl: "cl_last_used (ca_clients ?c' ! j) = cl_last_used (ca_clients ?c ! j)"
    "cl_closed (ca_clients ?c ! j) \<Longrightarrow> cl_closed (ca_clients ?c' ! j)"
    "cl_closed (ca_clients ?c' ! j) \<Longrightarrow> cl_closed (ca_clients ?c ! j) \<or> cl_inflight (ca_clients ?c ! j) = 0"
    if "j < ?n" for j
  proof -
    from b(5) that have "ca_clients ?c' ! j = ca_clients ?c ! j \<or> ca_clients ?c' ! j = retire (ca_clients ?c ! j)"
      by metis
    then show "cl_last_used (ca_clients ?c' ! j) = cl_last_used (ca_clients ?c ! j)"
      "cl_closed (ca_clients ?c ! j) \<Longrightarrow> cl_closed (ca_clients ?c' ! j)"
      "cl_closed (ca_clients ?c' ! j) \<Longrightarrow> cl_closed (ca_clients ?c ! j) \<or> cl_inflight (ca_clients ?c ! j) = 0"
      by (auto simp: retire_def close_client_def Let_def split: if_splits)
  qed
  have "pool_of y' = settle ?t"
  proof (rule pool_eqI)
    have "po_closed (pool_of y') = {j. j < ?n \<and> cl_closed (ca_clients ?c ! j)} \<union>
        {j. j < po_made (pool_of y') \<and> j \<notin> ran (po_open (pool_of y')) \<and> j \<notin># po_held (pool_of y')}"
    proof (rule settled [OF ok(2)], goal_cases)
      case (3 j)
      show ?case
      proof (cases "j = ?n")
        case True
        with 3 b(6) show ?thesis by (simp add: new_client_def)
      next
        case False
        with 3(1) b(4) have j: "j < ?n" by simp
        with cl(3) [OF j] 3(2) system_ok_client [OF ok(1) j] False held show ?thesis
          by (auto simp: count_list_0_iff)
      qed
    qed (use cl(2) b(4) in auto)
    moreover have "po_made (pool_of y') = Suc ?n" "po_held (pool_of y') = add_mset ?n (po_held (pool_of y))"
      by (simp_all add: b(4) held)
    ultimately show "po_closed (pool_of y') = po_closed (settle ?t)"
      by (simp only: op pool_ops closed_of) (simp add: drop_keys_def closed_of)
    show "po_used (pool_of y') j = po_used (settle ?t) j" for j
      using cl(1) [of j] b(4,6) by (auto simp: pool_of_def Let_def less_Suc_eq drop_keys_def)
  qed (use op in \<open>simp_all add: b(4) held\<close>)
  moreover have "least_used (pool_of y) ?K"
    unfolding least_used_def
  proof (intro conjI allI impI, goal_cases)
    case 1
    then show ?case by (auto simp: dom_map_of_conv_image_fst)
  next
    case (2 k i k' i')
    then have e: "(k, i) \<in> set (ca_entries ?c)" "(k', i') \<in> set (ca_entries ?c)" by (auto dest: map_of_SomeD)
    from 2 obtain w where "(k, w) \<in> set (ca_entries ?c)" "\<not> P (k, w)" by auto
    moreover from this(1) have "w = i" by (rule eq_key_imp_eq_value [OF d _ e(1)])
    moreover have "P (k', i')"
    proof (rule ccontr)
      assume "\<not> P (k', i')"
      with e(2) have "k' \<in> ?K" by (intro image_eqI [of _ _ "(k', i')"]) simp_all
      with 2 show False by blast
    qed
    ultimately have "cl_last_used (ca_clients ?c ! i) \<le> cl_last_used (ca_clients ?c ! i')" using b(3) e by auto
    with wf_entry [OF wf e(1)] wf_entry [OF wf e(2)] show ?case by simp
  qed
  moreover have "card ?K = nat (int (card (dom (po_open (pool_of y)))) + 1 - co_max opts)"
    unfolding card_keys [OF distinct_map_fst_filter [OF d]] pool_of_simps(1) dom_map_of_conv_image_fst card_keys [OF d]
    by (rule b(2))
  moreover have "po_open (pool_of y) ?k = None" using b(7) by (simp add: map_of_eq_None_iff)
  ultimately show ?thesis
    using pool_step.make [of "pool_of y" ?k ?K opts ?s now] by simp
qed

lemma pool_sweep:
  assumes ok: "system_ok opts y" "system_ok opts y'"
    and y': "y' = y\<lparr>sy_cache := fst (sweep opts now (sy_cache y))\<rparr>"
  shows "pool_step opts (pool_of y) (pool_of y')"
proof -
  let ?c = "sy_cache y"
  let ?cut = "now - co_idle_ttl opts"
  from ok have wf: "cache_wf {} ?c" by (simp add: system_ok_def)
  have d: "distinct (map fst (ca_entries ?c))" using wf by (simp add: cache_wf_def entries_ok_def)
  obtain st n where l: "sweep_loop ?cut (ca_entries ?c) ?c 0 = (st, n)" by fastforce
  let ?Q = "\<lambda>e. cl_last_used (ca_clients ?c ! snd e) < ?cut \<and> cl_inflight (ca_clients ?c ! snd e) = 0"
  have e: "ca_entries st = filter (\<lambda>e. \<not> ?Q e) (ca_entries ?c)"
    using sweep_loop_exact [OF wf subset_refl d l refl] by (auto intro!: filter_cong)
  from sweep_loop_evicts [OF wf l] have ev: "evicted_to ?c st" by simp
  have "pool_of y' = settle (drop_keys (fst ` set (filter (\<lambda>e. \<not> \<not> ?Q e) (ca_entries ?c))) (pool_of y))"
    by (rule pool_drop [OF ok _ ev _ _ e]) (simp_all add: y' sweep_def l)
  moreover have "fst ` set (filter (\<lambda>e. \<not> \<not> ?Q e) (ca_entries ?c)) = expired ?cut (pool_of y)"
  proof -
    have "po_used (pool_of y) i < ?cut \<and> i \<notin># po_held (pool_of y) \<longleftrightarrow> ?Q (k, i)" if "(k, i) \<in> set (ca_entries ?c)" for k i
      using wf_entry [OF wf that] system_ok_client [OF ok(1), of i] by (auto simp: count_list_0_iff)
    moreover have "fst ` set (filter (\<lambda>e. \<not> \<not> ?Q e) (ca_entries ?c)) = {k. \<exists>i. (k, i) \<in> set (ca_entries ?c) \<and> ?Q (k, i)}"
      by force
    moreover have "expired ?cut (pool_of y) =
        {k. \<exists>i. (k, i) \<in> set (ca_entries ?c) \<and> po_used (pool_of y) i < ?cut \<and> i \<notin># po_held (pool_of y)}"
      using d by (simp add: expired_def)
    ultimately show ?thesis by blast
  qed
  ultimately show ?thesis by (simp add: pool_step.expire)
qed

section \<open>The cache implements the pool\<close>



text \<open>What holds of every pool holds of the cache: here, that it stays within its bound.\<close>

lemma pool_step_bounded:
  assumes "pool_step opts s s'" "finite (dom (po_open s))" "int (card (dom (po_open s))) \<le> co_max opts" "0 < co_max opts"
  shows "finite (dom (po_open s')) \<and> int (card (dom (po_open s'))) \<le> co_max opts"
  using assms
proof cases
  case (make k K s1 now)
  have K: "K \<subseteq> dom (po_open s)" using make(3) by (simp add: least_used_def)
  then have fin: "finite K" by (rule finite_subset) (rule assms(2))
  note f = fin card_Diff_subset [OF fin K] card_mono [OF assms(2) K]
  have "dom (po_open s') = insert k (dom (po_open s) - K)" using make(1,5) by auto
  moreover have "int (card (insert k (dom (po_open s) - K))) = int (card (dom (po_open s))) - int (card K) + 1"
    using make(2) f assms(2) by (simp add: domIff)
  ultimately show ?thesis using make(4) assms(2-4) by simp
next
  case (expire now)
  then have "dom (po_open s') \<subseteq> dom (po_open s)" by auto
  with assms show ?thesis by (meson card_mono finite_subset of_nat_mono order_trans)
qed (use assms in auto)

end
