(* ===== verification/Tip_Proxy.thy ===== *)
theory Tip_Proxy
  imports Tip_Handler Tip_Stores Tip_Cache
begin

text \<open>
  The server (\<^verbatim>\<open>internal/proxy/proxy.go\<close>): what it is set up with, what it answers itself, draining,
  and the cache of clients as its source of clients (\<^verbatim>\<open>clientSource\<close> of \<^verbatim>\<open>cmd/tip/observer.go\<close>).
\<close>

section \<open>The cache as the source of clients\<close>

text \<open>
  \<^verbatim>\<open>Get\<close> of one caller, when nobody else is building: its sections one after another. The
  state is the clock and the cache.
\<close>

definition cache_get ::
  "cache_options \<Rightarrow> (spec \<Rightarrow> (string, built_client) result) \<Rightarrow> spec \<Rightarrow> int \<times> cache \<Rightarrow>
   (string, nat) result \<times> (int \<times> cache)" where
  "cache_get opts bld sp s =
     (let (now, st) = s in
      case get_enter sp now st of
        (GetHit i, st') \<Rightarrow> (Inr i, (now, st'))
      | (GetWait p, st') \<Rightarrow> (let (r, st'') = the (share p now st') in (r, (now, st'')))
      | (GetBuild p, st') \<Rightarrow>
          (case bld sp of
             Inl e \<Rightarrow> (Inl e, (now, the (get_built opts p (Inl e) now st')))
           | Inr bc \<Rightarrow>
               (Inr (length (ca_clients st')), (now, the (get_built opts p (Inr bc) now st')))))"

definition cache_release :: "nat \<Rightarrow> int \<times> cache \<Rightarrow> int \<times> cache" where
  "cache_release i s = (let (now, st) = s in (now, on_client i release st))"

definition cache_refs :: "int \<times> cache \<Rightarrow> nat \<Rightarrow> int" where
  "cache_refs s i =
     (if i < length (ca_clients (snd s)) then cl_inflight (ca_clients (snd s) ! i) else 0)"

definition cache_ready :: "cache_options \<Rightarrow> (spec \<Rightarrow> (string, built_client) result) \<Rightarrow> int \<times> cache \<Rightarrow> bool" where
  "cache_ready opts bld s \<longleftrightarrow>
     0 < co_max opts \<and> fst s < max_int64 \<and> cache_wf {} (snd s) \<and> ca_pending (snd s) = [] \<and>
     (\<forall>sp bc. bld sp = Inr bc \<longrightarrow> bc_key bc = spec_key sp)"

lemma cache_get_cases:
  assumes ready: "cache_ready opts bld (now, st)" and get: "cache_get opts bld sp (now, st) = (r, s')"
  shows "case r of
      Inr c \<Rightarrow> cache_ready opts bld s' \<and> cache_refs s' = (cache_refs (now, st))(c := cache_refs (now, st) c + 1)
    | Inl e \<Rightarrow> cache_ready opts bld s' \<and> cache_refs s' = cache_refs (now, st)"
proof -
  from ready have mx: "0 < co_max opts" and now: "now < max_int64" and wf: "cache_wf {} st"
    and pend: "ca_pending st = []" and key: "\<And>sp bc. bld sp = Inr bc \<Longrightarrow> bc_key bc = spec_key sp"
    by (auto simp: cache_ready_def)
  obtain g st1 where enter: "get_enter sp now st = (g, st1)" by fastforce
  show ?thesis
  proof (cases g)
    case (GetHit i)
    from wf_get_hit [OF wf enter [unfolded GetHit] now] wf_entry [OF wf] have
      "i < length (ca_clients st)" "st1 = notify [CacheHit] (on_client i (acquire now) st)" "cache_wf {} st1"
      by auto
    moreover have "r = Inr i" "s' = (now, st1)" using get enter GetHit by (simp_all add: cache_get_def)
    ultimately show ?thesis using mx now pend key
      by (auto simp: cache_ready_def cache_refs_def fun_eq_iff)
  next
    case (GetWait p)
    from wf_get_wait [OF wf enter [unfolded GetWait]] pend show ?thesis by simp
  next
    case (GetBuild p)
    from wf_get_build [OF wf enter [unfolded GetBuild]] pend have st1: "cache_wf {} st1"
      "ca_clients st1 = ca_clients st" "ca_pending st1 = [(spec_key sp, p)]" "p \<in> snd ` set (ca_pending st1)"
      "fl_key (ca_flights st1 ! p) = spec_key sp" by auto
    show ?thesis
    proof (cases "bld sp")
      case (Inl e)
      let ?st2 = "landed p (spec_key sp) (Inl e) [] st1"
      have "get_built opts p (Inl e) now st1 = Some ?st2"
        using get_built_landed(1) [OF st1(5) [symmetric]] by simp
      then have "r = Inl e" "s' = (now, ?st2)" using get enter GetBuild Inl by (auto simp: cache_get_def)
      moreover have "cache_wf {} ?st2" using wf_landed_error [OF st1(1,4)] st1(5) by simp
      moreover have "ca_pending ?st2 = []" "ca_clients ?st2 = ca_clients st" using st1(2,3) by (simp_all add: landed_def)
      ultimately show ?thesis using mx now key by (auto simp: cache_ready_def cache_refs_def fun_eq_iff)
    next
      case (Inr bc)
      have "bc_key bc = fl_key (ca_flights st1 ! p)" using key [OF Inr] st1(5) by simp
      from wf_built [OF st1(1,4) this mx now] obtain st2 where
        built: "get_built opts p (Inr bc) now st1 = Some st2" and wf2: "cache_wf {} st2"
        and pend2: "ca_pending st2 = filter (\<lambda>(k, _). k \<noteq> bc_key bc) (ca_pending st1)"
        and cl: "length (ca_clients st2) = Suc (length (ca_clients st))"
          "cl_inflight (ca_clients st2 ! length (ca_clients st)) = 1"
          "\<And>j. j < length (ca_clients st) \<Longrightarrow> cl_inflight (ca_clients st2 ! j) = cl_inflight (ca_clients st ! j)"
        unfolding st1(2) by auto
      have "r = Inr (length (ca_clients st))" "s' = (now, st2)"
        using get enter GetBuild Inr built st1(2) by (simp_all add: cache_get_def)
      moreover have "ca_pending st2 = []" using pend2 st1(3) key [OF Inr] by simp
      ultimately show ?thesis using wf2 mx now key cl
        by (auto simp: cache_ready_def cache_refs_def fun_eq_iff less_Suc_eq)
    qed
  qed
qed

interpretation pool: client_source "cache_ready opts bld" "cache_get opts bld" cache_release cache_refs
  for opts bld
proof (unfold_locales, goal_cases)
  case (1 s sp c s')
  then show ?case using cache_get_cases [of opts bld "fst s" "snd s" sp "Inr c" s'] by simp
next
  case (2 s sp e s')
  then show ?case using cache_get_cases [of opts bld "fst s" "snd s" sp "Inl e" s'] by simp
next
  case (3 s c)
  then have wf: "cache_wf {} (snd s)" and c: "c < length (ca_clients (snd s))" "0 < cl_inflight (ca_clients (snd s) ! c)"
    by (auto simp: cache_ready_def cache_refs_def split: if_splits)
  have "cache_wf {} (on_client c release (snd s))"
    using wf c client_ok_release [OF wf_client [OF wf c(1)] c(2)] by (intro wf_on_client) simp_all
  with 3 c show ?case
    by (auto simp: cache_ready_def cache_release_def cache_refs_def fun_eq_iff split: prod.split)
next
  case (4 s c)
  then show ?case
    using wf_client [of "{}" "snd s" c] by (auto simp: cache_ready_def cache_refs_def client_ok_def)
qed

section \<open>Every request is accounted for\<close>

text \<open>
  C5. A request that is over, however it went (rejected, refused while draining, failed upstream, or
  answered and its body closed once or several times) leaves the server as it found it: the same
  number of active requests, one observation of its end for one of its beginning (none at all while
  draining), and every client with the holders it had. One whose body was never closed
  is still active and holds one client.
\<close>

theorem requests_balance:
  assumes env: "he_get env = cache_get opts bld" "he_release env = cache_release"
    and ready: "cache_ready opts bld (sv_clients sv)"
    and upstream: "\<And>r. tr_result tr = Inr r \<Longrightarrow> hookless (rs_body r)"
    and life: "life env t req tr ops out sv = Some sv'"
  shows "cache_ready opts bld (sv_clients sv') \<and> sv_draining sv' = sv_draining sv \<and>
    (let n = (if sv_draining sv then 0 else 1) in
     started sv' = started sv + n \<and>
     (sv_active sv' = sv_active sv \<and> finished sv' = finished sv + n \<and>
        cache_refs (sv_clients sv') = cache_refs (sv_clients sv) \<or>
      closes ops = 0 \<and> sv_active sv' = sv_active sv + 1 \<and> finished sv' = finished sv \<and>
        (\<exists>c. cache_refs (sv_clients sv') =
           (cache_refs (sv_clients sv))(c := cache_refs (sv_clients sv) c + 1))))"
  using pool.life_accounts [OF env ready upstream life]
  by (auto simp: pool.life_balance_def moved_def Let_def split: if_splits)

definition pooled_server :: "(int \<times> cache) server" where
  "pooled_server =
     \<lparr>sv_active = 0, sv_draining = False, sv_tunnels = [], sv_events = [], sv_clients = (3, new_cache)\<rparr>"

definition demo_builder :: "spec \<Rightarrow> (string, built_client) result" where
  "demo_builder sp = Inr \<lparr>bc_key = spec_key sp, bc_ops = []\<rparr>"

definition pooled_handler :: "(int \<times> cache, nat) handler_env" where
  "pooled_handler =
     \<lparr>he_policy = empty_policy, he_timeout = 0, he_encoding = ''negotiate'', he_zog = plain_zog,
      he_url_parse = (\<lambda>_. None),
      he_agents = demo_env, he_catalogue = no_catalogue, he_pick = (\<lambda>_ _. 0), he_route = (\<lambda>_ _. []),
      he_codecs = demo_codecs, he_get = cache_get demo_options demo_builder, he_release = cache_release\<rparr>"

definition demo_trip :: "nat finish_hook trip" where
  "demo_trip =
     \<lparr>tr_result = Inr \<lparr>rs_status = 200, rs_status_line = [], rs_header = [], rs_content_length = 2,
        rs_uncompressed = False, rs_method = Some ''GET'', rs_body = Source ''ok'' Eof False\<rparr>,
      tr_capture = \<lparr>cap_headers = [], cap_connected = True\<rparr>, tr_memo = new_memo, tr_bytes_in = 0\<rparr>"

lemma demo_life:
  obtains sv' where "life pooled_handler None demo_request demo_trip [Read 9 9, Close, Close] 2 pooled_server = Some sv'"
proof -
  have "parse plain_zog (\<lambda>_. None) (rq_header demo_request) empty_policy = ParseOk zero_directive"
    by (simp add: parse_eval demo_request_def)
  then have "\<exists>sv'. life pooled_handler None demo_request demo_trip [Read 9 9, Close, Close] 2 pooled_server = Some sv'"
    by (simp add: life_def on_request_def pooled_handler_def handle_directive_def profile_identity_def
        infer_identity_def zero_directive_def force_upgrade_def is_web_socket_upgrade_def resolve_in_def
        resolve_def take_client_def Let_def pooled_server_def round_trip_def demo_trip_def
        split: sum.split prod.split)
  then show thesis using that by blast
qed

lemma demo_pool_ready: "cache_ready demo_options demo_builder (sv_clients pooled_server)"
  by (simp add: cache_ready_def pooled_server_def demo_options_def max_int64_def new_cache_def
      cache_wf_def entries_ok_def flights_ok_def demo_builder_def)

lemma demo_trip_hookless: "tr_result demo_trip = Inr r \<Longrightarrow> hookless (rs_body r)"
  by (auto simp: demo_trip_def)

theorem requests_balance_witness:
  "\<exists>sv'. life pooled_handler None demo_request demo_trip [Read 9 9, Close, Close] 2 pooled_server = Some sv' \<and>
     sv_active sv' = 0 \<and> started sv' = 1 \<and> finished sv' = 1"
proof -
  obtain sv' where life: "life pooled_handler None demo_request demo_trip [Read 9 9, Close, Close] 2 pooled_server = Some sv'"
    by (rule demo_life)
  have "started sv' = 1 \<and> sv_active sv' = 0 \<and> finished sv' = 1"
    using requests_balance [of pooled_handler demo_options demo_builder pooled_server demo_trip None
        demo_request "[Read 9 9, Close, Close]" 2 sv'] life demo_pool_ready demo_trip_hookless
    by (simp add: pooled_handler_def closes_def) (simp add: pooled_server_def started_def finished_def)
  with life show ?thesis by blast
qed

section \<open>Setting up\<close>

record proxy_options =
  po_cert_cache_size :: int
  po_client_http2 :: bool
  po_realm :: string
  po_users :: "string \<rightharpoonup> string"
  po_serve_ca :: bool
  po_serve_profiles :: bool
  po_redact :: "(string \<Rightarrow> string \<Rightarrow> string) option"

datatype connect_handler = BasicConnect string | OnConnect

datatype request_handler = PlainAuth string | OnRequest

record 'c proxy_setup =
  su_redact :: "string \<Rightarrow> string \<Rightarrow> string"
  su_keep_accept_encoding :: bool
  su_allow_http2 :: bool
  su_verbose :: bool
  su_cert_store :: "'c cert_store"
  su_connect :: "connect_handler list"
  su_request :: "request_handler list"

definition new_server :: "proxy_options \<Rightarrow> bool \<Rightarrow> 'c proxy_setup" where
  "new_server opts debug =
     (let users = (po_users opts \<noteq> Map.empty) in
      \<lparr>su_redact = (case po_redact opts of None \<Rightarrow> (\<lambda>_ value. value) | Some r \<Rightarrow> r),
       su_keep_accept_encoding = True, su_allow_http2 = po_client_http2 opts, su_verbose = debug,
       su_cert_store = new_cert_store (po_cert_cache_size opts),
       su_connect = (if users then [BasicConnect (po_realm opts)] else []) @ [OnConnect],
       su_request = (if users then [PlainAuth (po_realm opts)] else []) @ [OnRequest]\<rparr>)"

definition authenticate :: "(string \<rightharpoonup> string) \<Rightarrow> string \<Rightarrow> string \<Rightarrow> bool" where
  "authenticate users user password =
     (case users user of None \<Rightarrow> False | Some expected \<Rightarrow> expected = password)"

text \<open>
  \<^verbatim>\<open>plainAuth\<close> over goproxy's basic authentication: \<open>creds\<close> reads the credentials of a request, and a
  request that is not let through gets the 407 of the library. A request in a tunnel was checked
  when the tunnel was opened.
\<close>

datatype 'x filtered = Unauthorized | Passed 'x

definition plain_auth ::
  "(header \<Rightarrow> (string \<times> string) option) \<Rightarrow> (string \<rightharpoonup> string) \<Rightarrow> nat option \<Rightarrow> request \<Rightarrow> bool" where
  "plain_auth creds users t req =
     (t \<noteq> None \<or>
      (case creds (rq_header req) of None \<Rightarrow> False | Some (u, p) \<Rightarrow> authenticate users u p))"

text \<open>The request handlers in order, as the library runs them: the first response ends the chain.\<close>

fun filter_request ::
  "(header \<Rightarrow> (string \<times> string) option) \<Rightarrow> (string \<rightharpoonup> string) \<Rightarrow> request_handler list \<Rightarrow>
   ('s, 'c) handler_env \<Rightarrow> nat option \<Rightarrow> request \<Rightarrow> 's server \<Rightarrow>
   (('c, 'f) handled \<times> 's server) option filtered" where
  "filter_request creds users [] env t req sv = Passed None"
| "filter_request creds users (PlainAuth realm # hs) env t req sv =
     (if plain_auth creds users t req then filter_request creds users hs env t req sv
      else Unauthorized)"
| "filter_request creds users (OnRequest # hs) env t req sv = Passed (on_request env t req sv)"

definition on_connect :: "'s server \<Rightarrow> nat \<times> 's server" where
  "on_connect sv =
     (length (sv_tunnels sv), observe [TunnelOpened] (sv\<lparr>sv_tunnels := sv_tunnels sv @ [Map.empty]\<rparr>))"

lemma authenticate_iff: "authenticate users u p \<longleftrightarrow> users u = Some p"
  by (auto simp: authenticate_def split: option.split)


definition guarded :: proxy_options where
  "guarded =
     \<lparr>po_cert_cache_size = 1, po_client_http2 = False, po_realm = ''tip'', po_users = [''alice'' \<mapsto> ''secret''],
      po_serve_ca = True, po_serve_profiles = True, po_redact = None\<rparr>"


section \<open>What the server answers itself\<close>

record answer =
  an_status :: int
  an_header :: header
  an_body :: string

definition http_error :: "string \<Rightarrow> int \<Rightarrow> answer" where
  "http_error msg code =
     \<lparr>an_status = code,
      an_header = h_set ''X-Content-Type-Options'' ''nosniff''
        (h_set ''Content-Type'' ''text/plain; charset=utf-8'' []),
      an_body = msg @ [newline]\<rparr>"

definition write_text :: "string \<Rightarrow> answer" where
  "write_text body = \<lparr>an_status = 200, an_header = [], an_body = body @ [newline]\<rparr>"

definition ready_handler :: "'s server \<Rightarrow> answer" where
  "ready_handler sv =
     (if sv_draining sv then http_error ''draining'' 503 else write_text ''ready'')"

text \<open>\<open>profiles\<close> is the JSON of the catalogue, made when the server is.\<close>

definition profiles_handler :: "catalogue \<Rightarrow> string \<Rightarrow> header \<Rightarrow> answer" where
  "profiles_handler cat profiles h =
     (let etag = char_of (34 :: nat) # ct_revision cat @ [char_of (34 :: nat)];
          hd = h_set ''Cache-Control'' ''max-age=300'' (h_set ''ETag'' etag [])
      in if h_get h ''If-None-Match'' = etag then \<lparr>an_status = 304, an_header = hd, an_body = []\<rparr>
         else \<lparr>an_status = 200, an_header = h_set ''Content-Type'' ''application/json'' hd,
               an_body = profiles\<rparr>)"

definition ca_handler :: "string \<Rightarrow> answer" where
  "ca_handler ca_pem =
     \<lparr>an_status = 200, an_header = h_set ''Content-Type'' ''application/x-pem-file'' [], an_body = ca_pem\<rparr>"

definition non_proxy ::
  "proxy_options \<Rightarrow> catalogue \<Rightarrow> string \<Rightarrow> string \<Rightarrow> 's server \<Rightarrow> request \<Rightarrow> answer" where
  "non_proxy opts cat profiles ca_pem sv req =
     (let path = u_path (rq_url req) in
      if path = ''/healthz'' then write_text ''ok''
      else if path = ''/readyz'' then ready_handler sv
      else if path = ''/ca.pem'' \<and> po_serve_ca opts then ca_handler ca_pem
      else if path = ''/profiles'' \<and> po_serve_profiles opts then
        profiles_handler cat profiles (rq_header req)
      else http_error ''tip is a proxy; configure it as your HTTP proxy'' 400)"

section \<open>Draining\<close>

text \<open>
  \<^verbatim>\<open>onRequest\<close> reads the flag and then counts the request; \<^verbatim>\<open>Drain\<close> sets the flag and then polls the
  counter. Both are atomic accesses of their own: \<open>dr_entered\<close> requests are between the two,
  \<open>dr_running\<close> counted and not finished.
\<close>

record drain =
  dr_active :: int
  dr_draining :: bool
  dr_drained :: bool
  dr_entered :: nat
  dr_running :: nat

definition drain_start :: drain where
  "drain_start =
     \<lparr>dr_active = 0, dr_draining = False, dr_drained = False, dr_entered = 0, dr_running = 0\<rparr>"

inductive drain_step :: "drain \<Rightarrow> drain \<Rightarrow> bool" where
  enters: "\<not> dr_draining s \<Longrightarrow> drain_step s (s\<lparr>dr_entered := Suc (dr_entered s)\<rparr>)"
| counts: "dr_entered s = Suc n \<Longrightarrow>
     drain_step s (s\<lparr>dr_entered := n, dr_active := dr_active s + 1, dr_running := Suc (dr_running s)\<rparr>)"
| finishes: "dr_running s = Suc n \<Longrightarrow> drain_step s (s\<lparr>dr_active := dr_active s - 1, dr_running := n\<rparr>)"
| drains: "drain_step s (s\<lparr>dr_draining := True\<rparr>)"
| polls: "dr_draining s \<Longrightarrow> \<not> 0 < dr_active s \<Longrightarrow> drain_step s (s\<lparr>dr_drained := True\<rparr>)"

inductive_cases drain_stepE: "drain_step s s'"

lemma drain_counts: "drain_step\<^sup>*\<^sup>* drain_start s \<Longrightarrow> dr_active s = int (dr_running s) \<and> (dr_drained s \<longrightarrow> dr_draining s)"
  by (induction rule: rtranclp_induct) (auto simp: drain_start_def elim!: drain_stepE)

lemma drain_shrinks:
  "drain_step\<^sup>*\<^sup>* s s' \<Longrightarrow> dr_draining s \<Longrightarrow>
   dr_draining s' \<and> dr_entered s' \<le> dr_entered s \<and>
   dr_running s' + dr_entered s' \<le> dr_running s + dr_entered s"
  by (induction rule: rtranclp_induct) (auto elim!: drain_stepE)



text \<open>
  A drain can return while a request is running: the request read the flag before it was set and
  was counted after the counter was read.
\<close>

theorem drain_returns_early:
  "\<exists>s. drain_step\<^sup>*\<^sup>* drain_start s \<and> dr_drained s \<and> dr_active s = 1 \<and> dr_running s = 1"
proof -
  let ?s1 = "drain_start\<lparr>dr_entered := 1\<rparr>"
  let ?s2 = "?s1\<lparr>dr_draining := True\<rparr>"
  let ?s3 = "?s2\<lparr>dr_drained := True\<rparr>"
  let ?s4 = "?s3\<lparr>dr_entered := 0, dr_active := 1, dr_running := 1\<rparr>"
  have "drain_step drain_start ?s1" using enters [of drain_start] by (simp add: drain_start_def)
  moreover have "drain_step ?s1 ?s2" by (rule drains)
  moreover have "drain_step ?s2 ?s3" by (rule polls) (simp_all add: drain_start_def)
  moreover have "drain_step ?s3 ?s4" using counts [of ?s3 0] by (simp add: drain_start_def)
  ultimately have "drain_step\<^sup>*\<^sup>* drain_start ?s4"
    by (meson rtranclp.rtrancl_refl rtranclp.rtrancl_into_rtrancl)
  then show ?thesis by (intro exI [of _ ?s4]) simp
qed

end
