(* ===== verification/Tip_Observer.thy ===== *)
theory Tip_Observer
  imports Tip_Metrics Tip_Pool Tip_Proxy
begin

text \<open>
  The observer that joins the server and the cache to the metrics (\<^verbatim>\<open>cmd/tip/observer.go\<close>), and
  what the gauges then say: the requests in flight are the server's active requests, and the
  active clients are those in the cache.
\<close>

section \<open>The observer\<close>

text \<open>\<^verbatim>\<open>observer\<close> of the command: without metrics every call does nothing.\<close>

definition glue :: "(metrics \<Rightarrow> metrics option) \<Rightarrow> metrics option \<Rightarrow> metrics option option" where
  "glue f m = (case m of None \<Rightarrow> Some None | Some x \<Rightarrow> map_option Some (f x))"

definition glue_route :: "metrics option \<Rightarrow> string \<Rightarrow> string \<Rightarrow> string" where
  "glue_route m host path = (case m of None \<Rightarrow> [] | Some x \<Rightarrow> metrics_route x host path)"

text \<open>
  The cache's observations. A build reports its spec's browser and OS; the cache's events name the spec by
  its key, and \<open>who\<close> says which browser and OS that is.
\<close>

fun cache_observed :: "prometheus \<Rightarrow> (string \<Rightarrow> string \<times> string) \<Rightarrow> cache_event \<Rightarrow> metrics \<Rightarrow> metrics option" where
  "cache_observed prom who CacheHit m = Some (cache_hit m)"
| "cache_observed prom who CacheMiss m = Some (cache_miss m)"
| "cache_observed prom who (ClientBuilt key) m = client_built prom (fst (who key)) (snd (who key)) m"
| "cache_observed prom who ClientEvicted m = Some (client_evicted m)"

fun cache_charges :: "(string \<Rightarrow> string \<times> string) \<Rightarrow> metrics \<Rightarrow> cache_event \<Rightarrow> charge list" where
  "cache_charges who m CacheHit =
     (if co_clients (me_collectors m) then [(False, (''tip_client_cache_hits_total'', []), 1)] else [])"
| "cache_charges who m CacheMiss =
     (if co_clients (me_collectors m) then [(False, (''tip_client_cache_misses_total'', []), 1)] else [])"
| "cache_charges who m (ClientBuilt key) =
     (if co_clients (me_collectors m)
      then [(True, (''tip_client_builds_total'', [fst (who key), snd (who key)]), 1),
            (False, (''tip_clients_active'', []), 1)] else [])"
| "cache_charges who m ClientEvicted =
     (if co_clients (me_collectors m)
      then [(False, (''tip_client_evictions_total'', []), 1), (False, (''tip_clients_active'', []), -1)] else [])"

interpretation cache_sink: event_sink "cache_observed prom who" "cache_charges who" for prom who
proof
  show "me_matcher m' = me_matcher m \<and> me_collectors m' = me_collectors m \<and>
      me_series m' s = me_series m s + charged s (cache_charges who m ev)"
    if "cache_observed prom who ev m = Some m'" for ev m m' s
    using that
  proof (cases "co_clients (me_collectors m)")
    case True
    with that show ?thesis
      by (cases ev; clarsimp simp: cache_hit_def cache_miss_def client_built_def client_evicted_def bind_if_def
          add_labelled_def split: if_split_asm)
  next
    case False
    with that have "m' = m"
      by (cases ev) (simp_all add: cache_hit_def cache_miss_def client_built_def client_evicted_def bind_if_def)
    with False show ?thesis by (cases ev) simp_all
  qed
  show "cache_charges who m' ev = cache_charges who m ev" if "me_collectors m' = me_collectors m" for m' m ev
    using that by (cases ev) auto
qed

text \<open>Through the adapter, metrics that are there take a history as they would take it themselves.\<close>

lemma glue_run:
  "observe_run (\<lambda>ev. glue (take_event ev)) evs (Some m) = map_option Some (observe_run take_event evs m)"
  by (induction evs arbitrary: m) (auto simp: glue_def split: bind_splits option.splits)

lemma glue_run_Some:
  "observe_run (\<lambda>ev. glue (take_event ev)) evs (Some m) = Some (Some m') \<longleftrightarrow> observe_run take_event evs m = Some m'"
  by (simp add: glue_run)

lemma glue_run_None: "observe_run (\<lambda>ev. glue (take_event ev)) evs None = Some None"
  by (induction evs) (simp_all add: glue_def)

section \<open>Clients\<close>

fun is_built :: "cache_event \<Rightarrow> bool" where
  "is_built (ClientBuilt key) = True"
| "is_built _ = False"

definition tally :: "cache_event list \<Rightarrow> int" where
  "tally evs = int (length (filter is_built evs)) - int (length (filter (\<lambda>e. e = ClientEvicted) evs))"

lemma tally_simps [simp]:
  "tally [] = 0" "tally (evs @ evs') = tally evs + tally evs'" "tally [CacheHit] = 0" "tally [CacheMiss] = 0"
  "tally (ClientBuilt k # evs) = tally evs + 1" "tally (replicate n ClientEvicted) = - int n"
  by (simp_all add: tally_def)

lemma observe_cache_gauge:
  assumes "observe_run (cache_observed prom who) evs m = Some m'" "co_clients (me_collectors m)"
  shows "me_series m' (''tip_clients_active'', []) = me_series m (''tip_clients_active'', []) + tally evs"
proof -
  have "charged (''tip_clients_active'', []) (cache_charges who m ev) = tally [ev]" for ev
    using assms(2) by (cases ev) (simp_all add: tally_def)
  then have "sum_list (map (\<lambda>ev. charged (''tip_clients_active'', []) (cache_charges who m ev)) evs) = tally evs"
    by (induction evs) (simp_all add: tally_def)
  with cache_sink.run_series [OF assms(1)] show ?thesis by simp
qed

text \<open>A step of the cache and its callers, short of shutting down: \<^verbatim>\<open>Close\<close> reports no eviction.\<close>

definition serving_step :: "cache_options \<Rightarrow> system \<Rightarrow> system \<Rightarrow> bool" where
  "serving_step opts y y' \<longleftrightarrow>
     step opts y y' \<and> (sy_cache y' \<noteq> close_cache (sy_cache y) \<or> ca_entries (sy_cache y) = [])"

definition tallied :: "system \<Rightarrow> bool" where
  "tallied y \<longleftrightarrow> tally (ca_events (sy_cache y)) = int (cache_len (sy_cache y))"

lemma tallied_step:
  assumes ok: "system_ok opts y" and mx: "0 < co_max opts" and t: "tallied y" and s: "serving_step opts y y'"
  shows "tallied y'"
proof -
  from ok have wf: "cache_wf {} (sy_cache y)" by (simp add: system_ok_def)
  from s have "step opts y y'" by (simp add: serving_step_def)
  then show ?thesis
  proof cases
    case (hit s now i st)
    with wf_get_hit [OF wf hit(2,3)] t show ?thesis by (simp add: tallied_def cache_len_def notify_def)
  next
    case (wait s now p st)
    with wf_get_wait [OF wf wait(2)] t show ?thesis by (simp add: tallied_def cache_len_def notify_def)
  next
    case (start s now p st)
    then have "ca_events st = ca_events (sy_cache y) @ [CacheMiss]" "ca_entries st = ca_entries (sy_cache y)"
      by (auto simp: get_enter_def Let_def notify_def split: option.splits)
    with start(1) t show ?thesis by (simp add: tallied_def cache_len_def)
  next
    case (built p bc now st)
    from ok built(2) have pp: "p \<in> snd ` set (ca_pending (sy_cache y))" by (simp add: system_ok_def)
    from built_explicit [OF wf pp built(3) mx built(5)] obtain st' P where
      g: "get_built opts p (Inr bc) now (sy_cache y) = Some st'"
      and b: "ca_entries st' = filter P (ca_entries (sy_cache y)) @ [(bc_key bc, length (ca_clients (sy_cache y)))]"
        "ca_events st' = ca_events (sy_cache y) @ ClientBuilt (bc_key bc) #
           replicate (length (filter (\<lambda>x. \<not> P x) (ca_entries (sy_cache y)))) ClientEvicted" .
    from g built(4) have "st = st'" by simp
    with b built(1) t sum_length_filter_compl [of P "ca_entries (sy_cache y)"] show ?thesis
      by (simp add: tallied_def cache_len_def)
  next
    case (failed p e now st)
    with get_built_landed(1) [OF refl, of opts p e now "sy_cache y"] t show ?thesis
      by (auto simp: tallied_def cache_len_def landed_def)
  next
    case (shared p now i st)
    with t show ?thesis by (auto simp: tallied_def cache_len_def share_def split: option.splits sum.splits)
  next
    case (shared_error p now e st)
    with t show ?thesis by (auto simp: tallied_def cache_len_def share_def split: option.splits sum.splits)
  next
    case (released i)
    with t show ?thesis by (simp add: tallied_def cache_len_def)
  next
    case (swept now)
    have d: "distinct (map fst (ca_entries (sy_cache y)))" using wf by (simp add: cache_wf_def entries_ok_def)
    obtain st n where l: "sweep_loop (now - co_idle_ttl opts) (ca_entries (sy_cache y)) (sy_cache y) 0 = (st, n)"
      by fastforce
    let ?P = "\<lambda>e. cl_last_used (ca_clients (sy_cache y) ! snd e) < now - co_idle_ttl opts \<and>
        cl_inflight (ca_clients (sy_cache y) ! snd e) = 0"
    from sweep_loop_exact [OF wf subset_refl d l refl] have
      "ca_entries st = filter (\<lambda>e. \<not> ?P e) (ca_entries (sy_cache y))" "n = length (filter ?P (ca_entries (sy_cache y)))"
      "ca_events st = ca_events (sy_cache y)" by (auto intro!: filter_cong)
    with swept l t sum_length_filter_compl [of ?P "ca_entries (sy_cache y)"] show ?thesis
      by (simp add: tallied_def cache_len_def sweep_def notify_def)
  next
    case closed
    with s have e: "ca_entries (sy_cache y) = []" by (simp add: serving_step_def)
    then have "close_cache (sy_cache y) = sy_cache y" by (simp add: close_cache_def)
    with closed t show ?thesis by simp
  next
    case (reordered es)
    with t show ?thesis by (simp add: tallied_def cache_len_def flip: size_mset)
  qed
qed

lemma tallied_reachable:
  assumes mx: "0 < co_max opts" and r: "(serving_step opts)\<^sup>*\<^sup>* new_system y"
  shows "reachable opts y \<and> tallied y"
  using r
proof (induction rule: rtranclp_induct)
  case base
  show ?case using reachable_new [of opts] by (simp add: tallied_def new_system_def new_cache_def cache_len_def)
next
  case (step y z)
  then have "reachable opts z" by (auto intro: reachable_step simp: serving_step_def)
  moreover have "system_ok opts y" using reachable_ok [OF mx] step.IH by simp
  ultimately show ?case using tallied_step [OF _ mx _ step.hyps(2)] step.IH by simp
qed


lemma demo_served: "(serving_step demo_options)\<^sup>*\<^sup>* new_system demo_started"
proof -
  have e: "ca_entries (sy_cache new_system) = []" by (simp add: new_system_def new_cache_def)
  with demo_start_step show ?thesis by (intro r_into_rtranclp) (simp add: serving_step_def)
qed


section \<open>Requests in flight\<close>

text \<open>Requests one after another: the tunnel, the request, its round trip, the reads and closes of its body.\<close>

fun lives ::
  "('s, 'c) handler_env \<Rightarrow> (nat option \<times> request \<times> 'c finish_hook trip \<times> body_op list \<times> nat) list \<Rightarrow>
   's server \<Rightarrow> 's server option" where
  "lives env [] sv = Some sv"
| "lives env ((t, req, tr, ops, out) # qs) sv = Option.bind (life env t req tr ops out sv) (lives env qs)"

definition upstream_ok :: "nat option \<times> request \<times> 'c finish_hook trip \<times> body_op list \<times> nat \<Rightarrow> bool" where
  "upstream_ok q = (case q of (t, req, tr, ops, out) \<Rightarrow> case tr_result tr of Inl e \<Rightarrow> True | Inr r \<Rightarrow> hookless (rs_body r))"

lemma lives_balance:
  assumes env: "he_get env = cache_get opts bld" "he_release env = cache_release"
    and ready: "cache_ready opts bld (sv_clients sv)" and qs: "list_all upstream_ok qs"
    and run: "lives env qs sv = Some sv'"
  shows "sv_active sv' - (int (started sv') - int (finished sv')) =
    sv_active sv - (int (started sv) - int (finished sv))"
  using ready qs run
proof (induction qs arbitrary: sv)
  case (Cons q qs)
  obtain t req tr ops out where q: "q = (t, req, tr, ops, out)" using prod_cases5 by blast
  with Cons.prems(3) obtain sv1 where l: "life env t req tr ops out sv = Some sv1" "lives env qs sv1 = Some sv'"
    by (auto simp: bind_eq_Some_conv)
  have "\<And>r. tr_result tr = Inr r \<Longrightarrow> hookless (rs_body r)"
    using Cons.prems(2) q by (simp add: upstream_ok_def)
  from pool.life_accounts [OF env Cons.prems(1) this l(1)] have
    "cache_ready opts bld (sv_clients sv1)"
    "sv_active sv1 - (int (started sv1) - int (finished sv1)) = sv_active sv - (int (started sv) - int (finished sv))"
    by (auto simp: pool.life_balance_def moved_def split: if_splits)
  with Cons.IH [OF _ _ l(2)] Cons.prems(2) show ?case by simp
qed simp

text \<open>
  C34. The gauge of requests in flight, fed through the adapter with everything a fresh server has observed, is the server's own
  counter of active requests, after any sequence of requests through the handler, the round trip
  and the closing of their bodies.
\<close>

theorem inflight_gauge:
  assumes env: "he_get env = cache_get opts bld" "he_release env = cache_release"
    and ready: "cache_ready opts bld (sv_clients sv)" and qs: "list_all upstream_ok qs"
    and fresh: "sv_active sv = 0" "sv_events sv = []"
    and run: "lives env qs sv = Some sv'"
    and obs: "observe_run (\<lambda>ev. glue (observed prom ev)) (sv_events sv') (Some m0) = Some (Some m)"
    and on: "co_requests (me_collectors m0)" "me_series m0 (''tip_requests_inflight'', []) = 0"
  shows "me_series m (''tip_requests_inflight'', []) = sv_active sv' \<and>
    sv_active sv' = int (started sv') - int (finished sv')"
proof -
  have "sv_active sv' = int (started sv') - int (finished sv')"
    using lives_balance [OF env ready qs run] fresh by (simp add: started_def finished_def)
  moreover have "me_series m (''tip_requests_inflight'', []) = int (started sv') - int (finished sv')"
    using observe_all_series [OF obs [unfolded glue_run_Some], of "(''tip_requests_inflight'', [])"] inflight_sum [OF on(1)] on(2)
    by (simp add: started_def finished_def)
  ultimately show ?thesis by simp
qed

definition any_prometheus :: prometheus where
  "any_prometheus = \<lparr>pr_names = (\<lambda>_. True), pr_values = (\<lambda>_ _ _. True)\<rparr>"

lemma any_prometheus_total: "\<exists>m'. observe_all any_prometheus evs m = Some m'"
  by (induction evs arbitrary: m)
    (auto simp: observed_charges any_prometheus_def accepted_def list_all_iff)

theorem inflight_gauge_witness:
  "\<exists>sv' m. lives pooled_handler [(None, demo_request, demo_trip, [Read 9 9, Close, Close], 2)] pooled_server = Some sv' \<and>
     observe_run (\<lambda>ev. glue (observed any_prometheus ev)) (sv_events sv') (Some demo_metrics) = Some (Some m) \<and>
     me_series m (''tip_requests_inflight'', []) = sv_active sv'"
proof -
  let ?q = "(None, demo_request, demo_trip, [Read 9 9, Close, Close], 2)"
  obtain sv' where "life pooled_handler None demo_request demo_trip [Read 9 9, Close, Close] 2 pooled_server = Some sv'"
    by (rule demo_life)
  then have run: "lives pooled_handler [?q] pooled_server = Some sv'" by simp
  obtain m where m: "observe_run (\<lambda>ev. glue (observed any_prometheus ev)) (sv_events sv') (Some demo_metrics) = Some (Some m)"
    using any_prometheus_total by (auto simp: glue_run_Some)
  have "list_all upstream_ok [?q]" by (simp add: upstream_ok_def demo_trip_def)
  from inflight_gauge [OF _ _ demo_pool_ready this _ _ run m] run m show ?thesis
    by (simp add: pooled_handler_def pooled_server_def demo_metrics_def all_collectors_def)
qed

end
