(* ===== verification/Tip_Main.thy ===== *)
theory Tip_Main
  imports Tip_Load Tip_Observer
begin

text \<open>
  The command (\<^verbatim>\<open>cmd/tip/main.go\<close>): how the configuration becomes the running proxy, which failures stop it
  and with which of them the program ends, and how it shuts down. The libraries, the operating
  system and the network are the arguments of \<open>run_env\<close>.
\<close>

section \<open>Results in sequence\<close>

definition and_then :: "('e, 'a) result \<Rightarrow> ('a \<Rightarrow> ('e, 'b) result) \<Rightarrow> ('e, 'b) result" where
  "and_then r f = (case r of Inl e \<Rightarrow> Inl e | Inr x \<Rightarrow> f x)"

definition or_fail :: "('e \<Rightarrow> 'f) \<Rightarrow> ('e, 'a) result \<Rightarrow> ('f, 'a) result" where
  "or_fail g r = (case r of Inl e \<Rightarrow> Inl (g e) | Inr x \<Rightarrow> Inr x)"

lemma and_then_Inr: "and_then r f = Inr y \<longleftrightarrow> (\<exists>x. r = Inr x \<and> f x = Inr y)"
  by (cases r) (simp_all add: and_then_def)

lemma or_fail_Inr: "or_fail g r = Inr x \<longleftrightarrow> r = Inr x"
  by (cases r) (simp_all add: or_fail_def)

lemma sequence_simps [simp]: "and_then (Inr x) f = f x" "or_fail g (Inr x) = Inr x"
  by (simp_all add: and_then_def or_fail_def)

section \<open>Data\<close>

datatype run_error =
    LoadFailed load_error
  | LogFailed log_error
  | CaFailed ca_error
  | PolicyFailed policy_error
  | RoutesFailed route_error
  | ListenFailed string
  | ServeFailed string

text \<open>A start that does not end with the proxy serving returned an error, or panicked.\<close>

datatype start_stop = Failed run_error | Panicked

datatype log_entry =
    Starting string
  | ReadableCredentials string
  | CaReady bool string string
  | ReadyAt string string
  | ShuttingDown int
  | DrainCut string

text \<open>
  \<open>rn_levels\<close> parses a log level, \<open>rn_listen\<close> opens a listener beside those already open and tells its
  address, \<open>rn_mux\<close> tells whether the HTTP multiplexer takes a pattern beside those it has (it panics
  otherwise), \<open>rn_print\<close> is the CA's fingerprint.
\<close>

record ('c, 'l) run_env =
  rn_os :: os_env
  rn_unyaml :: unmarshal
  rn_config_zog :: config_zog
  rn_levels :: "string \<Rightarrow> 'l option"
  rn_crypto :: "'c crypto_env"
  rn_print :: "'c \<Rightarrow> string"
  rn_zog :: zog
  rn_urls :: url_parser
  rn_prometheus :: prometheus
  rn_listen :: "string list \<Rightarrow> string \<Rightarrow> (string, string) result"
  rn_mux :: "string list \<Rightarrow> string \<Rightarrow> bool"

text \<open>What \<^verbatim>\<open>run\<close> has put together before it listens.\<close>

record 'c assembled =
  as_ca :: 'c
  as_policy :: policy
  as_metrics :: "metrics option"
  as_build :: options
  as_cache_options :: cache_options
  as_proxy :: proxy_options
  as_encoding :: string
  as_timeout :: int
  as_server :: "'c proxy_setup"

record http_server =
  hs_read_header_timeout :: int
  hs_idle_timeout :: int
  hs_max_header_bytes :: int

record 'c running =
  ru_parts :: "'c assembled"
  ru_proxy_address :: string
  ru_connection_limit :: "int option"
  ru_admin_address :: string
  ru_proxy_server :: http_server
  ru_admin_server :: http_server
  ru_admin_paths :: "string list"
  ru_sweep_period :: int

section \<open>Starting\<close>

definition routes :: "config_route list \<Rightarrow> route list" where
  "routes = map (\<lambda>r. \<lparr>ro_name = ro_name r, ro_host = ro_host r, ro_path = ro_path r, ro_capture = ro_capture r\<rparr>)"

definition policy_failure :: "policy_error \<Rightarrow> start_stop" where
  "policy_failure e = (if e = DefaultsPanic then Panicked else Failed (PolicyFailed e))"

definition make_policy :: "zog \<Rightarrow> url_parser \<Rightarrow> directives_config \<Rightarrow> (start_stop, policy) result" where
  "make_policy zog up d =
     or_fail policy_failure
       (build_policy zog up (dc_defaults d) (dc_deny d) (dc_proxy_hosts d) (dc_require_proxy d))"

definition make_metrics :: "prometheus \<Rightarrow> metrics_config \<Rightarrow> (start_stop, metrics option) result" where
  "make_metrics prom mc =
     (if \<not> mc_enabled mc then Inr None
      else (case new_metrics prom (mc_collectors mc) (routes (mc_routes mc)) of
              BadRoutes e \<Rightarrow> Inl (Failed (RoutesFailed e))
            | MetricsPanic \<Rightarrow> Inl Panicked
            | MetricsReady m \<Rightarrow> Inr (Some m)))"

definition proxy_options_of :: "config \<Rightarrow> proxy_options" where
  "proxy_options_of cfg =
     \<lparr>po_cert_cache_size = tc_cert_cache_size (cf_tls cfg), po_client_http2 = tc_client_http2 (cf_tls cfg),
      po_realm = ac_realm (cf_auth cfg), po_users = map_of (ac_users (cf_auth cfg)),
      po_serve_ca = sc_serve_ca (cf_server cfg), po_serve_profiles = sc_serve_profiles (cf_server cfg),
      po_redact = Some (redactor_value (new_redactor (case lc_redact (cf_logging cfg) of None \<Rightarrow> [] | Some ns \<Rightarrow> ns)))\<rparr>"

text \<open>\<open>debug\<close> is whether the logger takes debug messages.\<close>

definition assemble :: "('c, 'l) run_env \<Rightarrow> config \<Rightarrow> 'c \<Rightarrow> (start_stop, 'c assembled) result" where
  "assemble env cfg ca =
     and_then (make_policy (rn_zog env) (rn_urls env) (cf_directives cfg)) (\<lambda>policy.
     and_then (make_metrics (rn_prometheus env) (cf_metrics cfg)) (\<lambda>m.
     Inr \<lparr>as_ca = ca, as_policy = policy, as_metrics = m,
          as_build = \<lparr>o_verify_certificates = uc_verify_certificates (cf_upstream cfg),
                      o_response_header_timeout = uc_timeout (cf_upstream cfg)\<rparr>,
          as_cache_options = \<lparr>co_max = cc_max (cf_clients cfg), co_idle_ttl = cc_idle_ttl (cf_clients cfg)\<rparr>,
          as_proxy = proxy_options_of cfg, as_encoding = ec_mode (cf_encoding cfg),
          as_timeout = uc_timeout (cf_upstream cfg),
          as_server = new_server (proxy_options_of cfg) (lc_level (cf_logging cfg) = ''debug'')\<rparr>))"

text \<open>A quarter of the time a client may idle, and never less than a second; Go's division rounds to zero.\<close>

definition sweep_period :: "int \<Rightarrow> int" where
  "sweep_period idle_ttl = max (if 0 \<le> idle_ttl then idle_ttl div 4 else - ((- idle_ttl) div 4)) second"

definition admin_paths :: "string list" where
  "admin_paths = [''/healthz'', ''/readyz'', ''/ca.pem'', ''/profiles'']"

definition listen_all :: "('c, 'l) run_env \<Rightarrow> config \<Rightarrow> (start_stop, string \<times> string) result" where
  "listen_all env cfg =
     or_fail (\<lambda>e. Failed (ListenFailed e))
       (and_then (rn_listen env [] (sc_listen (cf_server cfg))) (\<lambda>proxy.
        and_then (rn_listen env [proxy] (mc_listen (cf_metrics cfg))) (\<lambda>admin. Inr (proxy, admin))))"

definition serve_all :: "('c, 'l) run_env \<Rightarrow> config \<Rightarrow> 'c assembled \<Rightarrow> string \<times> string \<Rightarrow> (start_stop, 'c running) result" where
  "serve_all env cfg parts addresses =
     (let server = cf_server cfg;
          path = mc_path (cf_metrics cfg) in
      if as_metrics parts \<noteq> None \<and> \<not> rn_mux env admin_paths path then Inl Panicked
      else Inr \<lparr>ru_parts = parts, ru_proxy_address = fst addresses,
             ru_connection_limit = (if 0 < sc_max_connections server then Some (sc_max_connections server) else None),
             ru_admin_address = snd addresses,
             ru_proxy_server = \<lparr>hs_read_header_timeout = sc_read_header_timeout server,
               hs_idle_timeout = sc_idle_timeout server, hs_max_header_bytes = sc_max_header_bytes server\<rparr>,
             ru_admin_server = \<lparr>hs_read_header_timeout = sc_read_header_timeout server,
               hs_idle_timeout = 0, hs_max_header_bytes = 0\<rparr>,
             ru_admin_paths = admin_paths @ (if as_metrics parts \<noteq> None then [path] else []),
             ru_sweep_period = sweep_period (cc_idle_ttl (cf_clients cfg))\<rparr>)"

text \<open>From the configuration to the servers' start: the outcome, what was logged, and the files.\<close>

definition start_with :: "('c, 'l) run_env \<Rightarrow> config \<Rightarrow> 'c \<Rightarrow> bool \<Rightarrow> (start_stop, 'c running) result \<times> log_entry list" where
  "start_with env cfg ca created =
     (case and_then (assemble env cfg ca) (\<lambda>parts. and_then (listen_all env cfg) (\<lambda>ls. Inr (parts, ls))) of
        Inl e \<Rightarrow> (Inl e, [])
      | Inr (parts, proxy, admin) \<Rightarrow>
          let log1 = [CaReady created (rn_print env ca) (''http://'' @ proxy @ ''/ca.pem'')] in
          (case serve_all env cfg parts (proxy, admin) of
             Inl e \<Rightarrow> (Inl e, log1)
           | Inr ru \<Rightarrow> (Inr ru, log1 @ [ReadyAt proxy admin])))"

definition start :: "('c, 'l) run_env \<Rightarrow> string \<Rightarrow> files \<Rightarrow>
    ((start_stop, config \<times> 'c running) result \<times> log_entry list) \<times> files" where
  "start env path fs =
     (case load (rn_os env) fs (rn_unyaml env) (rn_config_zog env) path of
        Inl e \<Rightarrow> ((Inl (Failed (LoadFailed e)), []), fs)
      | Inr cfg \<Rightarrow>
          (case new_logger (rn_levels env) (lc_level (cf_logging cfg)) (lc_format (cf_logging cfg)) of
             Inl e \<Rightarrow> ((Inl (Failed (LogFailed e)), []), fs)
           | Inr logger \<Rightarrow>
               let log1 = Starting path #
                     (if fst (permissive (rn_os env) fs path) \<and> ac_users (cf_auth cfg) \<noteq> []
                      then [ReadableCredentials path] else []) in
               (case load_or_create_ca (rn_os env) (rn_crypto env) (tc_ca_cert (cf_tls cfg)) (tc_ca_key (cf_tls cfg)) fs of
                  ((Inl e, created), fs') \<Rightarrow> ((Inl (Failed (CaFailed e)), log1), fs')
                | ((Inr ca, created), fs') \<Rightarrow>
                    (case start_with env cfg ca created of
                       (out, log2) \<Rightarrow>
                         ((case out of Inl e \<Rightarrow> Inl e | Inr ru \<Rightarrow> Inr (cfg, ru), log1 @ log2), fs')))))"

section \<open>Stopping\<close>

text \<open>What ends the wait: a signal, or one of the servers.\<close>

datatype stop = Signalled | ServerFailed string | ServerClosed

datatype stop_call = LogEntry log_entry | DrainServer | ShutProxy | ShutAdmin | CancelGrace | ForgetSignals | CloseCache

text \<open>\<open>drained\<close> is the outcome of \<^verbatim>\<open>Drain\<close>; the deferred calls come last, in the reverse of their order.\<close>

definition stop_run :: "int \<Rightarrow> string option \<Rightarrow> stop \<Rightarrow> stop_call list \<times> run_error option" where
  "stop_run grace drained why =
     (case why of
        ServerFailed e \<Rightarrow> ([ForgetSignals, CloseCache], Some (ServeFailed e))
      | _ \<Rightarrow>
          ([LogEntry (ShuttingDown grace), DrainServer] @
           (case drained of None \<Rightarrow> [] | Some e \<Rightarrow> [LogEntry (DrainCut e)]) @
           [ShutProxy, ShutAdmin, CancelGrace, ForgetSignals, CloseCache], None))"

text \<open>What the process prints to the standard error, and its exit code; \<open>err_text\<close> renders the error.\<close>

definition main_exit :: "(run_error \<Rightarrow> string) \<Rightarrow> run_error option \<Rightarrow> string \<times> nat" where
  "main_exit err_text r =
     (case r of None \<Rightarrow> ([], 0) | Some e \<Rightarrow> (''tip: '' @ err_text e @ [newline], 1))"

text \<open>The sweeper: one sweep for each tick of its ticker.\<close>

definition sweep_ticks :: "cache_options \<Rightarrow> int list \<Rightarrow> cache \<Rightarrow> cache" where
  "sweep_ticks opts ticks st = fold (\<lambda>now st. fst (sweep opts now st)) ticks st"

text \<open>What the calls do to the cache.\<close>

fun stop_cache :: "stop_call list \<Rightarrow> cache \<Rightarrow> cache" where
  "stop_cache [] st = st"
| "stop_cache (CloseCache # calls) st = stop_cache calls (close_cache st)"
| "stop_cache (_ # calls) st = stop_cache calls st"

section \<open>What a start is\<close>

lemma load_or_create_other:
  assumes load: "load_or_create_ca env cr cp kp fs = ((res, created), fs')" and p: "fs' p \<noteq> fs p"
  shows "p \<in> {cp, kp}"
proof (cases "stat env fs cp = Inl NotExist \<and> stat env fs kp = Inl NotExist")
  case True
  obtain r fs1 where c: "create_ca env cr cp kp fs = (r, fs1)" by (cases "create_ca env cr cp kp fs")
  with load True have "fs1 = fs'" by (simp add: load_or_create_ca_def)
  with c p show ?thesis using create_ca_other [of env cr cp kp fs r fs' p] by auto
next
  case False
  with load have "fs' = fs"
    by (auto simp: load_or_create_ca_def split: sum.splits os_error.splits if_splits)
  with p show ?thesis by simp
qed

lemma start_cases:
  assumes "start env path fs = ((out, log), fs')"
  obtains (not_loaded) e where "load (rn_os env) fs (rn_unyaml env) (rn_config_zog env) path = Inl e"
      "out = Inl (Failed (LoadFailed e))" "log = []" "fs' = fs"
    | (no_logger) cfg e where "load (rn_os env) fs (rn_unyaml env) (rn_config_zog env) path = Inr cfg"
      "new_logger (rn_levels env) (lc_level (cf_logging cfg)) (lc_format (cf_logging cfg)) = Inl e"
      "out = Inl (Failed (LogFailed e))" "log = []" "fs' = fs"
    | (no_ca) cfg e created where "load (rn_os env) fs (rn_unyaml env) (rn_config_zog env) path = Inr cfg"
      "load_or_create_ca (rn_os env) (rn_crypto env) (tc_ca_cert (cf_tls cfg)) (tc_ca_key (cf_tls cfg)) fs = ((Inl e, created), fs')"
      "out = Inl (Failed (CaFailed e))" "\<forall>a b. ReadyAt a b \<notin> set log"
    | (assembled) cfg ca created out' log1 log2 where
      "load (rn_os env) fs (rn_unyaml env) (rn_config_zog env) path = Inr cfg"
      "load_or_create_ca (rn_os env) (rn_crypto env) (tc_ca_cert (cf_tls cfg)) (tc_ca_key (cf_tls cfg)) fs = ((Inr ca, created), fs')"
      "start_with env cfg ca created = (out', log2)" "log = log1 @ log2" "\<forall>a b. ReadyAt a b \<notin> set log1"
      "out = (case out' of Inl e \<Rightarrow> Inl e | Inr ru \<Rightarrow> Inr (cfg, ru))"
proof (cases "load (rn_os env) fs (rn_unyaml env) (rn_config_zog env) path")
  case (Inl e)
  with assms have "out = Inl (Failed (LoadFailed e))" "log = []" "fs' = fs" by (simp_all add: start_def)
  from not_loaded [OF Inl this] show ?thesis .
next
  case (Inr cfg)
  show ?thesis
  proof (cases "new_logger (rn_levels env) (lc_level (cf_logging cfg)) (lc_format (cf_logging cfg))")
    case (Inl e)
    with Inr assms have "out = Inl (Failed (LogFailed e))" "log = []" "fs' = fs" by (simp_all add: start_def)
    from no_logger [OF Inr Inl this] show ?thesis .
  next
    case logger: (Inr l)
    obtain r created fs1 where ca: "load_or_create_ca (rn_os env) (rn_crypto env) (tc_ca_cert (cf_tls cfg)) (tc_ca_key (cf_tls cfg)) fs =
        ((r, created), fs1)" by (metis prod.collapse)
    let ?log1 = "Starting path #
        (if fst (permissive (rn_os env) fs path) \<and> ac_users (cf_auth cfg) \<noteq> [] then [ReadableCredentials path] else [])"
    have quiet: "\<forall>a b. ReadyAt a b \<notin> set ?log1" by simp
    show ?thesis
    proof (cases r)
      case (Inl e)
      with Inr logger ca assms quiet have "out = Inl (Failed (CaFailed e))" "log = ?log1" "fs' = fs1"
        by (simp_all add: start_def Let_def)
      with no_ca [OF Inr, of e created] ca Inl quiet show ?thesis by simp
    next
      case c: (Inr c)
      obtain out' log2 where w: "start_with env cfg c created = (out', log2)" by (cases "start_with env cfg c created")
      with Inr logger ca c assms have "out = (case out' of Inl e \<Rightarrow> Inl e | Inr ru \<Rightarrow> Inr (cfg, ru))"
        "log = ?log1 @ log2" "fs' = fs1" by (simp_all add: start_def Let_def)
      with assembled [OF Inr _ w _ quiet] ca c show ?thesis by simp
    qed
  qed
qed

definition from_later :: "start_stop \<Rightarrow> bool" where
  "from_later e \<longleftrightarrow> (\<forall>err. e \<noteq> Failed (LogFailed err)) \<and> (\<forall>err. e \<noteq> Failed (LoadFailed err))"

lemma assemble_later: "assemble env cfg ca = Inl e \<Longrightarrow> from_later e"
  by (auto simp: assemble_def and_then_def or_fail_def make_policy_def make_metrics_def policy_failure_def from_later_def
      split: sum.splits if_splits metrics_result.splits)

lemma listen_all_later: "listen_all env cfg = Inl e \<Longrightarrow> from_later e"
  by (auto simp: listen_all_def or_fail_def from_later_def split: sum.splits)

lemma serve_all_later: "serve_all env cfg parts a = Inl e \<Longrightarrow> from_later e"
  by (auto simp: serve_all_def from_later_def Let_def split: if_splits)

lemma start_with_cases:
  assumes "start_with env cfg ca created = (out, log)"
  obtains (refused) e where "out = Inl e" "\<forall>a b. ReadyAt a b \<notin> set log" "from_later e"
    | (serving) ru parts ls where "out = Inr ru" "assemble env cfg ca = Inr parts" "serve_all env cfg parts ls = Inr ru"
proof (cases "assemble env cfg ca")
  case (Inl e)
  with assms have "out = Inl e" "log = []" by (simp_all add: start_with_def and_then_def)
  with assemble_later [OF Inl] refused [of e] show ?thesis by simp
next
  case parts: (Inr parts)
  show ?thesis
  proof (cases "listen_all env cfg")
    case (Inl e)
    with assms parts have "out = Inl e" "log = []" by (simp_all add: start_with_def and_then_def)
    with listen_all_later [OF Inl] refused [of e] show ?thesis by simp
  next
    case (Inr ls)
    obtain proxy admin where ls: "ls = (proxy, admin)" by (cases ls)
    let ?log1 = "[CaReady created (rn_print env ca) (''http://'' @ proxy @ ''/ca.pem'')]"
    from Inr assms parts ls have w: "(case serve_all env cfg parts ls of
        Inl e \<Rightarrow> (Inl e, ?log1) | Inr ru \<Rightarrow> (Inr ru, ?log1 @ [ReadyAt proxy admin])) = (out, log)"
      by (simp only: start_with_def Let_def and_then_def sum.case prod.case)
    show ?thesis
    proof (cases "serve_all env cfg parts ls")
      case (Inl e)
      with w have "out = Inl e" "\<forall>a b. ReadyAt a b \<notin> set log" by auto
      with serve_all_later [OF Inl] refused [of e] show ?thesis by simp
    next
      case (Inr ru)
      with w have "out = Inr ru" by simp
      from serving [OF this parts Inr] show ?thesis .
    qed
  qed
qed

lemma make_policy_enforced:
  assumes policy: "make_policy zog up d = Inr p" and ok: "parse zog up h p = ParseOk dir"
  shows "e \<in> set h \<Longrightarrow> is_tip (fst e) \<Longrightarrow> tip_key (fst e) \<notin> deny_key ` set (dc_deny d)"
    and "dc_require_proxy d \<Longrightarrow> d_proxy dir \<noteq> []"
proof -
  from policy have "build_policy zog up (dc_defaults d) (dc_deny d) (dc_proxy_hosts d) (dc_require_proxy d) = Inr p"
    by (simp add: make_policy_def or_fail_Inr)
  then have "p_deny p = deny_key ` set (dc_deny d)" "p_require_proxy p = dc_require_proxy d"
    by (rule build_policy_steps, simp)+
  with parse_Ok_permitted [OF ok] show "e \<in> set h \<Longrightarrow> is_tip (fst e) \<Longrightarrow> tip_key (fst e) \<notin> deny_key ` set (dc_deny d)"
    "dc_require_proxy d \<Longrightarrow> d_proxy dir \<noteq> []" by (auto simp: denied_def)
qed

lemma routes_id: "routes rs = rs"
  by (induction rs) (auto simp: routes_def)

lemma make_metrics_ready:
  "make_metrics prom mc = Inr out \<Longrightarrow>
     (case out of
        None \<Rightarrow> \<not> mc_enabled mc
      | Some m \<Rightarrow> mc_enabled mc \<and> new_matcher (mc_routes mc) = Inr (me_matcher m) \<and> (\<forall>s. me_series m s = 0))"
  by (auto simp: make_metrics_def new_metrics_def routes_id split: if_splits metrics_result.splits sum.splits)

lemma assemble_parts:
  assumes "assemble env cfg ca = Inr parts"
  shows "make_policy (rn_zog env) (rn_urls env) (cf_directives cfg) = Inr (as_policy parts)"
    "make_metrics (rn_prometheus env) (cf_metrics cfg) = Inr (as_metrics parts)"
    "as_cache_options parts = \<lparr>co_max = cc_max (cf_clients cfg), co_idle_ttl = cc_idle_ttl (cf_clients cfg)\<rparr>"
    "as_proxy parts = proxy_options_of cfg"
    "as_server parts = new_server (proxy_options_of cfg) (lc_level (cf_logging cfg) = ''debug'')"
  using assms by (auto simp: assemble_def and_then_Inr)

lemma serve_all_running:
  assumes "serve_all env cfg parts ls = Inr ru"
  shows "ru_parts ru = parts" "ru_sweep_period ru = sweep_period (cc_idle_ttl (cf_clients cfg))"
    "ru_admin_paths ru = admin_paths @ (if as_metrics parts \<noteq> None then [mc_path (cf_metrics cfg)] else [])"
    "as_metrics parts \<noteq> None \<Longrightarrow> rn_mux env admin_paths (mc_path (cf_metrics cfg))"
  using assms by (auto simp: serve_all_def Let_def split: if_splits)

lemma start_started:
  assumes "start env path fs = ((Inr (cfg, ru), log), fs')"
  obtains ca created parts ls where
    "load (rn_os env) fs (rn_unyaml env) (rn_config_zog env) path = Inr cfg"
    "load_or_create_ca (rn_os env) (rn_crypto env) (tc_ca_cert (cf_tls cfg)) (tc_ca_key (cf_tls cfg)) fs = ((Inr ca, created), fs')"
    "assemble env cfg ca = Inr parts" "serve_all env cfg parts ls = Inr ru"
  using assms
proof (cases rule: start_cases)
  case (assembled cfg1 ca created out' log1 log2)
  from assembled(3) show ?thesis
  proof (cases rule: start_with_cases)
    case (refused e)
    with assembled(6) show ?thesis by simp
  next
    case (serving ru1 parts ls)
    with assembled(6) have "cfg1 = cfg" "ru1 = ru" by simp_all
    with assembled(1,2) serving(2,3) that show ?thesis by blast
  qed
qed simp_all

text \<open>
  A start that is refused leaves the disk as it was, but for the CA's two files, and never tells that
  the proxy is ready. Once the configuration has loaded the logger cannot be what fails: the schema lets
  through only formats, and levels, that the logger has.
\<close>

theorem start_refused:
  assumes runs: "config_runs frac (rn_config_zog env)"
    and levels: "list_all (\<lambda>l. rn_levels env l \<noteq> None) [''debug'', ''info'', ''warn'', ''error'']"
    and out: "start env path fs = ((Inl stop, log), fs')"
  shows "(\<forall>err. stop \<noteq> Failed (LogFailed err)) \<and> (\<forall>a b. ReadyAt a b \<notin> set log) \<and>
    (\<forall>p. fs' p \<noteq> fs p \<longrightarrow>
       (\<exists>cfg. load (rn_os env) fs (rn_unyaml env) (rn_config_zog env) path = Inr cfg \<and>
          p \<in> {tc_ca_cert (cf_tls cfg), tc_ca_key (cf_tls cfg)})) \<and>
    (\<forall>err. stop = Failed (LoadFailed err) \<longleftrightarrow>
       load (rn_os env) fs (rn_unyaml env) (rn_config_zog env) path = Inl err)"
  using out
proof (cases rule: start_cases)
  case (not_loaded e)
  then show ?thesis by auto
next
  case (no_logger cfg e)
  from load_ok [OF runs no_logger(1)] have "lc_level (cf_logging cfg) \<in> {''debug'', ''info'', ''warn'', ''error''}"
    "lc_format (cf_logging cfg) \<in> {''json'', ''text''}" by (simp_all add: config_ok_def Let_def)
  with levels no_logger(2) have False by (auto simp: new_logger_def)
  then show ?thesis ..
next
  case (no_ca cfg e created)
  with load_or_create_other [OF no_ca(2)] show ?thesis by auto
next
  case (assembled cfg ca created out' log1 log2)
  from assembled(3) show ?thesis
  proof (cases rule: start_with_cases)
    case (refused e)
    with assembled(6) have "stop = e" by simp
    with refused assembled(1,4,5) load_or_create_other [OF assembled(2)] show ?thesis
      by (auto simp: from_later_def)
  next
    case (serving ru parts ls)
    with assembled(6) show ?thesis by simp
  qed
qed

text \<open>
  C6. A start that succeeds keeps what the components rely on. The cache has a positive limit, so that it
  never holds more clients than configured, whatever its callers do; the sweeper's ticker has a positive
  period. The headers the configuration names, or the four that carry credentials, are redacted. A request that is
  accepted names none of the directives the configuration denies, and a proxy if it demands one. The
  metrics are there exactly when enabled, count from zero and have the configured routes, and their
  path is none of the admin server's own. Only the CA's files were written.
\<close>

theorem start_sound:
  assumes runs: "config_runs frac (rn_config_zog env)"
    and mux: "\<And>ps p. p \<in> set ps \<Longrightarrow> \<not> rn_mux env ps p"
    and out: "start env path fs = ((Inr (cfg, ru), log), fs')"
  shows "config_ok cfg \<and>
    (let parts = ru_parts ru; opts = as_cache_options parts in
      0 < co_max opts \<and> 0 < po_cert_cache_size (as_proxy parts) \<and>
      (\<forall>y. reachable opts y \<longrightarrow> int (cache_len (sy_cache y)) \<le> cc_max (cf_clients cfg)) \<and>
      0 < ru_sweep_period ru \<and>
      (\<forall>name v. (\<exists>n \<in> set (the (lc_redact (cf_logging cfg))). equal_fold n name) \<longrightarrow>
         su_redact (as_server parts) name v = redacted) \<and>
      (\<forall>h dir. parse (rn_zog env) (rn_urls env) h (as_policy parts) = ParseOk dir \<longrightarrow>
         (\<forall>e \<in> set h. is_tip (fst e) \<longrightarrow> tip_key (fst e) \<notin> deny_key ` set (dc_deny (cf_directives cfg))) \<and>
         (dc_require_proxy (cf_directives cfg) \<longrightarrow> d_proxy dir \<noteq> [])) \<and>
      (case as_metrics parts of
         None \<Rightarrow> \<not> mc_enabled (cf_metrics cfg)
       | Some m \<Rightarrow> mc_enabled (cf_metrics cfg) \<and> new_matcher (mc_routes (cf_metrics cfg)) = Inr (me_matcher m) \<and>
           (\<forall>s. me_series m s = 0)) \<and>
      distinct (ru_admin_paths ru)) \<and>
    (\<forall>p. p \<notin> {tc_ca_cert (cf_tls cfg), tc_ca_key (cf_tls cfg)} \<longrightarrow> fs' p = fs p)"
proof -
  from start_started [OF out] obtain ca created parts ls where
    load: "load (rn_os env) fs (rn_unyaml env) (rn_config_zog env) path = Inr cfg"
    and ca: "load_or_create_ca (rn_os env) (rn_crypto env) (tc_ca_cert (cf_tls cfg)) (tc_ca_key (cf_tls cfg)) fs = ((Inr ca, created), fs')"
    and parts: "assemble env cfg ca = Inr parts" and ru: "serve_all env cfg parts ls = Inr ru" .
  note p = assemble_parts [OF parts] and r = serve_all_running [OF ru]
  have ok: "config_ok cfg" by (rule load_ok [OF runs load])
  then have pos: "0 < cc_max (cf_clients cfg)" "0 < tc_cert_cache_size (cf_tls cfg)" by (simp_all add: config_ok_def Let_def)
  have redact: "lc_redact (cf_logging cfg) \<noteq> None" by (rule load_reads [OF runs load])
  have bound: "\<forall>y. reachable (as_cache_options parts) y \<longrightarrow> int (cache_len (sy_cache y)) \<le> cc_max (cf_clients cfg)"
    using reachable_ok [of "as_cache_options parts"] pos(1) by (simp add: p(3) system_ok_def)
  have hide: "su_redact (as_server parts) name v = redacted"
    if "\<exists>n \<in> set (the (lc_redact (cf_logging cfg))). equal_fold n name" for name v
    using that redact redactor_value_iff [of "the (lc_redact (cf_logging cfg))" name v]
    by (auto simp: p(5) new_server_def Let_def proxy_options_of_def)
  have "distinct (ru_admin_paths ru)"
    using r(4) mux [of "mc_path (cf_metrics cfg)" admin_paths] by (auto simp: r(3) admin_paths_def)
  moreover have "\<forall>q. q \<notin> {tc_ca_cert (cf_tls cfg), tc_ca_key (cf_tls cfg)} \<longrightarrow> fs' q = fs q"
    using load_or_create_other [OF ca] by blast
  moreover have "\<forall>h dir. parse (rn_zog env) (rn_urls env) h (as_policy parts) = ParseOk dir \<longrightarrow>
      (\<forall>e \<in> set h. is_tip (fst e) \<longrightarrow> tip_key (fst e) \<notin> deny_key ` set (dc_deny (cf_directives cfg))) \<and>
      (dc_require_proxy (cf_directives cfg) \<longrightarrow> d_proxy dir \<noteq> [])"
    using make_policy_enforced [OF p(1)] by blast
  moreover note make_metrics_ready [OF p(2)] bound hide ok
  ultimately show ?thesis
    unfolding Let_def r(1,2)
    using pos by (auto simp: p(3,4) proxy_options_of_def sweep_period_def second_def)
qed

text \<open>
  However the program stops, it exits with 0 exactly when no server failed, and leaves no client
  open that is not held by a request still running: the cache is closed last, after the drain and
  the servers' shutdown, which come in this order.
\<close>

theorem stop_closes_clients:
  assumes mx: "0 < co_max opts" and y: "reachable opts y" and stop: "stop_run grace drained why = (calls, r)"
  shows "(snd (main_exit err_text r) = 0 \<longleftrightarrow> (\<forall>e. why \<noteq> ServerFailed e)) \<and>
    ca_entries (stop_cache calls (sy_cache y)) = [] \<and>
    (\<forall>i < length (ca_clients (sy_cache y)).
       i \<notin> set (sy_held y) \<longrightarrow> cl_closed (ca_clients (stop_cache calls (sy_cache y)) ! i)) \<and>
    (r = None \<longrightarrow> (\<exists>before log. calls = before @ DrainServer # log @ [ShutProxy, ShutAdmin, CancelGrace, ForgetSignals, CloseCache]))"
proof -
  have "stop_cache calls (sy_cache y) = close_cache (sy_cache y)"
    using stop by (auto simp: stop_run_def split: stop.splits option.splits)
  moreover have "snd (main_exit err_text r) = 0 \<longleftrightarrow> (\<forall>e. why \<noteq> ServerFailed e)"
    using stop by (auto simp: stop_run_def main_exit_def split: stop.splits)
  moreover have "\<exists>before log. calls = before @ DrainServer # log @ [ShutProxy, ShutAdmin, CancelGrace, ForgetSignals, CloseCache]"
    if "r = None"
    using stop that
    by (intro exI [of _ "[LogEntry (ShuttingDown grace)]"]
          exI [of _ "case drained of None \<Rightarrow> [] | Some e \<Rightarrow> [LogEntry (DrainCut e)]"])
      (auto simp: stop_run_def split: stop.splits option.splits)
  ultimately show ?thesis using close_cache_closes_all [OF mx y] by simp
qed

theorem stop_closes_clients_witness:
  "fst (main_exit (\<lambda>_. ''accept'') (snd (stop_run 15 None (ServerFailed ''accept'')))) = ''tip: accept'' @ [newline] \<and>
   ca_entries (stop_cache [ForgetSignals, CloseCache] (sy_cache demo_started)) = []"
proof -
  have "0 < co_max demo_options" by (simp add: demo_options_def)
  moreover have "stop_run 15 None (ServerFailed ''accept'') = ([ForgetSignals, CloseCache], Some (ServeFailed ''accept''))"
    by (simp add: stop_run_def)
  ultimately have "ca_entries (stop_cache [ForgetSignals, CloseCache] (sy_cache demo_started)) = []"
    using stop_closes_clients [OF _ demo_started_reachable] by blast
  then show ?thesis by (simp add: stop_run_def main_exit_def)
qed

section \<open>A small deployment\<close>

definition demo_run_env :: "(string \<times> string, string) run_env" where
  "demo_run_env =
     \<lparr>rn_os = demo_os (\<lambda>_. Written), rn_unyaml = demo_unyaml, rn_config_zog = demo_config_zog, rn_levels = Some,
      rn_crypto = demo_crypto, rn_print = fst, rn_zog = plain_zog, rn_urls = (\<lambda>_. None),
      rn_prometheus = demo_prometheus, rn_listen = (\<lambda>_. Inr), rn_mux = (\<lambda>ps p. p \<notin> set ps)\<rparr>"

definition loaded_config :: config where
  "loaded_config = demo_config\<lparr>cf_logging := (cf_logging demo_config)\<lparr>lc_redact := Some default_redact\<rparr>\<rparr>"

lemma loaded_config_simps:
  "cf_server loaded_config = cf_server demo_config" "cf_tls loaded_config = cf_tls demo_config"
  "cf_directives loaded_config = cf_directives demo_config" "cf_metrics loaded_config = cf_metrics demo_config"
  "cf_clients loaded_config = cf_clients demo_config" "cf_auth loaded_config = cf_auth demo_config"
  "cf_upstream loaded_config = cf_upstream demo_config" "cf_encoding loaded_config = cf_encoding demo_config"
  "lc_level (cf_logging loaded_config) = ''info''" "lc_format (cf_logging loaded_config) = ''json''"
  "lc_redact (cf_logging loaded_config) = Some default_redact"
  by (simp_all add: loaded_config_def demo_config_def)

lemma demo_policy: "\<exists>p. make_policy plain_zog (\<lambda>_. None) (cf_directives demo_config) = Inr p"
  by (simp add: make_policy_def build_policy_def demo_config_def new_policy_def default_header_def parse_eval
      set_proxy_hosts_def)

lemma demo_metrics: "\<exists>m. make_metrics demo_prometheus (cf_metrics demo_config) = Inr (Some m)"
  by (simp add: make_metrics_def demo_config_def new_metrics_def new_matcher_def routes_def demo_prometheus_def
      vectors_def vector_labels_def with_captures_def)

lemma demo_ca:
  "\<exists>fs'. load_or_create_ca (demo_os (\<lambda>_. Written)) demo_crypto ''./ca.pem'' ''./ca.key'' demo_config_files =
     ((Inr (''CERTIFICATEc'', ''EC PRIVATE KEYk''), True), fs')"
  by (simp add: load_or_create_ca_def stat_def demo_os_def create_ca_def new_pems_def demo_crypto_def
      write_ca_def write_file_def demo_config_files_def)

lemma demo_started_run: "\<exists>ru log fs'. start demo_run_env ''tip.yaml'' demo_config_files = ((Inr (loaded_config, ru), log), fs')"
proof -
  obtain p where p: "make_policy plain_zog (\<lambda>_. None) (cf_directives demo_config) = Inr p" using demo_policy ..
  obtain m where m: "make_metrics demo_prometheus (cf_metrics demo_config) = Inr (Some m)" using demo_metrics ..
  obtain fs' where ca: "load_or_create_ca (demo_os (\<lambda>_. Written)) demo_crypto ''./ca.pem'' ''./ca.key'' demo_config_files =
     ((Inr (''CERTIFICATEc'', ''EC PRIVATE KEYk''), True), fs')" using demo_ca ..
  have tls: "tc_ca_cert (cf_tls demo_config) = ''./ca.pem''" "tc_ca_key (cf_tls demo_config) = ''./ca.key''"
    "mc_path (cf_metrics demo_config) = ''/metrics''" by (simp_all add: demo_config_def)
  have l: "load (demo_os (\<lambda>_. Written)) demo_config_files demo_unyaml demo_config_zog ''tip.yaml'' = Inr loaded_config"
    using demo_load by (simp only: loaded_config_def)
  show ?thesis
    by (simp add: start_def demo_run_env_def l loaded_config_simps new_logger_def tls ca start_with_def assemble_def p m
        listen_all_def serve_all_def admin_paths_def Let_def)
qed

theorem start_sound_witness:
  "\<exists>ru log fs'. start demo_run_env ''tip.yaml'' demo_config_files = ((Inr (loaded_config, ru), log), fs') \<and>
     co_max (as_cache_options (ru_parts ru)) > 0 \<and>
     su_redact (as_server (ru_parts ru)) ''Cookie'' ''secret'' = redacted \<and> as_metrics (ru_parts ru) \<noteq> None"
proof -
  obtain ru log fs' where s: "start demo_run_env ''tip.yaml'' demo_config_files = ((Inr (loaded_config, ru), log), fs')"
    using demo_started_run by blast
  have "config_runs (\<lambda>_ _ _. 0) (rn_config_zog demo_run_env)" using demo_config_runs by (simp add: demo_run_env_def)
  moreover have "\<And>ps p. p \<in> set ps \<Longrightarrow> \<not> rn_mux demo_run_env ps p" by (simp add: demo_run_env_def)
  ultimately have "co_max (as_cache_options (ru_parts ru)) > 0"
    "(\<exists>n \<in> set (the (lc_redact (cf_logging loaded_config))). equal_fold n ''Cookie'') \<longrightarrow>
       su_redact (as_server (ru_parts ru)) ''Cookie'' ''secret'' = redacted"
    "as_metrics (ru_parts ru) = None \<longrightarrow> \<not> mc_enabled (cf_metrics loaded_config)"
    using start_sound [OF _ _ s, of "\<lambda>_ _ _. 0"] unfolding Let_def by (blast, blast, auto)
  moreover have "equal_fold ''Cookie'' ''Cookie''" by (simp add: equal_fold_def)
  then have "\<exists>n \<in> set (the (lc_redact (cf_logging loaded_config))). equal_fold n ''Cookie''"
    by (simp add: loaded_config_simps default_redact_def)
  moreover have "mc_enabled (cf_metrics loaded_config)" by (simp add: loaded_config_simps demo_config_def)
  ultimately show ?thesis using s by blast
qed

theorem start_refused_witness:
  "\<exists>stop log. start demo_run_env ''missing.yaml'' demo_config_files = ((Inl stop, log), demo_config_files) \<and>
     stop = Failed (LoadFailed (NotRead NotExist)) \<and> (\<forall>err. stop \<noteq> Failed (LogFailed err))"
proof -
  have l: "load (demo_os (\<lambda>_. Written)) demo_config_files demo_unyaml demo_config_zog ''missing.yaml'' = Inl (NotRead NotExist)"
    by (simp add: load_def read_file_def demo_os_def demo_config_files_def)
  have s: "start demo_run_env ''missing.yaml'' demo_config_files =
      ((Inl (Failed (LoadFailed (NotRead NotExist))), []), demo_config_files)"
    by (simp add: start_def demo_run_env_def l)
  have "config_runs (\<lambda>_ _ _. 0) (rn_config_zog demo_run_env)" using demo_config_runs by (simp add: demo_run_env_def)
  moreover have "list_all (\<lambda>l. rn_levels demo_run_env l \<noteq> None) [''debug'', ''info'', ''warn'', ''error'']"
    by (simp add: demo_run_env_def)
  ultimately show ?thesis using start_refused [OF _ _ s] s by blast
qed

end
