(* ===== verification/Tip_Client.thy ===== *)
theory Tip_Client
  imports Tip_Cache
begin

text \<open>
  The reference count of a client below the level of the cache's mutex: \<^verbatim>\<open>Release\<close> runs without
  it, so its atomic operations interleave with those of \<^verbatim>\<open>retire\<close> and of \<^verbatim>\<open>acquire\<close>
  (\<^verbatim>\<open>internal/impersonate/client.go\<close>). One step is one atomic operation.
\<close>

text \<open>Where a caller is in its use of the client, and where the goroutine that retires it is.\<close>

datatype caller_pc = Holding | Dropped | Closing | Gone

datatype retirer_pc = RIdle | RMarked | RClosing | RDone

record atomics =
  at_inflight :: int
  at_retired :: bool
  at_closed :: bool
  at_close_calls :: nat
  at_retirer :: retirer_pc
  at_callers :: "caller_pc list"

definition at_new :: atomics where
  "at_new = \<lparr>at_inflight = 0, at_retired = False, at_closed = False, at_close_calls = 0,
             at_retirer = RIdle, at_callers = []\<rparr>"

text \<open>\<^verbatim>\<open>Close\<close>, through the \<^verbatim>\<open>sync.Once\<close>.\<close>

definition at_close :: "atomics \<Rightarrow> atomics" where
  "at_close a =
     (if at_closed a then a
      else a\<lparr>at_closed := True, at_close_calls := Suc (at_close_calls a)\<rparr>)"

text \<open>
  \<open>late\<close> says whether a caller that waited for a build may still take the client once it has been
  retired; a hit finds it among the entries, that is, before.
\<close>

inductive at_step :: "bool \<Rightarrow> atomics \<Rightarrow> atomics \<Rightarrow> bool" for late where
  at_acquire: "at_retirer a = RIdle \<or> late \<Longrightarrow>
     at_step late a (a\<lparr>at_inflight := at_inflight a + 1, at_callers := at_callers a @ [Holding]\<rparr>)"
| at_drop: "i < length (at_callers a) \<Longrightarrow> at_callers a ! i = Holding \<Longrightarrow>
     at_step late a (a\<lparr>at_inflight := at_inflight a - 1,
       at_callers := (at_callers a)[i := if at_inflight a - 1 = 0 then Dropped else Gone]\<rparr>)"
| at_check: "i < length (at_callers a) \<Longrightarrow> at_callers a ! i = Dropped \<Longrightarrow>
     at_step late a (a\<lparr>at_callers := (at_callers a)[i := if at_retired a then Closing else Gone]\<rparr>)"
| at_caller_close: "i < length (at_callers a) \<Longrightarrow> at_callers a ! i = Closing \<Longrightarrow>
     at_step late a (at_close (a\<lparr>at_callers := (at_callers a)[i := Gone]\<rparr>))"
| at_mark: "at_retirer a = RIdle \<Longrightarrow>
     at_step late a (a\<lparr>at_retired := True, at_retirer := RMarked\<rparr>)"
| at_load: "at_retirer a = RMarked \<Longrightarrow>
     at_step late a (a\<lparr>at_retirer := if at_inflight a = 0 then RClosing else RDone\<rparr>)"
| at_retirer_close: "at_retirer a = RClosing \<Longrightarrow>
     at_step late a (at_close (a\<lparr>at_retirer := RDone\<rparr>))"

definition at_reachable :: "bool \<Rightarrow> atomics \<Rightarrow> bool" where
  "at_reachable late a = (at_step late)\<^sup>*\<^sup>* at_new a"

lemma at_reach_new: "at_reachable late at_new"
  by (simp add: at_reachable_def)

lemma at_reach: "at_reachable late a \<Longrightarrow> at_step late a a' \<Longrightarrow> at_reachable late a'"
  unfolding at_reachable_def by (rule rtranclp.rtrancl_into_rtrancl)

text \<open>
  The count is the number of callers that hold the client; a retired client that nobody holds is
  closed, or somebody is about to close it.
\<close>

definition at_ok :: "atomics \<Rightarrow> bool" where
  "at_ok a \<longleftrightarrow>
     at_inflight a = int (count_list (at_callers a) Holding) \<and>
     (at_retired a \<longleftrightarrow> at_retirer a \<noteq> RIdle) \<and>
     (Closing \<in> set (at_callers a) \<longrightarrow> at_retired a) \<and> (at_closed a \<longrightarrow> at_retired a) \<and>
     at_close_calls a = (if at_closed a then 1 else 0) \<and>
     (at_retirer a = RDone \<and> at_inflight a = 0 \<longrightarrow>
        at_closed a \<or> Dropped \<in> set (at_callers a) \<or> Closing \<in> set (at_callers a))"

lemma count_list_update:
  "i < length xs \<Longrightarrow> int (count_list (xs[i := v]) x) =
     int (count_list xs x) - (if xs ! i = x then 1 else 0) + (if v = x then 1 else 0)"
proof (induction xs arbitrary: i)
  case (Cons y ys)
  show ?case
  proof (cases i)
    case (Suc n)
    with Cons.IH [of n] Cons.prems show ?thesis by (cases "y = x"; cases "v = x"; cases "ys ! n = x") simp_all
  qed simp
qed simp

lemma set_update_keep: "i < length xs \<Longrightarrow> x \<in> set xs \<Longrightarrow> x \<noteq> xs ! i \<Longrightarrow> x \<in> set (xs[i := v])"
  by (metis in_set_conv_nth length_list_update nth_list_update_neq)

lemma set_update_new: "x \<in> set (xs[i := v]) \<Longrightarrow> x = v \<or> x \<in> set xs"
  using set_update_subset_insert [of xs i v] by blast

lemmas update_sets = set_update_keep set_update_memI

lemma at_ok_step:
  assumes ok: "at_ok a" and step: "at_step late a a'"
  shows "at_ok a'"
  using step
proof cases
  case (at_drop i)
  let ?v = "if at_inflight a - 1 = 0 then Dropped else Gone"
  have "?v \<in> set ((at_callers a)[i := ?v])" by (rule set_update_memI [OF at_drop(2)])
  moreover have "Closing \<in> set ((at_callers a)[i := ?v]) \<Longrightarrow> Closing \<in> set (at_callers a)"
    by (auto dest: set_update_new split: if_splits)
  ultimately show ?thesis using ok at_drop unfolding at_drop(1) at_ok_def
    by (simp add: count_list_update) (auto simp: at_ok_def)
next
  case (at_check i)
  let ?v = "if at_retired a then Closing else Gone"
  have "?v \<in> set ((at_callers a)[i := ?v])" by (rule set_update_memI [OF at_check(2)])
  moreover have "Closing \<in> set ((at_callers a)[i := ?v]) \<Longrightarrow> Closing \<in> set (at_callers a) \<or> at_retired a"
    by (auto dest: set_update_new split: if_splits)
  ultimately show ?thesis using ok at_check unfolding at_check(1) at_ok_def
    by (simp add: count_list_update) (auto simp: at_ok_def)
next
  case (at_caller_close i)
  have "Closing \<in> set (at_callers a)" using at_caller_close by (metis nth_mem)
  moreover have "Closing \<in> set ((at_callers a)[i := Gone]) \<Longrightarrow> Closing \<in> set (at_callers a)"
    by (auto dest: set_update_new)
  ultimately show ?thesis using ok at_caller_close unfolding at_caller_close(1) at_ok_def at_close_def
    by (simp add: count_list_update) blast
qed (use ok in \<open>auto simp: at_ok_def at_close_def\<close>)

lemma at_reachable_ok: "at_reachable late a \<Longrightarrow> at_ok a"
  unfolding at_reachable_def
proof (induction rule: rtranclp_induct)
  case base
  show ?case by (simp add: at_ok_def at_new_def)
next
  case (step a a')
  then show ?case by (blast intro: at_ok_step)
qed

text \<open>
  C37. No interleaving of the atomic operations leaks a client or closes its connections twice: the
  count never goes below zero; once a retired client is no longer held and neither a caller nor the
  retiring goroutine is still in the middle of letting go of it, it has been closed, exactly once,
  whether or not late callers take it after it was retired.
\<close>

theorem retired_client_is_closed:
  assumes "at_reachable late a"
  shows "0 \<le> at_inflight a \<and> at_close_calls a \<le> 1 \<and> (at_closed a \<longrightarrow> at_retired a) \<and>
    (at_retired a \<and> set (at_callers a) \<subseteq> {Gone} \<and> at_retirer a \<notin> {RMarked, RClosing} \<longrightarrow>
       at_closed a \<and> at_close_calls a = 1)"
proof -
  have ok: "at_ok a" by (rule at_reachable_ok [OF assms])
  have "at_closed a" if q: "at_retired a" "set (at_callers a) \<subseteq> {Gone}" "at_retirer a \<notin> {RMarked, RClosing}"
  proof -
    from q ok have "at_retirer a = RDone" by (cases "at_retirer a") (auto simp: at_ok_def)
    moreover from q(2) have "count_list (at_callers a) Holding = 0"
      by (auto simp: count_list_0_iff)
    ultimately show ?thesis using ok q(2) by (auto simp: at_ok_def)
  qed
  with ok show ?thesis by (auto simp: at_ok_def)
qed

theorem retired_client_is_closed_witness:
  "at_closed (at_close (at_new\<lparr>at_retired := True, at_retirer := RDone\<rparr>))"
proof -
  let ?a1 = "at_new\<lparr>at_retired := True, at_retirer := RMarked\<rparr>"
  let ?a2 = "?a1\<lparr>at_retirer := RClosing\<rparr>"
  let ?a3 = "at_close (?a2\<lparr>at_retirer := RDone\<rparr>)"
  have s1: "at_step False at_new ?a1" using at_mark [of at_new False] by (simp add: at_new_def)
  have s2: "at_step False ?a1 ?a2" using at_load [of ?a1 False] by (simp add: at_new_def)
  have s3: "at_step False ?a2 ?a3" using at_retirer_close [of ?a2 False] by simp
  have "at_reachable False ?a3" by (rule at_reach [OF at_reach [OF at_reach [OF at_reach_new s1] s2] s3])
  from retired_client_is_closed [OF this, THEN conjunct2, THEN conjunct2, THEN conjunct2]
  show ?thesis by (simp add: at_new_def at_close_def)
qed

text \<open>
  C39. A client can be closed under a caller that holds it. The count and the retired flag are read
  one after the other: the last holder brings the count to zero; a hit takes the client again and
  an eviction retires it, leaving it open for the new holder; then the first caller reads the flag
  and closes.
\<close>

theorem client_closed_in_use:
  "\<exists>a. at_reachable False a \<and> at_closed a \<and> Holding \<in> set (at_callers a)"
proof -
  define st where "st n r c k p cs = \<lparr>at_inflight = n, at_retired = r, at_closed = c,
    at_close_calls = k, at_retirer = p, at_callers = cs\<rparr>" for n r c k p cs
  have new: "at_new = st 0 False False 0 RIdle []" by (simp add: at_new_def st_def)
  have s1: "at_step False (st 0 False False 0 RIdle []) (st 1 False False 0 RIdle [Holding])"
    using at_acquire [of "st 0 False False 0 RIdle []" False] by (simp add: st_def)
  have s2: "at_step False (st 1 False False 0 RIdle [Holding]) (st 0 False False 0 RIdle [Dropped])"
    using at_drop [of 0 "st 1 False False 0 RIdle [Holding]" False] by (simp add: st_def)
  have s3: "at_step False (st 0 False False 0 RIdle [Dropped]) (st 1 False False 0 RIdle [Dropped, Holding])"
    using at_acquire [of "st 0 False False 0 RIdle [Dropped]" False] by (simp add: st_def)
  have s4: "at_step False (st 1 False False 0 RIdle [Dropped, Holding]) (st 1 True False 0 RMarked [Dropped, Holding])"
    using at_mark [of "st 1 False False 0 RIdle [Dropped, Holding]" False] by (simp add: st_def)
  have s5: "at_step False (st 1 True False 0 RMarked [Dropped, Holding]) (st 1 True False 0 RDone [Dropped, Holding])"
    using at_load [of "st 1 True False 0 RMarked [Dropped, Holding]" False] by (simp add: st_def)
  have s6: "at_step False (st 1 True False 0 RDone [Dropped, Holding]) (st 1 True False 0 RDone [Closing, Holding])"
    using at_check [of 0 "st 1 True False 0 RDone [Dropped, Holding]" False] by (simp add: st_def)
  have s7: "at_step False (st 1 True False 0 RDone [Closing, Holding]) (st 1 True True 1 RDone [Gone, Holding])"
    using at_caller_close [of 0 "st 1 True False 0 RDone [Closing, Holding]" False]
    by (simp add: st_def at_close_def)
  have "at_reachable False (st 1 True True 1 RDone [Gone, Holding])"
    by (rule at_reach [OF at_reach [OF at_reach [OF at_reach [OF at_reach [OF at_reach [OF
        at_reach [OF at_reach_new s1 [folded new]] s2] s3] s4] s5] s6] s7])
  then show ?thesis by (intro exI conjI) (auto simp: st_def)
qed

end
