(* ===== verification/Spec2Isabelle.thy ===== *)
theory Spec2Isabelle
  imports Tip_Main Tip_Client
begin

text \<open>
  TIP, a proxy that sends each request with the TLS and HTTP fingerprint of a browser. A client names an
  identity, and how to reach the origin, in \<^verbatim>\<open>X-Tip-*\<close> headers (directives); the proxy parses them
  under the operator's policy, takes an HTTP client built for exactly that specification from a cache, sends
  the request through it without the directives, and relays the answer, or says what went wrong. This
  development models the Go code under \<^verbatim>\<open>src/\<close>: its data as records and datatypes, its functions
  as HOL functions, its critical sections and atomics as step relations.

  Directives (\<^verbatim>\<open>internal/directive\<close>).
  \<^item> \<^theory_text>\<open>Tip_Schema\<close>: enumerations, names, and what the schema checks of each field
    (\<^verbatim>\<open>schema.go\<close>). \<^theory_text>\<open>Tip_Duration\<close>: \<^verbatim>\<open>time.ParseDuration\<close>, shared with the configuration.
  \<^item> \<^theory_text>\<open>Tip_Directive\<close>: directives, specifications, issues and the policy's checks
    (\<^verbatim>\<open>directive.go\<close>, \<^verbatim>\<open>spec.go\<close>, \<^verbatim>\<open>issues.go\<close>, \<^verbatim>\<open>policy.go\<close>).
  \<^item> \<^theory_text>\<open>Tip_Parse\<close>: \<^verbatim>\<open>Parse\<close>, \<^verbatim>\<open>Strip\<close>, and how the policy is made (\<^verbatim>\<open>parse.go\<close>, \<^verbatim>\<open>policy.go\<close>). A Go
    map is visited in any order: the header is a list, and the outcome does not depend on its order. What is
    accepted was permitted, and every value is of its directive's kind.
  \<^item> \<^theory_text>\<open>Tip_Resolve\<close>: the choice of one browser and system. \<^theory_text>\<open>Tip_Key\<close>: the cache key of a specification,
    injective on valid UTF-8.

  Impersonation (\<^verbatim>\<open>internal/impersonate\<close>).
  \<^item> \<^theory_text>\<open>Tip_Families\<close>: browser families and what a User-Agent is taken for (\<^verbatim>\<open>profiles.go\<close>, \<^verbatim>\<open>infer.go\<close>);
    \<^theory_text>\<open>Tip_Catalogue\<close>: the catalogue of profiles (\<^verbatim>\<open>catalogue.go\<close>); \<^theory_text>\<open>Tip_Build\<close>: what is asked of the
    client library for a specification (\<^verbatim>\<open>build.go\<close>); \<^theory_text>\<open>Tip_Context\<close>: kept headers and the captured request
    (\<^verbatim>\<open>context.go\<close>).
  \<^item> \<^theory_text>\<open>Tip_Cache\<close>: the client cache (\<^verbatim>\<open>cache.go\<close>, \<^verbatim>\<open>client.go\<close>). Each section under the mutex is a
    function, \<open>step\<close> interleaves them with callers that hold, wait and build. The invariant holds in every
    reachable state; \<^theory_text>\<open>Tip_Pool\<close> gives the abstract pool that the cache implements, and the simulation.
    \<^theory_text>\<open>Tip_Client\<close>: a client's atomics below the mutex.

  Reaching the origin and answering (\<^verbatim>\<open>internal/connect\<close>, \<^verbatim>\<open>internal/proxy\<close>, \<^verbatim>\<open>internal/logging\<close>).
  \<^item> \<^theory_text>\<open>Tip_Error\<close> and \<^theory_text>\<open>Tip_Connect\<close>: errors as trees, and the dialer through an HTTP proxy.
  \<^item> \<^theory_text>\<open>Tip_Redact\<close>: what the logs hide. \<^theory_text>\<open>Tip_Failure\<close>: failures, their class, status and answer.
  \<^item> \<^theory_text>\<open>Tip_Encoding\<close>: bodies and their codings. \<^theory_text>\<open>Tip_Stores\<close>: the certificate cache and the CA's files.
  \<^item> \<^theory_text>\<open>Tip_Handler\<close>: a request from the handler through the round trip to its closing hook; \<^theory_text>\<open>Tip_Proxy\<close>: the
    handler over the client cache, the server's own answers, authentication and draining.

  Running it (\<^verbatim>\<open>internal/metrics\<close>, \<^verbatim>\<open>internal/config\<close>, \<^verbatim>\<open>cmd/tip\<close>).
  \<^item> \<^theory_text>\<open>Tip_Routes\<close> and \<^theory_text>\<open>Tip_Metrics\<close>: the matcher of routes and the counters; \<^theory_text>\<open>Tip_Observer\<close>: the
    adapter that joins them to the server and the cache, and what the gauges then say.
  \<^item> \<^theory_text>\<open>Tip_Unknown\<close>, \<^theory_text>\<open>Tip_Config\<close>, \<^theory_text>\<open>Tip_Load\<close>: unknown keys, the configuration and its schema, and loading.
  \<^item> \<^theory_text>\<open>Tip_Main\<close>: \<^verbatim>\<open>run\<close>. What loads keeps the components' preconditions.

  \<^theory_text>\<open>Tip_Prelude\<close>, \<^theory_text>\<open>Tip_Strings\<close>, \<^theory_text>\<open>Tip_Utf8\<close>, \<^theory_text>\<open>Tip_Headers\<close> and \<^theory_text>\<open>Tip_Url\<close> hold what they share: Go's
  strings, its UTF-8, header maps, and URLs as far as the code reads them.

  Recursion. Loops are structural, or have a measure. The loop that makes room in the cache need not end in
  general, so it is a partial function; for a positive limit, which the configuration guarantees, it is
  proved to end. No definition has fuel. Times are nanoseconds as integers, and a time a caller reads is
  before the last one an \<^verbatim>\<open>int64\<close> holds. Settings keep their widths as words.

  Arguments of the model. Code that is not in the repository is an argument, with what is relied on
  as a named hypothesis: the validation library (\<open>schema_runs\<close>, \<open>config_runs\<close>), the URL and YAML
  parsers, the client library's tables and transports, decompressors, cryptography and SHA-256, the Prometheus
  client, the multiplexer, the network, the disk's faults, and the random source.

  Not modelled. The connection loops of \<^verbatim>\<open>net/http\<close> and goproxy, and what a client of the library does on the
  wire; real time (a duration is measured, and a ticker's ticks come, outside the model); the text
  of the page of metrics; the version; the formatter of the validation library's issues, which calls that
  library's own; examples, documentation and tests. Data races are modelled where the code has them
  in atomics (\<^theory_text>\<open>Tip_Client\<close>, and the counter that draining polls), elsewhere a section under a mutex is one step.
\<close>

end
